(* ===== verification/Node_Prelude.thy ===== *)
theory Node_Prelude
  imports Main "HOL-Library.Word"
begin

text \<open>
  Shared vocabulary of the development: the machine types, the errors of the C++ code as
  values, the error monad in which every fallible operation is written, and the generic
  facts about lists that the component theories use.
\<close>

section \<open>Machine types\<close>

type_synonym u8 = "8 word"
type_synonym u32 = "32 word"
type_synonym u64 = "64 word"
type_synonym i64 = "64 word"
type_synonym u256 = "256 word"
type_synonym bytes = "u8 list"
type_synonym bytes32 = "u8 list"

section \<open>Errors as values\<close>

text \<open>
  The way a C++ operation can fail: an exception it throws itself, an exception of the
  standard library, an exception of a library it calls, a failed \<open>assert\<close>, or
  undefined behaviour (an access with no defined meaning, which the model never continues).
\<close>

datatype err =
    Runtime_error string
  | Bad_optional_access
  | Bad_variant_access
  | Assertion_failed
  | External_exception string
  | Undefined_behaviour string

type_synonym 'a res = "err + 'a"

named_theorems res_simps \<open>equations of the error monad\<close>

definition rbind :: "'a res \<Rightarrow> ('a \<Rightarrow> 'b res) \<Rightarrow> 'b res" where
  "rbind m f = (case m of Inl e \<Rightarrow> Inl e | Inr x \<Rightarrow> f x)"

lemma rbind_Inl [simp]: "rbind (Inl e) f = Inl e"
  by (simp add: rbind_def)

lemma rbind_Inr [simp]: "rbind (Inr x) f = f x"
  by (simp add: rbind_def)

lemma rbind_eq_Inr [res_simps]: "rbind m f = Inr y \<longleftrightarrow> (\<exists>x. m = Inr x \<and> f x = Inr y)"
  by (cases m) auto

lemma rbind_eq_Inl [res_simps]:
  "rbind m f = Inl e \<longleftrightarrow> m = Inl e \<or> (\<exists>x. m = Inr x \<and> f x = Inl e)"
  by (cases m) auto

lemma rbind_cong [fundef_cong]:
  "m = m' \<Longrightarrow> (\<And>x. m' = Inr x \<Longrightarrow> f x = g x) \<Longrightarrow> rbind m f = rbind m' g"
  by (cases m') auto

lemma rbind_assoc: "rbind (rbind m f) g = rbind m (\<lambda>x. rbind (f x) g)"
  by (cases m) auto

lemma not_Inl_iff: "(\<forall>e. m \<noteq> Inl e) \<longleftrightarrow> (\<exists>x. m = Inr x)"
  by (cases m) auto

text \<open>A check that throws when it fails.\<close>

definition rguard :: "bool \<Rightarrow> err \<Rightarrow> unit res" where
  "rguard b e = (if b then Inr () else Inl e)"

lemma rguard_eq_Inr [res_simps]: "rguard b e = Inr u \<longleftrightarrow> b"
  by (simp add: rguard_def)

lemma rguard_eq_Inl [res_simps]: "rguard b e = Inl e' \<longleftrightarrow> \<not> b \<and> e' = e"
  by (auto simp: rguard_def)

lemma rguard_True [simp]: "rguard True e = Inr ()"
  by (simp add: rguard_def)

lemma rguard_False [simp]: "rguard False e = Inl e"
  by (simp add: rguard_def)

text \<open>Reading an optional: \<open>value()\<close> throws, the dereferencing operators do not check.\<close>

definition value_of :: "'a option \<Rightarrow> 'a res" where
  "value_of x = (case x of None \<Rightarrow> Inl Bad_optional_access | Some v \<Rightarrow> Inr v)"

definition deref :: "string \<Rightarrow> 'a option \<Rightarrow> 'a res" where
  "deref what x = (case x of None \<Rightarrow> Inl (Undefined_behaviour what) | Some v \<Rightarrow> Inr v)"

lemma value_of_simps [simp]:
  "value_of None = Inl Bad_optional_access" "value_of (Some v) = Inr v"
  by (simp_all add: value_of_def)

lemma value_of_eq_Inr [res_simps]: "value_of x = Inr v \<longleftrightarrow> x = Some v"
  by (cases x) auto

lemma deref_simps [simp]:
  "deref w None = Inl (Undefined_behaviour w)" "deref w (Some v) = Inr v"
  by (simp_all add: deref_def)

lemma deref_eq_Inr [res_simps]: "deref w x = Inr v \<longleftrightarrow> x = Some v"
  by (cases x) auto

text \<open>
  The ends of a \<open>std::list\<close> or \<open>std::vector\<close>: \<open>front()\<close>, \<open>back()\<close> and the pops are
  undefined on an empty container.
\<close>

definition front_of :: "string \<Rightarrow> 'a list \<Rightarrow> 'a res" where
  "front_of what xs = (if xs = [] then Inl (Undefined_behaviour what) else Inr (hd xs))"

definition back_of :: "string \<Rightarrow> 'a list \<Rightarrow> 'a res" where
  "back_of what xs = (if xs = [] then Inl (Undefined_behaviour what) else Inr (last xs))"

lemma front_of_simps [simp]:
  "front_of w [] = Inl (Undefined_behaviour w)" "front_of w (x # xs) = Inr x"
  by (simp_all add: front_of_def)

lemma back_of_simps [simp]:
  "back_of w [] = Inl (Undefined_behaviour w)" "back_of w (xs @ [x]) = Inr x"
  by (simp_all add: back_of_def)

lemma front_of_eq_Inr [res_simps]: "front_of w xs = Inr x \<longleftrightarrow> xs \<noteq> [] \<and> x = hd xs"
  by (auto simp: front_of_def)

lemma back_of_eq_Inr [res_simps]: "back_of w xs = Inr x \<longleftrightarrow> xs \<noteq> [] \<and> x = last xs"
  by (auto simp: back_of_def)

lemma back_of_nonempty: "xs \<noteq> [] \<Longrightarrow> back_of w xs = Inr (last xs)"
  by (simp add: back_of_def)

text \<open>A range-for loop whose body may throw.\<close>

fun rfold :: "('a \<Rightarrow> 's \<Rightarrow> 's res) \<Rightarrow> 'a list \<Rightarrow> 's \<Rightarrow> 's res" where
  "rfold f [] s = Inr s"
| "rfold f (x # xs) s = rbind (f x s) (rfold f xs)"

lemma rfold_append: "rfold f (xs @ ys) s = rbind (rfold f xs s) (rfold f ys)"
proof (induction xs arbitrary: s)
  case Nil
  then show ?case by simp
next
  case (Cons x xs)
  then have "rfold f (xs @ ys) = (\<lambda>u. rbind (rfold f xs u) (rfold f ys))" by auto
  then show ?case by (simp add: rbind_assoc)
qed

lemma rfold_cong [fundef_cong]:
  "xs = ys \<Longrightarrow> s = t \<Longrightarrow> (\<And>x u. x \<in> set ys \<Longrightarrow> f x u = g x u) \<Longrightarrow> rfold f xs s = rfold g ys t"
proof (induction xs arbitrary: ys s t)
  case Nil
  then show ?case by auto
next
  case (Cons x xs)
  then have "rfold f xs = rfold g xs" by (intro ext) auto
  with Cons.prems show ?case by auto
qed

lemma rfold_invariant:
  assumes "rfold f xs s = Inr t" "P s"
    and "\<And>x u v. x \<in> set xs \<Longrightarrow> P u \<Longrightarrow> f x u = Inr v \<Longrightarrow> P v"
  shows "P t"
  using assms
proof (induction xs arbitrary: s)
  case Nil
  then show ?case by simp
next
  case (Cons x xs)
  from Cons.prems(1) obtain u where u: "f x s = Inr u" "rfold f xs u = Inr t"
    by (auto simp: res_simps)
  from Cons.prems(2,3) u(1) have "P u" by auto
  then show ?case using Cons.IH [OF u(2)] Cons.prems(3) by auto
qed

section \<open>Lists\<close>

lemma snoc_cases: "xs = [] \<or> (\<exists>ys y. xs = ys @ [y])"
  by (cases xs rule: rev_cases) auto

text \<open>Adjacent elements of a list are related (the links of a chain).\<close>

fun linked :: "('a \<Rightarrow> 'a \<Rightarrow> bool) \<Rightarrow> 'a list \<Rightarrow> bool" where
  "linked r [] = True"
| "linked r [x] = True"
| "linked r (x # y # zs) = (r x y \<and> linked r (y # zs))"

lemma linked_append:
  "linked r (xs @ ys) \<longleftrightarrow>
     linked r xs \<and> linked r ys \<and> (xs \<noteq> [] \<longrightarrow> ys \<noteq> [] \<longrightarrow> r (last xs) (hd ys))"
  by (induction r xs rule: linked.induct) (cases ys; auto)+

lemma linked_snoc: "linked r (xs @ [y]) \<longleftrightarrow> linked r xs \<and> (xs \<noteq> [] \<longrightarrow> r (last xs) y)"
  by (simp add: linked_append)

lemma linked_prefix: "linked r (xs @ ys) \<Longrightarrow> linked r xs"
  by (simp add: linked_append)

lemma linked_suffix: "linked r (xs @ ys) \<Longrightarrow> linked r ys"
  by (simp add: linked_append)

lemma linked_nth: "linked r xs \<Longrightarrow> Suc n < length xs \<Longrightarrow> r (xs ! n) (xs ! Suc n)"
  by (induction r xs arbitrary: n rule: linked.induct) (auto simp: nth_Cons split: nat.splits)

lemma linked_butlast: "linked r xs \<Longrightarrow> linked r (butlast xs)"
  by (cases xs rule: rev_cases) (auto simp: linked_append)

lemma linked_tl: "linked r xs \<Longrightarrow> linked r (tl xs)"
  by (induction r xs rule: linked.induct) auto

lemma linked_mono: "linked r xs \<Longrightarrow> (\<And>x y. r x y \<Longrightarrow> r' x y) \<Longrightarrow> linked r' xs"
  by (induction r xs rule: linked.induct) auto

end
