(* ===== verification/Double_Conversions.thy ===== *)
theory Double_Conversions
  imports Node_Prelude
begin

text \<open>
  The two places where the block conversion plugin computes with \<open>double\<close>: a time in
  microseconds divided by \<open>1e6\<close> and cut to an integer, and a time in seconds multiplied
  by \<open>1e6\<close>. A double is a 53-bit significand times a power of two; both operations round
  to the nearest representable value, ties to even. The definitions compute that rounding
  exactly on natural numbers, so the theorems say for which times the code is exact.
\<close>

section \<open>Rounding to 53 bits\<close>

fun bit_len :: "nat \<Rightarrow> nat" where
  "bit_len n = (if n = 0 then 0 else Suc (bit_len (n div 2)))"

declare bit_len.simps [simp del]

lemma bit_len_0 [simp]: "bit_len 0 = 0"
  by (simp add: bit_len.simps)

lemma bit_len_upper: "n < 2 ^ bit_len n"
proof (induction n rule: bit_len.induct)
  case (1 n)
  show ?case
  proof (cases "n = 0")
    case False
    with 1 have "n div 2 < 2 ^ bit_len (n div 2)" by simp
    then have "n < 2 * 2 ^ bit_len (n div 2)" by linarith
    with False show ?thesis by (simp add: bit_len.simps [of n])
  qed simp
qed

lemma bit_len_le: "n < 2 ^ k \<Longrightarrow> bit_len n \<le> k"
proof (induction n arbitrary: k rule: bit_len.induct)
  case (1 n)
  show ?case
  proof (cases "n = 0")
    case False
    with "1.prems" obtain j where j: "k = Suc j" by (cases k) auto
    with "1.prems" have "n div 2 < 2 ^ j" by auto
    with "1.IH" [OF False] have "bit_len (n div 2) \<le> j" by blast
    with False j show ?thesis by (simp add: bit_len.simps [of n])
  qed simp
qed

text \<open>\<open>n / d\<close> rounded to the nearest integer, ties to even.\<close>

definition round_half_even :: "nat \<Rightarrow> nat \<Rightarrow> nat" where
  "round_half_even n d =
     (let q = n div d; r = n mod d in
      if 2 * r < d \<or> (2 * r = d \<and> even q) then q else Suc q)"

lemma round_half_even_upper: "0 < d \<Longrightarrow> 2 * (round_half_even n d * d) \<le> 2 * n + d"
proof -
  assume "0 < d"
  have n: "n = n div d * d + n mod d" by simp
  show ?thesis
  proof (cases "2 * (n mod d) < d \<or> (2 * (n mod d) = d \<and> even (n div d))")
    case True
    then have "round_half_even n d = n div d" by (simp add: round_half_even_def Let_def)
    then show ?thesis using trans_le_add1 [OF mult_le_mono2 [OF div_times_less_eq_dividend, where k = 2]] by simp
  next
    case False
    then have r: "round_half_even n d = Suc (n div d)" and "d \<le> 2 * (n mod d)"
      by (auto simp: round_half_even_def Let_def)
    have "2 * (Suc (n div d) * d) = 2 * (n div d * d) + 2 * d" by simp
    moreover have "2 * (n div d * d) + 2 * (n mod d) = 2 * n"
      using n by (metis add_mult_distrib2)
    ultimately have "2 * (Suc (n div d) * d) \<le> 2 * n + d"
      using \<open>d \<le> 2 * (n mod d)\<close> by linarith
    then show ?thesis by (simp only: r)
  qed
qed

lemma round_half_even_lower: "m * d \<le> n \<Longrightarrow> 0 < d \<Longrightarrow> m \<le> round_half_even n d"
proof -
  assume "m * d \<le> n" "0 < d"
  then have "m \<le> n div d" by (simp add: less_eq_div_iff_mult_less_eq)
  then show ?thesis by (auto simp: round_half_even_def Let_def)
qed

lemma round_half_even_1 [simp]: "round_half_even n (Suc 0) = n"
  by (simp add: round_half_even_def Let_def)

text \<open>An unsigned integer converted to \<open>double\<close>.\<close>

definition u64_to_double :: "nat \<Rightarrow> nat" where
  "u64_to_double n = (let s = bit_len n - 53 in round_half_even n (2 ^ s) * 2 ^ s)"

lemma u64_to_double_exact: "n < 2 ^ 53 \<Longrightarrow> u64_to_double n = n"
  by (simp add: u64_to_double_def Let_def bit_len_le)

text \<open>
  The quotient of two positive integral doubles, cut to an integer. The quotient
  \<open>n / d\<close> is scaled by \<open>2 ^ k\<close> so that its integer part keeps at least 53 bits, rounded to
  53 bits there, and scaled back.
\<close>

definition double_div_trunc :: "nat \<Rightarrow> nat \<Rightarrow> nat" where
  "double_div_trunc n d =
     (let k = 53 + bit_len d;
          s = bit_len (n * 2 ^ k div d) - 53
      in round_half_even (n * 2 ^ k) (d * 2 ^ s) * 2 ^ s div 2 ^ k)"

text \<open>
  The rounding never carries the quotient over the next integer, when the quotient has few
  enough bits left for its fraction: the distance of \<open>n / d\<close> to the next integer is at least
  \<open>1 / d\<close>, more than half a unit in the last place.
\<close>

lemma double_div_trunc_exact:
  assumes d: "0 < d" "d < 2 ^ 20" and q: "n div d < 2 ^ 34"
  shows "double_div_trunc n d = n div d"
proof -
  define k where "k = 53 + bit_len d"
  define s where "s = bit_len (n * 2 ^ k div d) - 53"
  define m where "m = round_half_even (n * 2 ^ k) (d * 2 ^ s)"
  define Q where "Q = n div d"
  have n: "Q * d \<le> n" "n + 1 \<le> Suc Q * d"
    using d by (simp_all add: Q_def dividend_less_div_times Suc_leI)
  have "n < Suc Q * d" using n(2) by simp
  also have "\<dots> \<le> 2 ^ 34 * d" using q unfolding Q_def by (intro mult_right_mono) auto
  finally have "n * 2 ^ k < 2 ^ 34 * d * 2 ^ k" by simp
  then have "n * 2 ^ k div d < 2 ^ 34 * 2 ^ k"
    using d by (simp add: div_less_iff_less_mult mult.commute mult.left_commute)
  then have "n * 2 ^ k div d < 2 ^ (34 + k)" by (simp only: power_add)
  then have "bit_len (n * 2 ^ k div d) \<le> 34 + k" by (rule bit_len_le)
  then have sk: "s + 19 \<le> k" by (simp add: s_def k_def)
  then have split: "(2::nat) ^ k = 2 ^ (k - s) * 2 ^ s"
    by (simp only: power_add [symmetric]) simp
  have low: "Q * 2 ^ (k - s) \<le> m"
    unfolding m_def
  proof (rule round_half_even_lower)
    have "Q * 2 ^ (k - s) * (d * 2 ^ s) = Q * d * 2 ^ k" by (simp add: split)
    also have "\<dots> \<le> n * 2 ^ k" using n(1) by (intro mult_right_mono) auto
    finally show "Q * 2 ^ (k - s) * (d * 2 ^ s) \<le> n * 2 ^ k" .
  qed (use d in simp)
  have up: "2 * (m * (d * 2 ^ s)) \<le> 2 * (n * 2 ^ k) + d * 2 ^ s"
    unfolding m_def by (rule round_half_even_upper) (use d in simp)
  have ds: "d * 2 ^ s < 2 * 2 ^ k"
  proof -
    have "d * 2 ^ s < 2 ^ 20 * 2 ^ s" using d by (intro mult_strict_right_mono) auto
    also have "\<dots> = 2 ^ (20 + s)" by (simp only: power_add)
    also have "\<dots> \<le> 2 ^ Suc k" using sk by (intro power_increasing) auto
    finally show ?thesis by simp
  qed
  have "2 * (m * (d * 2 ^ s)) < 2 * ((n + 1) * 2 ^ k)"
    using up ds by (simp add: algebra_simps)
  also have "\<dots> \<le> 2 * (Suc Q * d * 2 ^ k)"
    using n(2) by (intro mult_left_mono mult_right_mono) auto
  finally have "m * 2 ^ s * d < Suc Q * 2 ^ k * d" by (simp only: mult_ac)
  then have high: "m * 2 ^ s < Suc Q * 2 ^ k" by simp
  have "Q * 2 ^ k \<le> m * 2 ^ s" using low by (simp add: split)
  with high have "m * 2 ^ s div 2 ^ k = Q"
    by (intro div_nat_eqI) (simp_all add: mult.commute)
  then show ?thesis
    by (simp add: double_div_trunc_def Let_def m_def s_def k_def Q_def)
qed

section \<open>The conversions of the block conversion plugin\<close>

text \<open>\<open>uint64_t timestamp_s = timestamp_us / 1e6\<close>\<close>

definition us_to_s :: "u64 \<Rightarrow> u64" where
  "us_to_s timestamp_us =
     word_of_nat (double_div_trunc (u64_to_double (unat timestamp_us)) 1000000)"

text \<open>
  \<open>nb.timestamp = header.timestamp * 1e6\<close>, converted to a signed 64-bit integer. The conversion
  is undefined when the product does not fit.
\<close>

definition s_to_us :: "u64 \<Rightarrow> i64 res" where
  "s_to_us timestamp_s =
     (let us = u64_to_double (u64_to_double (unat timestamp_s) * 1000000)
      in if us < 2 ^ 63 then Inr (word_of_nat us)
         else Inl (Undefined_behaviour ''double out of the range of int64_t''))"

lemma us_to_s_exact:
  assumes "unat t < 2 ^ 53"
  shows "us_to_s t = t div 1000000"
proof -
  have "unat t div 1000000 < 2 ^ 34"
    using assms by simp
  then have "double_div_trunc (unat t) 1000000 = unat t div 1000000"
    by (intro double_div_trunc_exact) simp_all
  moreover have "t div 1000000 = word_of_nat (unat t div 1000000)"
    by (simp add: word_arith_nat_div)
  ultimately show ?thesis
    using assms by (simp only: us_to_s_def u64_to_double_exact)
qed

lemma s_to_us_exact:
  assumes "unat t * 1000000 < 2 ^ 53"
  shows "s_to_us t = Inr (t * 1000000)"
proof -
  have "unat t < 2 ^ 53" using assms by simp
  with assms show ?thesis
    by (simp add: s_to_us_def Let_def u64_to_double_exact)
qed

text \<open>Equations that evaluate the exact cases without computing the rounding.\<close>

lemma us_to_s_code [code]:
  "us_to_s t = (if t < 9007199254740992 then t div 1000000
     else word_of_nat (double_div_trunc (u64_to_double (unat t)) 1000000))"
  using us_to_s_exact [of t] by (simp add: us_to_s_def word_less_nat_alt)

lemma s_to_us_code [code]:
  "s_to_us t = (if t < 9007199254 then Inr (t * 1000000)
     else (let us = u64_to_double (u64_to_double (unat t) * 1000000)
           in if us < 2 ^ 63 then Inr (word_of_nat us)
              else Inl (Undefined_behaviour ''double out of the range of int64_t'')))"
  using s_to_us_exact [of t] by (auto simp: s_to_us_def word_less_nat_alt)

text \<open>
  C38: Up to the year 2255 the arithmetic on \<open>double\<close> loses nothing: a time of whole seconds is
  converted to microseconds without overflow, every time of that second is converted back
  to it, and so block numbers are computed from the exact second.
\<close>

theorem seconds_roundtrip:
  assumes "unat t * 1000000 + unat d < 2 ^ 53" "unat d < 1000000"
  shows "s_to_us t = Inr (t * 1000000) \<and> us_to_s (t * 1000000 + d) = t"
proof -
  have "unat (t * 1000000 :: u64) = unat t * 1000000"
    using assms(1) by (subst unat_mult_lem [THEN iffD1]) simp_all
  moreover from this have "unat (t * 1000000 + d) = unat t * 1000000 + unat d"
    using assms(1) by (subst unat_add_lem [THEN iffD1]) simp_all
  ultimately have "unat ((t * 1000000 + d) div 1000000) = unat t"
    using assms(2) by (simp add: unat_div)
  then have "(t * 1000000 + d) div 1000000 = t" by (simp add: word_unat_eq_iff)
  with \<open>unat (t * 1000000 + d) = _\<close> assms(1) s_to_us_exact [of t] us_to_s_exact [of "t * 1000000 + d"]
  show ?thesis by simp
qed

theorem seconds_roundtrip_witness:
  "s_to_us 1700000000 = Inr 1700000000000000 \<and> us_to_s 1700000000500000 = 1700000000"
  using seconds_roundtrip [of 1700000000 500000] by simp

end
