(* ===== verification/Node_Utils.thy ===== *)
theory Node_Utils
  imports Node_Prelude
begin

unbundle bit_operations_syntax

text \<open>
  \<open>src/src/utils.hpp\<close>: the three action names the node reacts to, the hexadecimal form of
  a checksum, and the block number a block id carries in its first four bytes. The encoding
  of names (\<open>eosio::name\<close>) and of hexadecimal text (\<open>silkworm::to_hex\<close>, \<open>from_hex\<close>) belong
  to libraries and are parameters.
\<close>

section \<open>Action names\<close>

type_synonym namer = "string \<Rightarrow> u64"

definition configchange_n :: "namer \<Rightarrow> u64" where
  "configchange_n eosio_name = eosio_name ''configchange''"

definition pushtx_n :: "namer \<Rightarrow> u64" where
  "pushtx_n eosio_name = eosio_name ''pushtx''"

definition evmtx_n :: "namer \<Rightarrow> u64" where
  "evmtx_n eosio_name = eosio_name ''evmtx''"

text \<open>What the code relies on: different texts of at most 13 characters are different names.\<close>

definition names_distinct :: "namer \<Rightarrow> bool" where
  "names_distinct eosio_name \<longleftrightarrow>
     distinct [eosio_name ''configchange'', eosio_name ''pushtx'', eosio_name ''evmtx'']"

lemma names_distinctD:
  assumes "names_distinct nm"
  shows "configchange_n nm \<noteq> pushtx_n nm" "pushtx_n nm \<noteq> configchange_n nm"
    "configchange_n nm \<noteq> evmtx_n nm" "evmtx_n nm \<noteq> configchange_n nm"
    "pushtx_n nm \<noteq> evmtx_n nm" "evmtx_n nm \<noteq> pushtx_n nm"
  using assms by (auto simp: names_distinct_def configchange_n_def pushtx_n_def evmtx_n_def)

section \<open>Checksums as text\<close>

definition checksum_to_string :: "(bytes \<Rightarrow> bool \<Rightarrow> string) \<Rightarrow> bytes32 \<Rightarrow> string" where
  "checksum_to_string to_hex cs = to_hex cs False"

definition checksum256_from_string :: "(string \<Rightarrow> bytes option) \<Rightarrow> string \<Rightarrow> bytes32 res" where
  "checksum256_from_string from_hex s =
     (case from_hex s of
        Some bs \<Rightarrow>
          if length bs = 32 then Inr bs
          else Inl (Runtime_error (''Unable to convert to checksum256: '' @ s))
      | None \<Rightarrow> Inl (Runtime_error (''Unable to convert to checksum256: '' @ s)))"

text \<open>What the library documents: \<open>from_hex\<close> reads back what \<open>to_hex\<close> writes.\<close>

definition hex_inverse :: "(bytes \<Rightarrow> bool \<Rightarrow> string) \<Rightarrow> (string \<Rightarrow> bytes option) \<Rightarrow> bool" where
  "hex_inverse to_hex from_hex \<longleftrightarrow> (\<forall>bs. from_hex (to_hex bs False) = Some bs)"

section \<open>Block numbers in block ids\<close>

definition endian_reverse_u32 :: "u32 \<Rightarrow> u32" where
  "endian_reverse_u32 x =
     (drop_bit 0x18 x AND 0xFF)
     OR push_bit 0x08 (drop_bit 0x10 x AND 0xFF)
     OR push_bit 0x10 (drop_bit 0x08 x AND 0xFF)
     OR push_bit 0x18 (x AND 0xFF)"

text \<open>
  Reading the first four bytes of an array through a \<open>uint32_t\<close> pointer, on the little-endian
  machines the node is built for. The array has 32 bytes; a shorter list is not a value of
  the source's type.
\<close>

definition pack_u32 :: "u8 \<Rightarrow> u8 \<Rightarrow> u8 \<Rightarrow> u8 \<Rightarrow> u32" where
  "pack_u32 b0 b1 b2 b3 =
     ucast b0 OR push_bit 8 (ucast b1) OR push_bit 16 (ucast b2) OR push_bit 24 (ucast b3)"

definition read_u32 :: "bytes32 \<Rightarrow> u32" where
  "read_u32 bs =
     (case bs of b0 # b1 # b2 # b3 # _ \<Rightarrow> pack_u32 b0 b1 b2 b3 | _ \<Rightarrow> 0)"

definition to_block_num :: "bytes32 \<Rightarrow> u32" where
  "to_block_num b = endian_reverse_u32 (read_u32 b)"

text \<open>The overload on \<open>eosio::checksum256\<close> reads the checksum's byte array the same way.\<close>

definition extract_as_byte_array :: "bytes32 \<Rightarrow> bytes32" where
  "extract_as_byte_array cs = cs"

definition to_block_num_checksum :: "bytes32 \<Rightarrow> u32" where
  "to_block_num_checksum cs = endian_reverse_u32 (read_u32 (extract_as_byte_array cs))"

text \<open>The reference: the big-endian number in the first four bytes.\<close>

definition big_endian_u32 :: "bytes \<Rightarrow> nat" where
  "big_endian_u32 bs = foldl (\<lambda>acc b. acc * 256 + unat b) 0 (take 4 bs)"

lemma endian_reverse_take_bit:
  "endian_reverse_u32 x =
     take_bit 8 (drop_bit 24 x) OR push_bit 8 (take_bit 8 (drop_bit 16 x))
     OR push_bit 16 (take_bit 8 (drop_bit 8 x)) OR push_bit 24 (take_bit 8 x)"
proof -
  have "(0xFF::u32) = mask 8" by (simp add: mask_eq_exp_minus_1)
  then show ?thesis by (simp only: endian_reverse_u32_def flip: take_bit_eq_mask)
qed

lemma byte_lanes:
  assumes "n < (32::nat)"
  obtains "n < 8" | "8 \<le> n" "n < 16" | "16 \<le> n" "n < 24" | "24 \<le> n" "n < 32"
  using assms by (metis not_less)

lemma bit_endian_reverse:
  "bit (endian_reverse_u32 x) n \<longleftrightarrow>
     n < 32 \<and> bit x (if n < 8 then n + 24 else if n < 16 then n + 8
                      else if n < 24 then n - 8 else n - 24)"
proof (cases "n < 32")
  case True
  then show ?thesis
    unfolding endian_reverse_take_bit
    by (cases rule: byte_lanes) (auto simp: bit_or_iff bit_take_bit_iff bit_push_bit_iff bit_drop_bit_eq add.commute)
next
  case False
  then show ?thesis by (auto dest: bit_imp_le_length)
qed

lemma endian_reverse_involutive: "endian_reverse_u32 (endian_reverse_u32 x) = x"
proof (rule bit_word_eqI)
  fix n assume "n < LENGTH(32)"
  then have "n < 32" by simp
  then show "bit (endian_reverse_u32 (endian_reverse_u32 x)) n = bit x n"
    by (cases rule: byte_lanes) (auto simp: bit_endian_reverse)
qed

lemma bit_u8_out: "8 \<le> m \<Longrightarrow> \<not> bit (b :: u8) m"
  using bit_imp_le_length [of b m] by auto

lemma bit_pack_u32:
  "n < 32 \<Longrightarrow>
   bit (pack_u32 b0 b1 b2 b3) n \<longleftrightarrow>
     (if n < 8 then bit b0 n else if n < 16 then bit b1 (n - 8)
      else if n < 24 then bit b2 (n - 16) else bit b3 (n - 24))"
  unfolding pack_u32_def
  by (erule byte_lanes)
    (simp_all add: bit_or_iff bit_push_bit_iff bit_ucast_iff bit_u8_out not_less less_imp_diff_less)

lemma to_block_num_bytes: "to_block_num (b0 # b1 # b2 # b3 # r) = pack_u32 b3 b2 b1 b0"
proof (rule bit_word_eqI)
  fix n assume "n < LENGTH(32)"
  then have "n < 32" by simp
  then show "bit (to_block_num (b0 # b1 # b2 # b3 # r)) n = bit (pack_u32 b3 b2 b1 b0) n"
    unfolding to_block_num_def read_u32_def list.case
    by (cases rule: byte_lanes) (auto simp: bit_endian_reverse bit_pack_u32)
qed

lemma unat_ucast_8_32 [simp]: "unat (ucast (b :: u8) :: u32) = unat b"
proof -
  have "unat b < 2 ^ 8" by (rule order_less_le_trans [OF unsigned_less]) simp
  then show ?thesis by (simp add: unsigned_ucast_eq take_bit_nat_eq_self_iff)
qed

lemma horner:
  fixes a :: u32 and b :: u8
  assumes "unat a < 2 ^ 24"
  shows "unat (push_bit 8 a OR ucast b) = unat a * 256 + unat b"
proof -
  have b: "unat (ucast b :: u32) = unat b" by simp
  have "push_bit 8 a AND ucast b = 0"
    by (rule bit_word_eqI) (auto simp: bit_simps dest: bit_imp_le_length)
  then have "push_bit 8 a OR ucast b = push_bit 8 a + ucast b"
    by (simp add: disjunctive_add_eq_or)
  moreover have "unat b < 256" using unsigned_less [of b] by simp
  moreover have "push_bit 8 a = a * 256" by (simp add: push_bit_eq_mult)
  ultimately show ?thesis using assms b
    by (simp add: unat_word_ariths)
qed

lemma to_block_num_horner:
  "to_block_num (b0 # b1 # b2 # b3 # r) =
     push_bit 8 (push_bit 8 (push_bit 8 (ucast b0) OR ucast b1) OR ucast b2) OR ucast b3"
  by (simp add: to_block_num_bytes pack_u32_def push_bit_or ac_simps)

lemma to_block_num_big_endian: "unat (to_block_num (b0 # b1 # b2 # b3 # r)) = big_endian_u32 (b0 # b1 # b2 # b3 # r)"
proof -
  have bnd: "unat b < 256" for b :: u8 by (rule order_less_le_trans [OF unsigned_less]) simp
  define w1 :: u32 where "w1 = push_bit 8 (ucast b0) OR ucast b1"
  define w2 where "w2 = push_bit 8 w1 OR ucast b2"
  have "unat w1 = unat b0 * 256 + unat b1"
    unfolding w1_def using bnd [of b0] by (subst horner) simp_all
  moreover from this have "unat w2 = unat w1 * 256 + unat b2"
    unfolding w2_def using bnd [of b0] bnd [of b1] by (subst horner) simp_all
  moreover from calculation have "unat (push_bit 8 w2 OR ucast b3) = unat w2 * 256 + unat b3"
    using bnd [of b0] bnd [of b1] bnd [of b2] by (subst horner) simp_all
  ultimately show ?thesis
    by (simp only: to_block_num_horner big_endian_u32_def flip: w1_def w2_def) simp
qed
lemma to_block_num_checksum_eq: "to_block_num_checksum cs = to_block_num cs"
  by (simp add: to_block_num_checksum_def to_block_num_def extract_as_byte_array_def)

lemma bytes32_cases:
  assumes "length (bs :: bytes32) = 32"
  obtains b0 b1 b2 b3 r where "bs = b0 # b1 # b2 # b3 # r"
  using assms by (auto simp: numeral_eq_Suc length_Suc_conv)

section \<open>Properties\<close>

text \<open>Reversing the bytes of a 32-bit word twice gives the word back.\<close>

theorem endian_reverse_roundtrip: "endian_reverse_u32 (endian_reverse_u32 x) = x"
  by (rule endian_reverse_involutive)

text \<open>
  C39: The block number of a block id is the big-endian number in its first four bytes, for
  both overloads, although the code reads them in machine order and swaps them.
\<close>

theorem block_num_is_big_endian:
  assumes "length bid = 32"
  shows "unat (to_block_num bid) = big_endian_u32 bid \<and> to_block_num_checksum bid = to_block_num bid"
proof -
  obtain b0 b1 b2 b3 r where "bid = b0 # b1 # b2 # b3 # r" using assms by (rule bytes32_cases)
  then show ?thesis by (simp add: to_block_num_big_endian to_block_num_checksum_eq)
qed

theorem block_num_is_big_endian_witness:
  "unat (to_block_num ([1, 2, 3, 4] @ replicate 28 0)) = 0x01020304"
proof -
  have "length ([1, 2, 3, 4] @ replicate 28 0 :: bytes32) = 32" by simp
  from block_num_is_big_endian [OF this] show ?thesis by (simp add: big_endian_u32_def)
qed

text \<open>
  C40: A checksum is read from a text exactly when the library reads the text as 32 bytes, and it is
  these bytes; any other text, hexadecimal or not, is refused with an exception that names it. So
  a checksum written as text is read back, and different checksums have different texts.
\<close>

theorem checksum_text_roundtrip:
  assumes "hex_inverse to_hex from_hex"
  shows "(checksum256_from_string from_hex s = Inr cs \<longleftrightarrow> from_hex s = Some cs \<and> length cs = 32) \<and>
    ((\<forall>bs. from_hex s = Some bs \<longrightarrow> length bs \<noteq> 32) \<longrightarrow> checksum256_from_string from_hex s =
       Inl (Runtime_error (''Unable to convert to checksum256: '' @ s))) \<and>
    (length cs = 32 \<longrightarrow> checksum256_from_string from_hex (checksum_to_string to_hex cs) = Inr cs) \<and>
    (checksum_to_string to_hex cs = checksum_to_string to_hex cs' \<longrightarrow> cs = cs')"
proof -
  have "cs = cs'" if "to_hex cs False = to_hex cs' False"
    using assms that unfolding hex_inverse_def by (metis option.inject)
  moreover have "from_hex (to_hex cs False) = Some cs" using assms by (simp add: hex_inverse_def)
  ultimately show ?thesis
    by (auto simp: checksum256_from_string_def checksum_to_string_def split: option.splits)
qed

text \<open>An instance of the two library functions, digits written one character per nibble.\<close>

definition nibble_char :: "u8 \<Rightarrow> char" where
  "nibble_char n = char_of (unat n + (if n < 10 then 48 else 87))"

definition char_nibble :: "char \<Rightarrow> u8 option" where
  "char_nibble c =
     (let k = of_char c :: nat in
      if 48 \<le> k \<and> k < 58 then Some (word_of_nat (k - 48))
      else if 97 \<le> k \<and> k < 103 then Some (word_of_nat (k - 87)) else None)"

fun hex_of_bytes :: "bytes \<Rightarrow> bool \<Rightarrow> string" where
  "hex_of_bytes [] p = []"
| "hex_of_bytes (b # bs) p = nibble_char (b div 16) # nibble_char (b mod 16) # hex_of_bytes bs p"

fun bytes_of_hex :: "string \<Rightarrow> bytes option" where
  "bytes_of_hex [] = Some []"
| "bytes_of_hex [c] = None"
| "bytes_of_hex (c # d # cs) =
     (case (char_nibble c, char_nibble d, bytes_of_hex cs) of
        (Some h, Some l, Some bs) \<Rightarrow> Some ((h * 16 + l) # bs)
      | _ \<Rightarrow> None)"

lemma char_nibble_char: "unat n < 16 \<Longrightarrow> char_nibble (nibble_char n) = Some n"
  by (auto simp: char_nibble_def nibble_char_def Let_def word_less_nat_alt)

lemma hex_inverse_instance: "hex_inverse hex_of_bytes bytes_of_hex"
  unfolding hex_inverse_def
proof
  fix bs
  have "unat b < 2 ^ 8" for b :: u8
    by (rule order_less_le_trans [OF unsigned_less]) simp
  then have h: "unat (b div 16) < 16" "unat (b mod 16) < 16" for b :: u8
    by (simp_all add: unat_div unat_mod div_less_iff_less_mult)
  have r: "b div 16 * 16 + b mod 16 = b" for b :: u8
    by (simp add: word_mod_div_equality)
  show "bytes_of_hex (hex_of_bytes bs False) = Some bs"
    by (induction bs) (simp_all add: char_nibble_char h r)
qed

theorem checksum_text_roundtrip_witness:
  "checksum256_from_string bytes_of_hex (checksum_to_string hex_of_bytes (replicate 32 0xAB)) =
     Inr (replicate 32 0xAB) \<and>
   checksum256_from_string bytes_of_hex ''no hex'' = Inl (Runtime_error ''Unable to convert to checksum256: no hex'')"
proof -
  have "bytes_of_hex ''no hex'' = None" by code_simp
  with checksum_text_roundtrip [OF hex_inverse_instance, of "''no hex''" "replicate 32 0xAB"] show ?thesis by simp
qed

end
