(* ===== verification/Node_Channels.thy ===== *)
theory Node_Channels
  imports Node_Utils
begin

text \<open>
  \<open>src/src/channels.hpp\<close> and the static part of \<open>src/src/sys_plugin.hpp\<close>: the messages the
  plugins exchange, the dispatch policy of their channels, and the request to quit.
\<close>

section \<open>Messages\<close>

record native_action =
  na_ordinal :: u32
  na_receiver :: u64
  na_account :: u64
  na_name :: u64
  na_data :: bytes

record native_trx =
  nt_id :: bytes32
  nt_cpu_usage_us :: u32
  nt_elapsed :: i64
  nt_actions :: "native_action list"

definition new_native_trx :: "bytes32 \<Rightarrow> u32 \<Rightarrow> i64 \<Rightarrow> native_trx" where
  "new_native_trx tid cpu elapsed =
     \<lparr>nt_id = tid, nt_cpu_usage_us = cpu, nt_elapsed = elapsed, nt_actions = []\<rparr>"

record native_block =
  nb_id :: bytes32
  nb_prev :: bytes32
  nb_block_num :: u32
  nb_timestamp :: i64
  nb_lib :: u32
  nb_new_config :: "native_action option"
  nb_transactions :: "native_trx list"

text \<open>
  A default-constructed block. The default value of a checksum is the library's, hence the
  argument.
\<close>

definition default_native_block :: "bytes32 \<Rightarrow> native_block" where
  "default_native_block default_checksum =
     \<lparr>nb_id = default_checksum, nb_prev = default_checksum, nb_block_num = 0, nb_timestamp = 0,
      nb_lib = 0, nb_new_config = None, nb_transactions = []\<rparr>"

section \<open>The application and its channels\<close>

text \<open>\<open>sys_plugin::error\<close> logs its message and asks the application to quit.\<close>

record app =
  app_quitting :: bool

definition sys_error :: "string \<Rightarrow> app \<Rightarrow> app" where
  "sys_error msg a = a\<lparr>app_quitting := True\<rparr>"

lemma sys_error_quits [simp]: "app_quitting (sys_error msg a)"
  by (simp add: sys_error_def)

text \<open>
  What a \<open>catch (...)\<close> sees: exceptions, and neither an abort nor undefined behaviour.
\<close>

definition catchable :: "err \<Rightarrow> bool" where
  "catchable e =
     (case e of Assertion_failed \<Rightarrow> False | Undefined_behaviour _ \<Rightarrow> False | _ \<Rightarrow> True)"

lemma catchable_simps [simp]:
  "catchable (Runtime_error s)" "catchable Bad_optional_access" "catchable Bad_variant_access"
  "catchable (External_exception s)"
  "\<not> catchable Assertion_failed" "\<not> catchable (Undefined_behaviour s)"
  by (simp_all add: catchable_def)

text \<open>
  \<open>exit_on_exceptions\<close>: a channel runs its subscribers one after the other. A subscriber
  changes the state it shares with the others and may throw; the policy then asks the
  application to quit and goes on with the next one.
\<close>

type_synonym 's slot = "'s \<Rightarrow> 's \<times> err option"

fun exit_on_exceptions :: "'s slot list \<Rightarrow> 's \<Rightarrow> app \<Rightarrow> ('s \<times> app) res" where
  "exit_on_exceptions [] s a = Inr (s, a)"
| "exit_on_exceptions (f # fs) s a =
     (case f s of
        (s', None) \<Rightarrow> exit_on_exceptions fs s' a
      | (s', Some e) \<Rightarrow>
          if catchable e then exit_on_exceptions fs s' (a\<lparr>app_quitting := True\<rparr>) else Inl e)"

text \<open>Which subscribers throw when they run in order.\<close>

fun slot_errors :: "'s slot list \<Rightarrow> 's \<Rightarrow> err list" where
  "slot_errors [] s = []"
| "slot_errors (f # fs) s =
     (case f s of (s', None) \<Rightarrow> slot_errors fs s' | (s', Some e) \<Rightarrow> e # slot_errors fs s')"

text \<open>
  C30: A channel runs every subscriber once and in order, also after one of them has thrown,
  and the application quits afterwards exactly if it was quitting before or a subscriber threw.
\<close>

theorem dispatch_runs_all_and_quits:
  assumes "\<forall>e \<in> set (slot_errors fs s). catchable e"
  shows "exit_on_exceptions fs s a =
    Inr (fold (\<lambda>f t. fst (f t)) fs s,
         a\<lparr>app_quitting := app_quitting a \<or> slot_errors fs s \<noteq> []\<rparr>)"
  using assms
  by (induction fs s a rule: exit_on_exceptions.induct) (auto split: prod.splits option.splits)

theorem dispatch_runs_all_and_quits_witness:
  "exit_on_exceptions
     [\<lambda>n. (n + 1, None), \<lambda>n. (n + 10, Some Bad_optional_access), \<lambda>n. (n + 100, None)]
     (0::nat) \<lparr>app_quitting = False\<rparr> = Inr (111, \<lparr>app_quitting = True\<rparr>)"
proof -
  have "\<forall>e \<in> set (slot_errors
     [\<lambda>n. (n + 1, None), \<lambda>n. (n + 10, Some Bad_optional_access), \<lambda>n. (n + 100, None)] (0::nat)).
     catchable e" by simp
  from dispatch_runs_all_and_quits [OF this, of "\<lparr>app_quitting = False\<rparr>"]
  show ?thesis by simp
qed

end
