(* ===== verification/Chain_Types.thy ===== *)
theory Chain_Types
  imports Double_Conversions Node_Channels
begin

text \<open>
  The blockchain data the plugins exchange with the libraries: the fields of EVM headers and
  blocks the node reads or writes, the view of the chain database it queries, and the
  library functions it calls, gathered in one record of parameters. Nothing here is given a
  behaviour: what the code relies on is stated by the predicates at the end.
\<close>

section \<open>EVM blocks\<close>

text \<open>
  Header fields the node never touches after the library has filled them in (beneficiary,
  gas limit and so on) are kept together in \<open>hd_rest\<close>.
\<close>

record header =
  hd_number :: u64
  hd_timestamp :: u64
  hd_nonce :: bytes
  hd_parent_hash :: bytes32
  hd_transactions_root :: bytes32
  hd_prev_randao :: bytes32
  hd_base_fee_per_gas :: "u256 option"
  hd_rest :: bytes

record gas_prices =
  overhead_price :: u64
  storage_price :: u64

text \<open>
  A block. The accessor pairs \<open>get_\<close>/\<open>set_consensus_parameter_index\<close> and
  \<open>get_\<close>/\<open>set_gas_prices\<close> are fields here.
\<close>

record 'tx block =
  blk_header :: header
  blk_transactions :: "'tx list"
  blk_irreversible :: bool
  blk_consensus_parameter_index :: "bytes32 option"
  blk_gas_prices :: "gas_prices option"

abbreviation blk_number :: "'tx block \<Rightarrow> u64" where
  "blk_number b \<equiv> hd_number (blk_header b)"

record gas_fee_parameters =
  gf_txnewaccount :: u64
  gf_newaccount :: u64
  gf_txcreate :: u64
  gf_codedeposit :: u64
  gf_sset :: u64

text \<open>\<open>eosevm::block_mapping\<close>, made from a genesis time and an interval in seconds.\<close>

record block_mapping =
  genesis_timestamp :: u64
  block_interval :: u32

section \<open>The chain database\<close>

record chain_config =
  cc_version :: "u64 option"
  cc_chain_id :: u64

text \<open>What a read transaction sees.\<close>

record 'tx chaindata =
  db_canonical_header :: "u64 \<Rightarrow> header option"
  db_block_by_number :: "u64 \<Rightarrow> 'tx block option"
  db_headers_progress :: u64
  db_lib_processed :: "u64 option"
  db_chain_config :: "chain_config option"
  db_genesis_hash :: "bytes32 option"

section \<open>Payloads of the contract's actions\<close>

text \<open>The structures of \<open>src/src/block_conversion_plugin.hpp\<close>.\<close>

record pushtx =
  px_miner :: u64
  px_rlpx :: bytes

record evmtx_base =
  eos_evm_version :: u64
  rlpx :: bytes

record evmtx_v1 = evmtx_base +
  v1_base_fee_per_gas :: u64

record evmtx_v3 = evmtx_base +
  v3_overhead_price :: u64
  v3_storage_price :: u64

datatype evmtx_type = Evmtx_v1 evmtx_v1 | Evmtx_v3 evmtx_v3

record gas_parameter_type =
  gas_txnewaccount :: u64
  gas_newaccount :: u64
  gas_txcreate :: u64
  gas_codedeposit :: u64
  gas_sset :: u64

definition default_gas_parameter :: gas_parameter_type where
  "default_gas_parameter =
     \<lparr>gas_txnewaccount = 0, gas_newaccount = 25000, gas_txcreate = 32000,
      gas_codedeposit = 200, gas_sset = 20000\<rparr>"

record consensus_parameter_data_v0 =
  gas_parameter :: gas_parameter_type

datatype consensus_parameter_data_type = Consensus_parameter_v0 consensus_parameter_data_v0

text \<open>The two reads through \<open>std::visit\<close>.\<close>

fun dtx_rlpx :: "evmtx_type \<Rightarrow> bytes" where
  "dtx_rlpx (Evmtx_v1 t) = rlpx t"
| "dtx_rlpx (Evmtx_v3 t) = rlpx t"

fun dtx_version :: "evmtx_type \<Rightarrow> u64" where
  "dtx_version (Evmtx_v1 t) = eos_evm_version t"
| "dtx_version (Evmtx_v3 t) = eos_evm_version t"

section \<open>Library functions\<close>

record 'tx lib =
  lib_eosio_name :: namer
  lib_keccak256 :: "bytes \<Rightarrow> bytes32"
  lib_header_hash :: "header \<Rightarrow> bytes32"
  lib_root_hash :: "'tx list \<Rightarrow> bytes32"
  lib_empty_root :: bytes32
  lib_rlp_encode :: "'tx \<Rightarrow> bytes"
  lib_rlp_decode :: "bytes \<Rightarrow> 'tx option"
  lib_nonce_to_version :: "bytes \<Rightarrow> u64"
  lib_version_to_nonce :: "u64 \<Rightarrow> bytes"
  lib_load_big_u64 :: "bytes \<Rightarrow> u64"
  lib_default_block :: "'tx block"
  lib_default_checksum :: bytes32
  lib_prepare_block_header ::
    "header \<Rightarrow> block_mapping \<Rightarrow> u64 \<Rightarrow> u64 \<Rightarrow> u64 \<Rightarrow> u64 option \<Rightarrow> header"
  lib_evm_block_num :: "block_mapping \<Rightarrow> u64 \<Rightarrow> u32"
  lib_calculate_base_fee :: "u64 \<Rightarrow> u64 \<Rightarrow> u64"
  lib_consensus_hash :: "gas_fee_parameters \<Rightarrow> bytes32"
  lib_pushtx_from_bin :: "bytes \<Rightarrow> pushtx res"
  lib_evmtx_from_bin :: "bytes \<Rightarrow> evmtx_type res"
  lib_config_from_bin :: "bytes \<Rightarrow> consensus_parameter_data_type res"
  lib_ndebug :: bool

text \<open>
  What the block conversion relies on. \<open>prepare_block_header\<close> stores the number, the version
  (as nonce) and the base fee it is given; a default block holds no transactions.
\<close>

definition header_prepared :: "'tx lib \<Rightarrow> bool" where
  "header_prepared L \<longleftrightarrow>
     (\<forall>h m c n v f. hd_number (lib_prepare_block_header L h m c n v f) = n)"

definition default_block_empty :: "'tx lib \<Rightarrow> bool" where
  "default_block_empty L \<longleftrightarrow> blk_transactions (lib_default_block L) = []"

text \<open>A version stored in a nonce can be read back.\<close>

definition version_roundtrip :: "'tx lib \<Rightarrow> bool" where
  "version_roundtrip L \<longleftrightarrow> (\<forall>v. lib_nonce_to_version L (lib_version_to_nonce L v) = v)"

end
