(* ===== verification/Engine.thy ===== *)
theory Engine
  imports Chain_Types
begin

text \<open>
  \<open>src/src/engine_plugin.cpp\<close>: the start of the chain database and its servers, and the
  queries by which the other plugins find the EVM block to start from.
\<close>

section \<open>Construction, startup and shutdown\<close>

text \<open>
  What the constructor meets outside the program: whether the data path exists, the database
  that opening the environment gives, the genesis file, and what the initialisation of the
  genesis does to the database.
\<close>

record 'tx engine_world =
  ew_data_path_exists :: bool
  ew_open_env :: "bool \<Rightarrow> 'tx chaindata res"
  ew_regular_file :: "string \<Rightarrow> bool"
  ew_initialize_genesis :: "'tx chaindata \<Rightarrow> string \<Rightarrow> 'tx chaindata res"

record engine_options =
  eo_threads :: u32
  eo_max_readers :: u32
  eo_address :: string
  eo_genesis_json :: "string option"

text \<open>
  The plugin's state. The back end (\<open>eth\<close>) and the server are pointers that are set together at
  the end of the constructor; \<open>en_servers\<close> says whether they are.
\<close>

record 'tx engine =
  en_db :: "'tx chaindata"
  en_create :: bool
  en_max_readers :: u32
  en_threads :: u32
  en_address :: string
  en_network_id :: "u64 option"
  en_genesis_hash :: "bytes32 option"
  en_servers :: bool

definition engine_unfinished ::
  "engine_options \<Rightarrow> bool \<Rightarrow> 'tx chaindata \<Rightarrow> 'tx engine" where
  "engine_unfinished opts create db =
     \<lparr>en_db = db, en_create = create, en_max_readers = eo_max_readers opts,
      en_threads = eo_threads opts, en_address = eo_address opts,
      en_network_id = None, en_genesis_hash = None, en_servers = False\<rparr>"

definition engine_finish :: "'tx engine \<Rightarrow> 'tx chaindata \<Rightarrow> 'tx engine res" where
  "engine_finish e db =
     rbind (deref ''chain_config'' (db_chain_config db)) (\<lambda>cc.
       case db_genesis_hash db of
         None \<Rightarrow> Inl (Runtime_error ''Could not load genesis hash'')
       | Some h \<Rightarrow> Inr (e\<lparr>en_db := db, en_network_id := Some (cc_chain_id cc),
                          en_genesis_hash := Some h, en_servers := True\<rparr>))"

definition engine_construct ::
  "'tx engine_world \<Rightarrow> engine_options \<Rightarrow> app \<Rightarrow> ('tx engine \<times> app) res" where
  "engine_construct w opts a =
     (let create = (\<not> ew_data_path_exists w) in
      rbind (ew_open_env w create) (\<lambda>db.
        let e = engine_unfinished opts create db in
        case db_chain_config db of
          None \<Rightarrow>
            (case eo_genesis_json opts of
               None \<Rightarrow> Inr (e, sys_error ''Genesis state not provided'' a)
             | Some genesis_file \<Rightarrow>
                 if \<not> ew_regular_file w genesis_file
                 then Inr (e, sys_error ''Specified genesis file does not exist'' a)
                 else rbind (ew_initialize_genesis w db genesis_file) (\<lambda>db'.
                        rbind (engine_finish e db') (\<lambda>e'. Inr (e', a))))
        | Some _ \<Rightarrow> rbind (engine_finish e db) (\<lambda>e'. Inr (e', a))))"

text \<open>Both dereference the server pointer.\<close>

definition engine_startup :: "'tx engine \<Rightarrow> unit res" where
  "engine_startup e =
     (if en_servers e then Inr () else Inl (Undefined_behaviour ''server is null''))"

definition engine_shutdown :: "'tx engine \<Rightarrow> unit res" where
  "engine_shutdown e =
     (if en_servers e then Inr () else Inl (Undefined_behaviour ''server is null''))"

section \<open>Queries\<close>

definition get_head_canonical_header :: "'tx chaindata \<Rightarrow> header option" where
  "get_head_canonical_header db = db_canonical_header db (db_headers_progress db)"

definition get_stored_evm_lib :: "'tx chaindata \<Rightarrow> u64 option" where
  "get_stored_evm_lib db = db_lib_processed db"

definition get_genesis_header :: "'tx chaindata \<Rightarrow> header option" where
  "get_genesis_header db = db_canonical_header db 0"

definition get_chain_config :: "'tx chaindata \<Rightarrow> chain_config option" where
  "get_chain_config db = db_chain_config db"

definition is_zero :: "bytes32 \<Rightarrow> bool" where
  "is_zero bs = list_all (\<lambda>b. b = 0) bs"

text \<open>The test that ends the search: a header was read and it carries a block id.\<close>

definition has_eos_id :: "header option \<Rightarrow> bool" where
  "has_eos_id res = (case res of None \<Rightarrow> False | Some h \<Rightarrow> \<not> is_zero (hd_prev_randao h))"

text \<open>
  The \<open>do\<close> loop: the height is compared with 0 before it is decremented, so the last header
  read is the one at height 0.
\<close>

function find_block_with_valid_eos_id :: "'tx chaindata \<Rightarrow> u64 \<Rightarrow> header option" where
  "find_block_with_valid_eos_id db start_height =
     (let res = db_canonical_header db start_height in
      if has_eos_id res then res
      else if start_height > 0 then find_block_with_valid_eos_id db (start_height - 1)
      else res)"
  by pat_completeness auto
termination
  by (relation "measure (\<lambda>(db, h). unat h)")
    (auto simp: unat_minus_one word_gt_0 unat_gt_0)

declare find_block_with_valid_eos_id.simps [simp del]

text \<open>The height the search starts from.\<close>

definition canonical_target :: "'tx chaindata \<Rightarrow> u64 option \<Rightarrow> u64 option" where
  "canonical_target db height =
     (case height of
        Some h \<Rightarrow> Some h
      | None \<Rightarrow>
          (case (get_stored_evm_lib db, get_head_canonical_header db) of
             (Some evm_lib, Some h) \<Rightarrow> Some (if evm_lib > hd_number h then hd_number h else evm_lib)
           | (Some evm_lib, None) \<Rightarrow> Some evm_lib
           | (None, Some h) \<Rightarrow> Some (hd_number h)
           | (None, None) \<Rightarrow> None))"

definition get_canonical_block_at_height ::
  "'tx chaindata \<Rightarrow> u64 option \<Rightarrow> 'tx block option" where
  "get_canonical_block_at_height db height =
     (case canonical_target db height of
        None \<Rightarrow> None
      | Some target \<Rightarrow>
          (case find_block_with_valid_eos_id db target of
             None \<Rightarrow> None
           | Some new_header \<Rightarrow> db_block_by_number db (hd_number new_header)))"

section \<open>What the search finds\<close>

lemma has_eos_id_None [simp]: "\<not> has_eos_id None"
  by (simp add: has_eos_id_def)

lemma le_minus_one_iff: "k \<le> n \<longleftrightarrow> k = n \<or> k \<le> n - 1" if "0 < n" for k n :: u64
proof -
  have "unat (n - 1) = unat n - 1" "0 < unat n"
    using that by (simp_all add: unat_minus_one word_gt_0 unat_gt_0)
  then show ?thesis unfolding word_le_nat_alt word_unat_eq_iff by linarith
qed

text \<open>The result is the header of the highest height that carries an id, or the genesis header.\<close>

lemma find_block_spec:
  "(\<exists>k \<le> h. find_block_with_valid_eos_id db h = db_canonical_header db k \<and>
      has_eos_id (db_canonical_header db k) \<and>
      (\<forall>j \<le> h. k < j \<longrightarrow> \<not> has_eos_id (db_canonical_header db j)))
   \<or> (find_block_with_valid_eos_id db h = db_canonical_header db 0 \<and>
      (\<forall>j \<le> h. \<not> has_eos_id (db_canonical_header db j)))"
proof (induction db h rule: find_block_with_valid_eos_id.induct)
  case (1 db h)
  note unfold = find_block_with_valid_eos_id.simps [of db h]
  consider (found) "has_eos_id (db_canonical_header db h)"
    | (down) "\<not> has_eos_id (db_canonical_header db h)" "0 < h"
    | (bottom) "\<not> has_eos_id (db_canonical_header db h)" "h = 0"
    by (auto simp: word_gt_0)
  then show ?case
  proof cases
    case found
    then show ?thesis by (auto simp: unfold intro!: exI [of _ h])
  next
    case down
    have eq: "find_block_with_valid_eos_id db h = find_block_with_valid_eos_id db (h - 1)"
      using down by (simp add: unfold)
    have iff: "j \<le> h \<longleftrightarrow> j = h \<or> j \<le> h - 1" for j
      by (rule le_minus_one_iff [OF down(2)])
    have ext: "(\<forall>j \<le> h. P j \<longrightarrow> \<not> has_eos_id (db_canonical_header db j)) \<longleftrightarrow>
        (\<forall>j \<le> h - 1. P j \<longrightarrow> \<not> has_eos_id (db_canonical_header db j))" for P
      using down(1) by (auto simp: iff)
    have ext0: "(\<forall>j \<le> h. \<not> has_eos_id (db_canonical_header db j)) \<longleftrightarrow>
        (\<forall>j \<le> h - 1. \<not> has_eos_id (db_canonical_header db j))"
      using down(1) by (auto simp: iff)
    show ?thesis
      using "1.IH" [OF refl down] iff unfolding eq ext ext0 by metis
  next
    case bottom
    then show ?thesis by (simp add: find_block_with_valid_eos_id.simps [of db 0])
  qed
qed

text \<open>
  C28: The search for a starting block returns the canonical header of the greatest height at
  or below the given one that carries a native block id, if there is one.
\<close>

theorem find_block_greatest:
  assumes "k \<le> h" "has_eos_id (db_canonical_header db k)"
  shows "\<exists>m \<le> h. k \<le> m \<and> has_eos_id (db_canonical_header db m) \<and>
    find_block_with_valid_eos_id db h = db_canonical_header db m \<and>
    (\<forall>j \<le> h. m < j \<longrightarrow> \<not> has_eos_id (db_canonical_header db j))"
  using find_block_spec [of h db] assms by (metis not_le)

text \<open>
  When no canonical header up to the height carries an id, the search still returns the
  header at height 0, with its zero id: the caller is not protected from it.
\<close>

theorem find_block_falls_back_to_genesis:
  assumes "\<forall>j \<le> h. \<not> has_eos_id (db_canonical_header db j)"
  shows "find_block_with_valid_eos_id db h = db_canonical_header db 0"
  using find_block_spec [of h db] assms by blast

text \<open>A database with four headers, of which the last two carry no native block id.\<close>

definition sample_header :: "u64 \<Rightarrow> bytes32 \<Rightarrow> header" where
  "sample_header n randao =
     \<lparr>hd_number = n, hd_timestamp = 1000 + n, hd_nonce = replicate 8 0,
      hd_parent_hash = replicate 32 0, hd_transactions_root = replicate 32 0,
      hd_prev_randao = randao, hd_base_fee_per_gas = None, hd_rest = []\<rparr>"

definition sample_randao :: "u64 \<Rightarrow> bytes32" where
  "sample_randao n = (if n < 2 then [0, 0, 0, 7] @ replicate 28 (ucast n) else replicate 32 0)"

definition sample_db :: "unit chaindata" where
  "sample_db =
     \<lparr>db_canonical_header =
        (\<lambda>n. if n < 4 then Some (sample_header n (sample_randao n)) else None),
      db_block_by_number =
        (\<lambda>n. if n < 4 then Some \<lparr>blk_header = sample_header n (sample_randao n),
               blk_transactions = [], blk_irreversible = False,
               blk_consensus_parameter_index = None, blk_gas_prices = None\<rparr> else None),
      db_headers_progress = 3, db_lib_processed = Some 9, db_chain_config = None,
      db_genesis_hash = None\<rparr>"

lemmas sample_db_simps = sample_db_def sample_header_def sample_randao_def has_eos_id_def is_zero_def

theorem find_block_greatest_witness:
  "\<exists>m \<le> (3::u64). 1 \<le> m \<and> has_eos_id (db_canonical_header sample_db m) \<and>
    find_block_with_valid_eos_id sample_db 3 = db_canonical_header sample_db m \<and>
    (\<forall>j \<le> 3. m < j \<longrightarrow> \<not> has_eos_id (db_canonical_header sample_db j))"
  by (rule find_block_greatest) (simp_all add: sample_db_simps)

theorem find_block_falls_back_to_genesis_witness:
  "find_block_with_valid_eos_id (sample_db\<lparr>db_canonical_header := \<lambda>n. None\<rparr>) 5 = None"
  by (subst find_block_falls_back_to_genesis) simp_all

text \<open>The database keeps headers under their own numbers, and blocks with their headers.\<close>

definition db_consistent :: "'tx chaindata \<Rightarrow> bool" where
  "db_consistent db \<longleftrightarrow>
     (\<forall>n h. db_canonical_header db n = Some h \<longrightarrow> hd_number h = n) \<and>
     (\<forall>n b. db_block_by_number db n = Some b \<longrightarrow> db_canonical_header db n = Some (blk_header b))"

lemma find_block_found:
  assumes "db_consistent db" "find_block_with_valid_eos_id db t = Some h"
  shows "hd_number h \<le> t \<and> db_canonical_header db (hd_number h) = Some h \<and>
    (has_eos_id (Some h) \<or> hd_number h = 0)"
  using find_block_spec [of t db] assms by (auto simp: db_consistent_def)

text \<open>
  C29: The block the node starts from lies at or below the target height and carries the id of
  a native block, unless it is the genesis block.
\<close>

theorem canonical_block_start:
  assumes "db_consistent db" "get_canonical_block_at_height db height = Some b"
  shows "\<exists>t. canonical_target db height = Some t \<and> blk_number b \<le> t \<and>
    (has_eos_id (Some (blk_header b)) \<or> blk_number b = 0)"
proof -
  from assms(2) obtain t h where t: "canonical_target db height = Some t"
    and h: "find_block_with_valid_eos_id db t = Some h"
    and b: "db_block_by_number db (hd_number h) = Some b"
    by (auto simp: get_canonical_block_at_height_def split: option.splits)
  from find_block_found [OF assms(1) h] assms(1) b
  have "blk_header b = h" by (simp add: db_consistent_def)
  with t find_block_found [OF assms(1) h] show ?thesis by auto
qed

theorem canonical_block_start_witness:
  "\<exists>b t. get_canonical_block_at_height sample_db None = Some b \<and>
    canonical_target sample_db None = Some t \<and> blk_number b \<le> t \<and>
    (has_eos_id (Some (blk_header b)) \<or> blk_number b = 0)"
proof -
  have c: "db_consistent sample_db"
    by (auto simp: db_consistent_def sample_db_simps split: if_splits)
  have "get_canonical_block_at_height sample_db None =
    db_block_by_number sample_db 1"
    by code_simp
  then obtain b where "get_canonical_block_at_height sample_db None = Some b"
    by (simp add: sample_db_simps)
  with canonical_block_start [OF c this] show ?thesis by blast
qed

text \<open>
  Without an override the node never starts above the last block known to be irreversible,
  nor above the canonical head; with an override it starts from the given height, unchecked.
\<close>

theorem canonical_target_choice:
  "canonical_target db (Some h) = Some h \<and>
   (case canonical_target db None of
      Some t \<Rightarrow> (case get_stored_evm_lib db of Some l \<Rightarrow> t \<le> l | None \<Rightarrow> True) \<and>
        (case get_head_canonical_header db of Some h' \<Rightarrow> t \<le> hd_number h' | None \<Rightarrow> True)
    | None \<Rightarrow> get_stored_evm_lib db = None \<and> get_head_canonical_header db = None)"
  by (auto simp: canonical_target_def split: option.splits)

text \<open>
  A finished construction leaves either a complete engine, with chain configuration,
  genesis hash and servers, or (no configuration stored and no usable genesis file) an
  application that has been asked to quit and an engine whose startup and shutdown both
  dereference a null pointer.
\<close>

theorem engine_construct_outcome:
  assumes "engine_construct w opts a = Inr (e, a')"
  shows "(engine_startup e = Inr () \<and> a' = a \<and> en_network_id e \<noteq> None \<and> en_genesis_hash e \<noteq> None)
    \<or> (app_quitting a' \<and> db_chain_config (en_db e) = None \<and>
       engine_startup e = Inl (Undefined_behaviour ''server is null'') \<and>
       engine_shutdown e = Inl (Undefined_behaviour ''server is null''))"
  using assms
  by (auto simp: engine_construct_def engine_finish_def engine_unfinished_def engine_startup_def
      engine_shutdown_def Let_def res_simps split: option.splits if_splits)

theorem engine_construct_outcome_witness:
  "\<exists>e a'. engine_construct
      \<lparr>ew_data_path_exists = False, ew_open_env = (\<lambda>c. Inr sample_db),
       ew_regular_file = (\<lambda>f. False), ew_initialize_genesis = (\<lambda>d f. Inr d)\<rparr>
      \<lparr>eo_threads = 16, eo_max_readers = 1024, eo_address = ''127.0.0.1:8080'',
       eo_genesis_json = None\<rparr> \<lparr>app_quitting = False\<rparr> = Inr (e, a') \<and>
    ((engine_startup e = Inr () \<and> a' = \<lparr>app_quitting = False\<rparr> \<and> en_network_id e \<noteq> None \<and>
       en_genesis_hash e \<noteq> None)
     \<or> (app_quitting a' \<and> db_chain_config (en_db e) = None \<and>
       engine_startup e = Inl (Undefined_behaviour ''server is null'') \<and>
       engine_shutdown e = Inl (Undefined_behaviour ''server is null'')))"
proof -
  let ?w = "\<lparr>ew_data_path_exists = False, ew_open_env = (\<lambda>c. Inr sample_db),
       ew_regular_file = (\<lambda>f. False), ew_initialize_genesis = (\<lambda>d f. Inr d)\<rparr>"
  let ?o = "\<lparr>eo_threads = 16, eo_max_readers = 1024, eo_address = ''127.0.0.1:8080'',
       eo_genesis_json = None\<rparr>"
  obtain e a' where r: "engine_construct ?w ?o \<lparr>app_quitting = False\<rparr> = Inr (e, a')"
    by (simp add: engine_construct_def sample_db_simps)
  from r engine_construct_outcome [OF r] show ?thesis by blast
qed

end
