(* ===== verification/Block_Conversion.thy ===== *)
theory Block_Conversion
  imports Engine
begin

text \<open>
  \<open>src/src/block_conversion_plugin.cpp\<close>: native blocks in, EVM blocks out. The plugin keeps the
  recent native blocks and the EVM blocks built from them; a native block either continues
  the chain, is a duplicate, or starts a fork, in which case both lists are rolled back to the
  fork point first. Each definition is one function, loop or branch of the subscription handler,
  which is put together by \<open>on_native_block\<close> at the end.
\<close>

section \<open>State\<close>

text \<open>
  \<open>cv_evm_lib\<close> is the member \<open>evm_lib_\<close>, which the constructor leaves without a value: \<open>None\<close>
  until the first assignment.
\<close>

record 'tx conv =
  cv_native_blocks :: "native_block list"
  cv_evm_blocks :: "'tx block list"
  cv_bm :: "block_mapping option"
  cv_evm_contract_name :: u64
  cv_evm_lib :: "u64 option"

definition conv_init :: "'tx conv" where
  "conv_init = \<lparr>cv_native_blocks = [], cv_evm_blocks = [], cv_bm = None,
     cv_evm_contract_name = 0, cv_evm_lib = None\<rparr>"

text \<open>What the handler does to the rest of the program.\<close>

datatype 'tx conv_effect =
    Publish "'tx block"
  | Update_consensus_parameters bytes32 gas_fee_parameters

section \<open>Helpers\<close>

text \<open>
  The assertion is compiled out of a release build, which goes on with the library's answer.
\<close>

definition timestamp_to_evm_block_num ::
  "'tx lib \<Rightarrow> block_mapping option \<Rightarrow> u64 \<Rightarrow> u32 res" where
  "timestamp_to_evm_block_num L bm timestamp_us =
     rbind (value_of bm) (\<lambda>m.
       if us_to_s timestamp_us < genesis_timestamp m \<and> \<not> lib_ndebug L then Inl Assertion_failed
       else Inr (lib_evm_block_num L m timestamp_us))"

definition compute_transaction_root :: "'tx lib \<Rightarrow> 'tx block \<Rightarrow> bytes32" where
  "compute_transaction_root L b = lib_root_hash L (blk_transactions b)"

text \<open>
  \<open>load_head\<close>: the starting EVM block becomes the last one of the list, and a native block is
  made up from it, known by the id in its \<open>prev_randao\<close>.
\<close>

definition start_native_of :: "'tx lib \<Rightarrow> 'tx block \<Rightarrow> native_block res" where
  "start_native_of L start_block =
     rbind (s_to_us (hd_timestamp (blk_header start_block))) (\<lambda>us.
       Inr ((default_native_block (lib_default_checksum L))
         \<lparr>nb_id := hd_prev_randao (blk_header start_block),
          nb_block_num := to_block_num (hd_prev_randao (blk_header start_block)),
          nb_timestamp := us\<rparr>))"

definition load_head ::
  "'tx lib \<Rightarrow> 'tx chaindata \<Rightarrow> u64 option \<Rightarrow> app \<Rightarrow> 'tx conv \<Rightarrow> ('tx conv \<times> app) res" where
  "load_head L db start_from_canonical_height a st =
     (case get_canonical_block_at_height db start_from_canonical_height of
        None \<Rightarrow> Inr (st, sys_error ''Unable to read head block'' a)
      | Some start_block \<Rightarrow>
          rbind (start_native_of L start_block) (\<lambda>nb.
            let st = st\<lparr>cv_evm_blocks := cv_evm_blocks st @ [start_block],
                        cv_native_blocks := cv_native_blocks st @ [nb]\<rparr> in
            case get_genesis_header db of
              None \<Rightarrow> Inr (st, sys_error ''Unable to read genesis header'' a)
            | Some genesis_header \<Rightarrow>
                let st = st\<lparr>cv_bm := Some \<lparr>genesis_timestamp = hd_timestamp genesis_header,
                                          block_interval = 1\<rparr>,
                            cv_evm_contract_name := lib_load_big_u64 L (hd_nonce genesis_header)\<rparr> in
                if cv_evm_contract_name st = 0 \<or> cv_evm_contract_name st = 1000
                then Inr (st, sys_error ''Invalid genesis nonce'' a)
                else Inr (st, a)))"

definition generate_new_evm_block ::
  "'tx lib \<Rightarrow> 'tx chaindata \<Rightarrow> block_mapping option \<Rightarrow> u64 \<Rightarrow> 'tx block \<Rightarrow> 'tx block res" where
  "generate_new_evm_block L db bm evm_contract_name last_evm_block =
     (let last = blk_header last_evm_block;
          eos_evm_version =
            (if hd_number last = 0
             then (case get_chain_config db of
                     Some existing_config \<Rightarrow>
                       (case cc_version existing_config of Some v \<Rightarrow> v | None \<Rightarrow> 0)
                   | None \<Rightarrow> 0)
             else lib_nonce_to_version L (hd_nonce last));
          base_fee_per_gas = map_option ucast (hd_base_fee_per_gas last);
          new_block = lib_default_block L
      in rbind (value_of bm) (\<lambda>m.
           let header = lib_prepare_block_header L (blk_header new_block) m evm_contract_name
                          (hd_number last + 1) eos_evm_version base_fee_per_gas;
               header = header\<lparr>hd_parent_hash := lib_header_hash L last,
                               hd_transactions_root := lib_empty_root L\<rparr>;
               new_block = new_block\<lparr>blk_header := header\<rparr>;
               new_block =
                 (case blk_consensus_parameter_index last_evm_block of
                    Some cpi \<Rightarrow> new_block\<lparr>blk_consensus_parameter_index := Some cpi\<rparr>
                  | None \<Rightarrow> new_block);
               new_block =
                 (case blk_gas_prices last_evm_block of
                    Some p \<Rightarrow> new_block\<lparr>blk_gas_prices := Some p\<rparr>
                  | None \<Rightarrow> new_block)
           in Inr new_block))"

definition set_upper_bound :: "'tx block \<Rightarrow> native_block \<Rightarrow> 'tx block" where
  "set_upper_bound evm_block native_block =
     evm_block\<lparr>blk_header := (blk_header evm_block)
                 \<lparr>hd_prev_randao := extract_as_byte_array (nb_id native_block)\<rparr>,
               blk_irreversible := nb_block_num native_block \<le> nb_lib native_block\<rparr>"

definition for_each_action ::
  "native_block \<Rightarrow> (native_action \<Rightarrow> 's \<Rightarrow> 's res) \<Rightarrow> 's \<Rightarrow> 's res" where
  "for_each_action block f = rfold (\<lambda>trx. rfold f (nt_actions trx)) (nb_transactions block)"

definition for_each_reverse_action ::
  "native_block \<Rightarrow> (native_action \<Rightarrow> 's \<Rightarrow> 's res) \<Rightarrow> 's \<Rightarrow> 's res" where
  "for_each_reverse_action block f =
     rfold (\<lambda>trx. rfold f (rev (nt_actions trx))) (rev (nb_transactions block))"

definition deserialize_tx :: "'tx lib \<Rightarrow> native_action \<Rightarrow> evmtx_type res" where
  "deserialize_tx L na =
     (if na_name na = pushtx_n (lib_eosio_name L)
      then rbind (lib_pushtx_from_bin L (na_data na)) (\<lambda>tx.
             Inr (Evmtx_v1 \<lparr>eos_evm_version = 0, rlpx = px_rlpx tx, v1_base_fee_per_gas = 0\<rparr>))
      else lib_evmtx_from_bin L (na_data na))"

definition deserialize_config ::
  "'tx lib \<Rightarrow> native_action \<Rightarrow> consensus_parameter_data_type res" where
  "deserialize_config L na = lib_config_from_bin L (na_data na)"

section \<open>Rolling back to a fork point\<close>

text \<open>The loop that removes the EVM blocks after the fork.\<close>

function remove_forked_evm_blocks ::
  "'tx lib \<Rightarrow> block_mapping option \<Rightarrow> native_block \<Rightarrow> 'tx block list \<Rightarrow> 'tx block list res" where
  "remove_forked_evm_blocks L bm fork_block evm =
     (if evm = [] then Inr evm
      else rbind (timestamp_to_evm_block_num L bm (nb_timestamp fork_block)) (\<lambda>n.
             if ucast n < blk_number (last evm)
             then remove_forked_evm_blocks L bm fork_block (butlast evm)
             else Inr evm))"
  by pat_completeness auto
termination
  by (relation "measure (\<lambda>(L, bm, f, evm). length evm)") auto

declare remove_forked_evm_blocks.simps [simp del]

text \<open>
  The body of the reverse loop over the actions of a forked native block: the last transaction
  of the last EVM block is removed, if its hash is that of the action's transaction.
\<close>

definition remove_transaction ::
  "'tx lib \<Rightarrow> native_action \<Rightarrow> 'tx block list \<Rightarrow> 'tx block list res" where
  "remove_transaction L act evm =
     rbind (deserialize_tx L act) (\<lambda>dtx.
       let txid_a = lib_keccak256 L (dtx_rlpx dtx) in
       rbind (back_of ''evm_blocks.back()'' evm) (\<lambda>b.
       rbind (back_of ''transactions.back()'' (blk_transactions b)) (\<lambda>t.
         let txid_b = lib_keccak256 L (lib_rlp_encode L t) in
         if txid_a \<noteq> txid_b then Inl (Runtime_error ''Unable to remove transaction'')
         else Inr (butlast evm @ [b\<lparr>blk_transactions := butlast (blk_transactions b)\<rparr>]))))"

text \<open>
  The refusal that the two checks below share in form: the message is built with
  \<open>evm_blocks.back()\<close> also when the list is empty.
\<close>

definition refuse_rollback :: "string \<Rightarrow> 'tx block list \<Rightarrow> 'a res" where
  "refuse_rollback msg evm =
     rbind (back_of ''evm_blocks.back() in log message'' evm) (\<lambda>_. Inl (Runtime_error msg))"

text \<open>The body of the loop that removes the forked native blocks, before the block is popped.\<close>

definition remove_transactions_of ::
  "'tx lib \<Rightarrow> block_mapping option \<Rightarrow> native_block \<Rightarrow> native_block \<Rightarrow> 'tx block list
     \<Rightarrow> 'tx block list res" where
  "remove_transactions_of L bm fork_block nb evm =
     (if nb_transactions nb = [] then Inr evm
      else rbind (timestamp_to_evm_block_num L bm (nb_timestamp nb)) (\<lambda>n.
           rbind (timestamp_to_evm_block_num L bm (nb_timestamp fork_block)) (\<lambda>nf.
             if n \<noteq> nf then Inr evm
             else if evm = [] \<or> ucast n \<noteq> blk_number (last evm)
             then refuse_rollback ''Unable to remove transactions'' evm
             else for_each_reverse_action nb (remove_transaction L) evm)))"

function remove_forked_native_blocks ::
  "'tx lib \<Rightarrow> block_mapping option \<Rightarrow> native_block \<Rightarrow> native_block list \<Rightarrow> 'tx block list
     \<Rightarrow> (native_block list \<times> 'tx block list) res" where
  "remove_forked_native_blocks L bm fork_block native evm =
     (if native \<noteq> [] \<and> nb_id (last native) \<noteq> nb_id fork_block
      then rbind (remove_transactions_of L bm fork_block (last native) evm) (\<lambda>evm'.
             remove_forked_native_blocks L bm fork_block (butlast native) evm')
      else Inr (native, evm))"
  by pat_completeness auto
termination
  by (relation "measure (\<lambda>(L, bm, f, native, evm). length native)") auto

declare remove_forked_native_blocks.simps [simp del]

text \<open>The whole rollback, ending with the reset of the upper bound of the last EVM block.\<close>

definition rollback ::
  "'tx lib \<Rightarrow> block_mapping option \<Rightarrow> native_block \<Rightarrow> native_block list \<Rightarrow> 'tx block list
     \<Rightarrow> (native_block list \<times> 'tx block list) res" where
  "rollback L bm fork_block native evm =
     rbind (remove_forked_evm_blocks L bm fork_block evm) (\<lambda>evm.
     rbind (remove_forked_native_blocks L bm fork_block native evm) (\<lambda>(native, evm).
       if evm = [] then refuse_rollback ''Unable to set upper bound'' evm
       else rbind (back_of ''native_blocks.back()'' native) (\<lambda>nb.
            rbind (timestamp_to_evm_block_num L bm (nb_timestamp nb)) (\<lambda>n.
              if ucast n \<noteq> blk_number (last evm)
              then refuse_rollback ''Unable to set upper bound'' evm
              else Inr (native, butlast evm @ [set_upper_bound (last evm) nb])))))"

text \<open>
  What happens to the two lists before the received block is enqueued: nothing when it
  continues the chain; \<open>None\<close> when it is a duplicate, which ends the handler; a rollback to its
  parent otherwise.
\<close>

definition link_native_block ::
  "'tx lib \<Rightarrow> block_mapping option \<Rightarrow> native_block \<Rightarrow> native_block list \<Rightarrow> 'tx block list
     \<Rightarrow> (native_block list \<times> 'tx block list) option res" where
  "link_native_block L bm new_block native evm =
     (if native \<noteq> [] \<and> nb_id (last native) \<noteq> nb_prev new_block
      then (case find (\<lambda>nb. nb_id nb = nb_id new_block) native of
              Some dup_block \<Rightarrow> Inr None
            | None \<Rightarrow>
                (case find (\<lambda>nb. nb_id nb = nb_prev new_block) native of
                   None \<Rightarrow> Inl (Runtime_error ''Unable to find fork block'')
                 | Some fork_block \<Rightarrow>
                     rbind (rollback L bm fork_block native evm) (\<lambda>r. Inr (Some r))))
      else Inr (Some (native, evm)))"

section \<open>Extending the EVM chain\<close>

definition close_evm_block :: "'tx lib \<Rightarrow> 'tx block \<Rightarrow> 'tx block" where
  "close_evm_block L b =
     b\<lparr>blk_header := (blk_header b)\<lparr>hd_transactions_root := compute_transaction_root L b\<rparr>\<rparr>"

text \<open>
  The loop that closes, publishes and succeeds EVM blocks up to the number of the received
  block. Whether it ends depends on the library storing the number it is given; \<open>None\<close> stands
  for a loop that does not end.
\<close>

partial_function (option) extend_evm_chain ::
  "'tx lib \<Rightarrow> 'tx chaindata \<Rightarrow> block_mapping option \<Rightarrow> u64 \<Rightarrow> u32 \<Rightarrow> 'tx block list \<Rightarrow> 'tx block list
     \<Rightarrow> ('tx block list \<times> 'tx block list) res option" where
  "extend_evm_chain L db bm cname evm_num evm published =
     (if evm = [] then Some (Inl (Undefined_behaviour ''evm_blocks.back()''))
      else if blk_number (last evm) < ucast evm_num
      then (let closed = close_evm_block L (last evm) in
            case generate_new_evm_block L db bm cname closed of
              Inl e \<Rightarrow> Some (Inl e)
            | Inr b \<Rightarrow>
                extend_evm_chain L db bm cname evm_num (butlast evm @ [closed, b])
                  (published @ [closed]))
      else Some (Inr (evm, published)))"

declare extend_evm_chain.simps [code]

section \<open>Adding the transactions of a native block\<close>

text \<open>The consensus parameters of a configuration change.\<close>

definition consensus_parameters_of :: "consensus_parameter_data_type \<Rightarrow> gas_fee_parameters" where
  "consensus_parameters_of c =
     (case c of Consensus_parameter_v0 d \<Rightarrow>
        \<lparr>gf_txnewaccount = gas_txnewaccount (gas_parameter d),
         gf_newaccount = gas_newaccount (gas_parameter d),
         gf_txcreate = gas_txcreate (gas_parameter d),
         gf_codedeposit = gas_codedeposit (gas_parameter d),
         gf_sset = gas_sset (gas_parameter d)\<rparr>)"

text \<open>
  The parameters are written through the transaction of the execution engine, which the
  blockchain plugin creates with the first EVM block it receives; before that the pointer to
  the engine is null.
\<close>

definition apply_new_config ::
  "'tx lib \<Rightarrow> bool \<Rightarrow> native_block \<Rightarrow> 'tx block \<Rightarrow> ('tx block \<times> 'tx conv_effect list) res" where
  "apply_new_config L engine_open new_block cur =
     (case nb_new_config new_block of
        None \<Rightarrow> Inr (cur, [])
      | Some act \<Rightarrow>
          if blk_transactions cur \<noteq> []
          then Inl (Runtime_error ''new config comes in the middle of an evm block'')
          else rbind (deserialize_config L act) (\<lambda>new_config.
                 let param = consensus_parameters_of new_config;
                     index = lib_consensus_hash L param
                 in if \<not> engine_open then Inl (Undefined_behaviour ''exec_engine is null'')
                    else Inr (cur\<lparr>blk_consensus_parameter_index := Some index\<rparr>,
                              [Update_consensus_parameters index param])))"

text \<open>The steps of the loop body over the actions; the second component is \<open>block_version\<close>.\<close>

definition check_version ::
  "'tx lib \<Rightarrow> evmtx_type \<Rightarrow> 'tx block \<times> u64 \<Rightarrow> ('tx block \<times> u64) res" where
  "check_version L dtx = (\<lambda>(cur, block_version).
     let tx_version = dtx_version dtx in
     if tx_version < block_version then Inl (Runtime_error ''tx_version < block_version'')
     else if tx_version > block_version
     then (if blk_transactions cur = []
           then Inr (cur\<lparr>blk_header := (blk_header cur)
                             \<lparr>hd_nonce := lib_version_to_nonce L tx_version\<rparr>\<rparr>, tx_version)
           else Inl (Runtime_error ''tx_version > block_version''))
     else Inr (cur, block_version))"

definition set_block_gas_prices ::
  "'tx lib \<Rightarrow> evmtx_type \<Rightarrow> u64 \<Rightarrow> 'tx block \<Rightarrow> 'tx block res" where
  "set_block_gas_prices L dtx block_version cur =
     (if block_version \<ge> 3
      then (case dtx of
              Evmtx_v1 _ \<Rightarrow> Inl Assertion_failed
            | Evmtx_v3 dtx_v3 \<Rightarrow>
                let tx_gas_prices = \<lparr>overhead_price = v3_overhead_price dtx_v3,
                                     storage_price = v3_storage_price dtx_v3\<rparr>;
                    fee = ucast (lib_calculate_base_fee L (v3_overhead_price dtx_v3)
                                   (v3_storage_price dtx_v3));
                    set_fee = (\<lambda>b. b\<lparr>blk_header := (blk_header b)
                                        \<lparr>hd_base_fee_per_gas := Some fee\<rparr>\<rparr>)
                in case blk_gas_prices cur of
                     None \<Rightarrow> Inr (set_fee (cur\<lparr>blk_gas_prices := Some tx_gas_prices\<rparr>))
                   | Some curr_block_prices \<Rightarrow>
                       if curr_block_prices \<noteq> tx_gas_prices
                       then (if blk_transactions cur = []
                             then Inr (set_fee (cur\<lparr>blk_gas_prices := Some tx_gas_prices\<rparr>))
                             else Inl (Runtime_error ''curr_block_prices != tx_gas_prices''))
                       else Inr (set_fee cur))
      else Inr cur)"

definition set_block_base_fee ::
  "evmtx_type \<Rightarrow> u64 \<Rightarrow> 'tx block \<Rightarrow> 'tx block res" where
  "set_block_base_fee dtx block_version cur =
     (if block_version \<ge> 1 \<and> block_version < 3
      then (case dtx of
              Evmtx_v3 _ \<Rightarrow> Inl Bad_variant_access
            | Evmtx_v1 dtx_v1 \<Rightarrow>
                let tx_base_fee = ucast (v1_base_fee_per_gas dtx_v1);
                    set_fee = cur\<lparr>blk_header := (blk_header cur)
                                     \<lparr>hd_base_fee_per_gas := Some tx_base_fee\<rparr>\<rparr>
                in case hd_base_fee_per_gas (blk_header cur) of
                     None \<Rightarrow> Inr set_fee
                   | Some f \<Rightarrow>
                       if f \<noteq> tx_base_fee
                       then (if blk_transactions cur = [] then Inr set_fee
                             else Inl (Runtime_error ''curr.base_fee_per_gas != tx_base_fee''))
                       else Inr cur)
      else Inr cur)"

definition add_transaction ::
  "'tx lib \<Rightarrow> native_action \<Rightarrow> 'tx block \<times> u64 \<Rightarrow> ('tx block \<times> u64) res" where
  "add_transaction L act s =
     rbind (deserialize_tx L act) (\<lambda>dtx.
     rbind (check_version L dtx s) (\<lambda>(cur, block_version).
     rbind (set_block_gas_prices L dtx block_version cur) (\<lambda>cur.
       case lib_rlp_decode L (dtx_rlpx dtx) of
         None \<Rightarrow> Inl (Runtime_error ''Failed to decode transaction'')
       | Some evm_tx \<Rightarrow>
           rbind (set_block_base_fee dtx block_version cur) (\<lambda>cur.
             Inr (cur\<lparr>blk_transactions := blk_transactions cur @ [evm_tx]\<rparr>, block_version)))))"

text \<open>The part of the handler that fills the last EVM block from the received native block.\<close>

definition fill_evm_block ::
  "'tx lib \<Rightarrow> bool \<Rightarrow> native_block \<Rightarrow> 'tx block \<Rightarrow> ('tx block \<times> 'tx conv_effect list) res" where
  "fill_evm_block L engine_open new_block cur =
     (let block_version = lib_nonce_to_version L (hd_nonce (blk_header cur)) in
      rbind (apply_new_config L engine_open new_block cur) (\<lambda>(cur, effects).
      rbind (for_each_action new_block (add_transaction L) (cur, block_version)) (\<lambda>(cur, _).
        Inr (set_upper_bound cur new_block, effects))))"

section \<open>Irreversibility\<close>

text \<open>
  \<open>std::upper_bound\<close> as the library of the compiler in use implements it: a binary search for
  the end of the elements that the value does not precede. \<open>first\<close> is the position of the
  iterator, \<open>len\<close> the length of the range still searched.
\<close>

function upper_bound_loop :: "('a \<Rightarrow> bool) \<Rightarrow> 'a list \<Rightarrow> nat \<Rightarrow> nat \<Rightarrow> nat" where
  "upper_bound_loop pred xs first len =
     (if len > 0
      then (let half = len div 2; middle = first + half in
            if pred (xs ! middle) then upper_bound_loop pred xs first half
            else upper_bound_loop pred xs (Suc middle) (len - half - 1))
      else first)"
  by pat_completeness auto
termination
  by (relation "measure (\<lambda>(b, xs, first, len). len)") auto

declare upper_bound_loop.simps [simp del]

definition std_upper_bound :: "('a \<Rightarrow> bool) \<Rightarrow> 'a list \<Rightarrow> nat" where
  "std_upper_bound pred xs = upper_bound_loop pred xs 0 (length xs)"

definition lib_timestamp_of :: "native_block list \<Rightarrow> u32 \<Rightarrow> i64 option" where
  "lib_timestamp_of native lib =
     (let it = std_upper_bound (\<lambda>nb. lib < nb_block_num nb) native in
      if it \<noteq> 0 then Some (nb_timestamp (native ! (it - 1))) else None)"

fun remove_irreversible_native ::
  "'tx lib \<Rightarrow> block_mapping option \<Rightarrow> u32 \<Rightarrow> native_block list \<Rightarrow> native_block list res" where
  "remove_irreversible_native L bm evm_lib [] = Inl (Undefined_behaviour ''native_blocks.front()'')"
| "remove_irreversible_native L bm evm_lib (nb # nbs) =
     rbind (timestamp_to_evm_block_num L bm (nb_timestamp nb)) (\<lambda>n.
       if n < evm_lib then remove_irreversible_native L bm evm_lib nbs else Inr (nb # nbs))"

fun remove_irreversible_evm :: "u32 \<Rightarrow> 'tx block list \<Rightarrow> 'tx block list res" where
  "remove_irreversible_evm evm_lib [] = Inl (Undefined_behaviour ''evm_blocks.front()'')"
| "remove_irreversible_evm evm_lib (b # bs) =
     (if blk_number b < ucast evm_lib then remove_irreversible_evm evm_lib bs else Inr (b # bs))"

definition update_irreversible ::
  "'tx lib \<Rightarrow> native_block \<Rightarrow> 'tx conv \<Rightarrow> 'tx conv res" where
  "update_irreversible L new_block st =
     (case lib_timestamp_of (cv_native_blocks st) (nb_lib new_block) of
        None \<Rightarrow> Inr st
      | Some lib_timestamp \<Rightarrow>
          rbind (timestamp_to_evm_block_num L (cv_bm st) lib_timestamp) (\<lambda>n.
            let evm_lib = n - 1 in
            rbind (remove_irreversible_native L (cv_bm st) evm_lib (cv_native_blocks st)) (\<lambda>native.
            rbind (remove_irreversible_evm evm_lib (cv_evm_blocks st)) (\<lambda>evm.
              Inr (st\<lparr>cv_native_blocks := native, cv_evm_blocks := evm,
                      cv_evm_lib := Some (ucast evm_lib)\<rparr>)))))"

section \<open>The handler\<close>

text \<open>
  The subscription handler of the native block channel. \<open>None\<close> stands for a handler that does
  not return; an exception leaves the handler and makes the application quit.
\<close>

definition append_native_block ::
  "'tx lib \<Rightarrow> 'tx chaindata \<Rightarrow> bool \<Rightarrow> native_block \<Rightarrow> 'tx conv \<Rightarrow> ('tx conv \<times> 'tx conv_effect list) res option" where
  "append_native_block L db engine_open new_block st =
     (case timestamp_to_evm_block_num L (cv_bm st) (nb_timestamp new_block) of
        Inl e \<Rightarrow> Some (Inl e)
      | Inr evm_num \<Rightarrow>
          map_option (\<lambda>r.
            rbind r (\<lambda>(evm, published).
            rbind (back_of ''evm_blocks.back()'' evm) (\<lambda>cur.
            rbind (fill_evm_block L engine_open new_block cur) (\<lambda>(cur, effects).
            rbind (update_irreversible L new_block
                     (st\<lparr>cv_native_blocks := cv_native_blocks st @ [new_block],
                         cv_evm_blocks := butlast evm @ [cur]\<rparr>)) (\<lambda>st'.
              Inr (st', map Publish published @ effects))))))
            (extend_evm_chain L db (cv_bm st) (cv_evm_contract_name st) evm_num (cv_evm_blocks st) []))"

definition on_native_block ::
  "'tx lib \<Rightarrow> 'tx chaindata \<Rightarrow> bool \<Rightarrow> native_block \<Rightarrow> 'tx conv \<Rightarrow> ('tx conv \<times> 'tx conv_effect list) res option" where
  "on_native_block L db engine_open new_block st =
     (case cv_bm st of
        None \<Rightarrow> Some (Inl Bad_optional_access)
      | Some m \<Rightarrow>
          if nb_timestamp new_block \<le> genesis_timestamp m
          then Some (Inr (st\<lparr>cv_native_blocks := [new_block]\<rparr>, []))
          else (case link_native_block L (cv_bm st) new_block
                       (cv_native_blocks st) (cv_evm_blocks st) of
                  Inl e \<Rightarrow> Some (Inl e)
                | Inr None \<Rightarrow> Some (Inr (st, []))
                | Inr (Some (native, evm)) \<Rightarrow>
                    append_native_block L db engine_open new_block
                      (st\<lparr>cv_native_blocks := native, cv_evm_blocks := evm\<rparr>)))"

definition get_evm_lib :: "'tx conv \<Rightarrow> u64 res" where
  "get_evm_lib st = deref ''evm_lib_ read before it is assigned'' (cv_evm_lib st)"

end
