(* ===== verification/Conversion_Invariants.thy ===== *)
theory Conversion_Invariants
  imports Block_Conversion
begin

text \<open>
  What the block conversion plugin promises, stated on an abstract view of its two lists, and
  the proof that every phase of the handler keeps it: the cached native blocks form a chain,
  the EVM blocks are consecutive and linked by hash, and each EVM block holds exactly the
  transactions of the cached native blocks that belong to it, in order, and the id of the last
  of them.
\<close>

section \<open>The view\<close>

record 'tx view =
  vw_number :: u64
  vw_txs :: "'tx list"
  vw_id :: bytes32
  vw_irreversible :: bool

definition view_of :: "'tx block \<Rightarrow> 'tx view" where
  "view_of b =
     \<lparr>vw_number = blk_number b, vw_txs = blk_transactions b,
      vw_id = hd_prev_randao (blk_header b), vw_irreversible = blk_irreversible b\<rparr>"

lemma view_of_simps [simp]:
  "vw_number (view_of b) = blk_number b" "vw_txs (view_of b) = blk_transactions b"
  "vw_id (view_of b) = hd_prev_randao (blk_header b)"
  "vw_irreversible (view_of b) = blk_irreversible b"
  by (simp_all add: view_of_def)

text \<open>The number of the EVM block that a native block belongs to, and its actions.\<close>

definition evm_num_of :: "'tx lib \<Rightarrow> block_mapping \<Rightarrow> native_block \<Rightarrow> u64" where
  "evm_num_of L m nb = ucast (lib_evm_block_num L m (nb_timestamp nb))"

definition nb_actions :: "native_block \<Rightarrow> native_action list" where
  "nb_actions nb = concat (map nt_actions (nb_transactions nb))"

definition natives_at ::
  "'tx lib \<Rightarrow> block_mapping \<Rightarrow> u64 \<Rightarrow> native_block list \<Rightarrow> native_block list" where
  "natives_at L m k ns = filter (\<lambda>nb. evm_num_of L m nb = k) ns"

definition actions_at ::
  "'tx lib \<Rightarrow> block_mapping \<Rightarrow> u64 \<Rightarrow> native_block list \<Rightarrow> native_action list" where
  "actions_at L m k ns = concat (map nb_actions (natives_at L m k ns))"

text \<open>An action carries a transaction.\<close>

definition tx_of :: "'tx lib \<Rightarrow> native_action \<Rightarrow> 'tx \<Rightarrow> bool" where
  "tx_of L act t \<longleftrightarrow>
     (\<exists>dtx. deserialize_tx L act = Inr dtx \<and> lib_rlp_decode L (dtx_rlpx dtx) = Some t)"

section \<open>The invariants\<close>

definition native_ok :: "'tx lib \<Rightarrow> block_mapping \<Rightarrow> native_block \<Rightarrow> bool" where
  "native_ok L m nb \<longleftrightarrow>
     to_block_num (nb_id nb) = nb_block_num nb \<and> 0 < evm_num_of L m nb \<and>
     (lib_ndebug L \<or> genesis_timestamp m \<le> us_to_s (nb_timestamp nb))"

definition child_of :: "'tx lib \<Rightarrow> block_mapping \<Rightarrow> native_block \<Rightarrow> native_block \<Rightarrow> bool" where
  "child_of L m a b \<longleftrightarrow>
     nb_prev b = nb_id a \<and> unat (nb_block_num b) = Suc (unat (nb_block_num a)) \<and>
     evm_num_of L m a \<le> evm_num_of L m b"

definition native_chain :: "'tx lib \<Rightarrow> block_mapping \<Rightarrow> native_block list \<Rightarrow> bool" where
  "native_chain L m ns \<longleftrightarrow> linked (child_of L m) ns \<and> (\<forall>nb \<in> set ns. native_ok L m nb)"

definition succ_number :: "'tx view \<Rightarrow> 'tx view \<Rightarrow> bool" where
  "succ_number a b \<longleftrightarrow> vw_number b = vw_number a + 1 \<and> vw_number a < vw_number b"

text \<open>
  \<open>s\<close> is the number of the EVM block the node started from: it may hold transactions from
  before the start. \<open>i\<close> is the id of the native block made up for it, whose time is the end of
  that EVM block.
\<close>

definition faithful ::
  "'tx lib \<Rightarrow> block_mapping \<Rightarrow> u64 \<Rightarrow> native_block list \<Rightarrow> 'tx view list \<Rightarrow> bool" where
  "faithful L m s ns vs \<longleftrightarrow>
     (\<forall>v \<in> set vs. \<exists>pre txs. vw_txs v = pre @ txs \<and>
        list_all2 (tx_of L) (actions_at L m (vw_number v) ns) txs \<and>
        (vw_number v \<noteq> s \<longrightarrow> pre = []))"

definition bound_ok ::
  "'tx lib \<Rightarrow> block_mapping \<Rightarrow> bytes32 \<Rightarrow> native_block list \<Rightarrow> 'tx view \<Rightarrow> bool" where
  "bound_ok L m i ns v \<longleftrightarrow>
     (let xs = natives_at L m (vw_number v) ns in
      xs = [] \<or> nb_id (last xs) = i \<or>
      (vw_id v = nb_id (last xs) \<and> vw_irreversible v = (nb_block_num (last xs) \<le> nb_lib (last xs))))"

definition aligned ::
  "'tx lib \<Rightarrow> block_mapping \<Rightarrow> bytes32 \<Rightarrow> native_block list \<Rightarrow> 'tx view list \<Rightarrow> bool" where
  "aligned L m i ns vs \<longleftrightarrow>
     vw_number (hd vs) \<le> evm_num_of L m (hd ns) \<and>
     (\<forall>x \<in> set ns. vw_number (last vs) < evm_num_of L m x \<longrightarrow> nb_actions x = [] \<and> nb_id x = i)"

definition core_inv ::
  "'tx lib \<Rightarrow> block_mapping \<Rightarrow> u64 \<Rightarrow> bytes32 \<Rightarrow> native_block list \<Rightarrow> 'tx view list \<Rightarrow> bool" where
  "core_inv L m s i ns vs \<longleftrightarrow>
     ns \<noteq> [] \<and> vs \<noteq> [] \<and> native_chain L m ns \<and> linked succ_number vs \<and>
     faithful L m s ns vs \<and> (\<forall>v \<in> set vs. bound_ok L m i ns v) \<and> aligned L m i ns vs"

definition view_inv ::
  "'tx lib \<Rightarrow> block_mapping \<Rightarrow> u64 \<Rightarrow> bytes32 \<Rightarrow> native_block list \<Rightarrow> 'tx view list \<Rightarrow> bool" where
  "view_inv L m s i ns vs \<longleftrightarrow>
     core_inv L m s i ns vs \<and> vw_number (last vs) \<le> evm_num_of L m (last ns)"

text \<open>EVM blocks are linked by number and by hash.\<close>

definition hash_linked :: "'tx lib \<Rightarrow> 'tx block list \<Rightarrow> bool" where
  "hash_linked L es \<longleftrightarrow>
     linked (\<lambda>a b. hd_parent_hash (blk_header b) = lib_header_hash L (blk_header a)) es"

section \<open>Lists of native blocks\<close>

lemma natives_at_append [simp]:
  "natives_at L m k (xs @ ys) = natives_at L m k xs @ natives_at L m k ys"
  by (simp add: natives_at_def)

lemma actions_at_append [simp]:
  "actions_at L m k (xs @ ys) = actions_at L m k xs @ actions_at L m k ys"
  by (simp add: actions_at_def)

lemma natives_at_none: "\<forall>x \<in> set ns. evm_num_of L m x \<noteq> k \<Longrightarrow> natives_at L m k ns = []"
  by (simp add: natives_at_def filter_empty_conv)

lemma actions_at_empty:
  "\<forall>x \<in> set ns. evm_num_of L m x = k \<longrightarrow> nb_actions x = [] \<Longrightarrow> actions_at L m k ns = []"
  by (simp add: actions_at_def natives_at_def)

lemma child_evm_num: "child_of L m a b \<Longrightarrow> evm_num_of L m a \<le> evm_num_of L m b"
  by (simp add: child_of_def)

lemma linked_le_last:
  fixes f :: "'a \<Rightarrow> 'b :: order"
  assumes "linked r xs" and mono: "\<And>a b. r a b \<Longrightarrow> f a \<le> f b" and "x \<in> set xs"
  shows "f x \<le> f (last xs)"
proof -
  have "\<forall>x \<in> set xs. f x \<le> f (last xs)"
    using assms(1)
  proof (induction xs)
    case (Cons a xs)
    show ?case
    proof (cases xs)
      case (Cons b ys)
      with Cons.prems have "f a \<le> f b" "linked r xs" by (auto intro: mono)
      with Cons.IH Cons show ?thesis by (auto intro: order_trans)
    qed simp
  qed simp
  with assms(3) show ?thesis by blast
qed

lemma linked_hd_le:
  fixes f :: "'a \<Rightarrow> 'b :: order"
  assumes "linked r xs" and mono: "\<And>a b. r a b \<Longrightarrow> f a \<le> f b" and "x \<in> set xs"
  shows "f (hd xs) \<le> f x"
  using assms(1,3)
proof (induction xs)
  case (Cons a xs)
  show ?case
  proof (cases "x = a")
    case False
    then obtain b ys where xs: "xs = b # ys" and "x \<in> set xs" using Cons.prems(2) by (cases xs) auto
    with Cons have "f b \<le> f x" "f a \<le> f b" by (auto intro: mono)
    then show ?thesis by (auto intro: order_trans)
  qed simp
qed simp

lemma linked_less:
  fixes f :: "'a \<Rightarrow> 'b :: order"
  assumes "linked r (xs @ ys)" "\<And>a b. r a b \<Longrightarrow> f a < f b" "x \<in> set xs" "y \<in> set ys"
  shows "f x < f y"
proof -
  from assms(3,4) have ne: "xs \<noteq> []" "ys \<noteq> []" by auto
  have "f x \<le> f (last xs)"
    by (rule linked_le_last [where r = r]) (use assms in \<open>auto simp: linked_append intro: less_imp_le\<close>)
  also have "\<dots> < f (hd ys)" using assms(1,2) ne by (auto simp: linked_append)
  also have "\<dots> \<le> f y"
    by (rule linked_hd_le [where r = r]) (use assms in \<open>auto simp: linked_append intro: less_imp_le\<close>)
  finally show ?thesis .
qed

lemma chain_mono:
  assumes "native_chain L m (xs @ ys)" "x \<in> set xs" "y \<in> set ys"
  shows "evm_num_of L m x \<le> evm_num_of L m y"
proof -
  from assms(2,3) have ne: "xs \<noteq> []" "ys \<noteq> []" by auto
  have l: "linked (child_of L m) xs" "linked (child_of L m) ys" "child_of L m (last xs) (hd ys)"
    using assms ne by (auto simp: native_chain_def linked_append)
  have "evm_num_of L m x \<le> evm_num_of L m (last xs)"
    by (rule linked_le_last [OF l(1)]) (auto simp: assms child_evm_num)
  also have "\<dots> \<le> evm_num_of L m (hd ys)" by (rule child_evm_num [OF l(3)])
  also have "\<dots> \<le> evm_num_of L m y"
    by (rule linked_hd_le [OF l(2)]) (auto simp: assms child_evm_num)
  finally show ?thesis .
qed

lemma chain_nums:
  assumes "native_chain L m (xs @ ys)" "x \<in> set xs" "y \<in> set ys"
  shows "nb_block_num x < nb_block_num y"
proof (rule linked_less [where r = "child_of L m" and f = nb_block_num, OF _ _ assms(2,3)])
  show "linked (child_of L m) (xs @ ys)" using assms(1) by (simp add: native_chain_def)
  show "child_of L m a b \<Longrightarrow> nb_block_num a < nb_block_num b" for a b
    unfolding word_less_nat_alt by (simp add: child_of_def)
qed

lemma chain_ids:
  assumes "native_chain L m (xs @ ys)" "x \<in> set xs" "y \<in> set ys"
  shows "nb_id x \<noteq> nb_id y"
proof -
  have "nb_block_num x = to_block_num (nb_id x)" "nb_block_num y = to_block_num (nb_id y)"
    using assms by (auto simp: native_chain_def native_ok_def)
  with chain_nums [OF assms] show ?thesis by auto
qed

lemma native_chain_append:
  "native_chain L m (xs @ ys) \<longleftrightarrow> native_chain L m xs \<and> native_chain L m ys \<and>
     (xs \<noteq> [] \<longrightarrow> ys \<noteq> [] \<longrightarrow> child_of L m (last xs) (hd ys))"
  by (auto simp: native_chain_def linked_append)

end
