(* ===== verification/Conversion_Rollback.thy ===== *)
theory Conversion_Rollback
  imports Conversion_Invariants
begin

text \<open>
  The rollback to a fork point: which native and EVM blocks it keeps, which transactions it
  takes out, and that it cannot fail on a state that satisfies the invariants.
\<close>

section \<open>Block numbers of cached native blocks\<close>

lemma timestamp_num:
  "native_ok L m nb \<Longrightarrow>
   timestamp_to_evm_block_num L (Some m) (nb_timestamp nb) = Inr (lib_evm_block_num L m (nb_timestamp nb))"
  by (auto simp: timestamp_to_evm_block_num_def native_ok_def)

lemma timestamp_num_Inr:
  "timestamp_to_evm_block_num L (Some m) t = Inr n \<Longrightarrow> n = lib_evm_block_num L m t"
  by (auto simp: timestamp_to_evm_block_num_def split: if_splits)

lemma unat_ucast_32_64 [simp]: "unat (ucast (a :: u32) :: u64) = unat a"
proof -
  have "unat a < 2 ^ 32" by (rule order_less_le_trans [OF unsigned_less]) simp
  then show ?thesis by (simp add: unsigned_ucast_eq take_bit_nat_eq_self_iff)
qed

lemma ucast_32_64_eq [simp]: "(ucast (a :: u32) :: u64) = ucast b \<longleftrightarrow> a = b"
  by (simp add: word_unat_eq_iff)

lemma ucast_32_64_less [simp]: "(ucast (a :: u32) :: u64) < ucast b \<longleftrightarrow> a < b"
  by (simp add: word_less_nat_alt)

section \<open>Removing EVM blocks\<close>

lemma remove_forked_evm_blocks_spec:
  assumes "native_ok L m f"
  obtains es1 d where "remove_forked_evm_blocks L (Some m) f es = Inr es1" "es = es1 @ d"
    "\<forall>e \<in> set d. evm_num_of L m f < blk_number e"
    "es1 \<noteq> [] \<longrightarrow> blk_number (last es1) \<le> evm_num_of L m f"
proof -
  have "\<exists>es1 d. remove_forked_evm_blocks L (Some m) f es = Inr es1 \<and> es = es1 @ d \<and>
    (\<forall>e \<in> set d. evm_num_of L m f < blk_number e) \<and>
    (es1 \<noteq> [] \<longrightarrow> blk_number (last es1) \<le> evm_num_of L m f)" (is "\<exists>es1 d. ?P es es1 d")
  proof (induction es rule: rev_induct)
    case Nil
    then show ?case by (simp add: remove_forked_evm_blocks.simps)
  next
    case (snoc e es)
    note unfold = remove_forked_evm_blocks.simps [of L "Some m" f "es @ [e]"]
    show ?case
    proof (cases "evm_num_of L m f < blk_number e")
      case True
      then have eq: "remove_forked_evm_blocks L (Some m) f (es @ [e]) =
          remove_forked_evm_blocks L (Some m) f es"
        using assms by (simp add: unfold timestamp_num evm_num_of_def)
      from snoc obtain es1 d where P: "remove_forked_evm_blocks L (Some m) f es = Inr es1"
        "es @ [e] = es1 @ d @ [e]" "\<forall>e \<in> set d. evm_num_of L m f < blk_number e"
        "es1 \<noteq> [] \<longrightarrow> blk_number (last es1) \<le> evm_num_of L m f" by auto
      have "\<forall>e \<in> set (d @ [e]). evm_num_of L m f < blk_number e" using P(3) True by simp
      with P(1,2,4) have "?P (es @ [e]) es1 (d @ [e])" unfolding eq by blast
      then show ?thesis by blast
    next
      case False
      with assms have "?P (es @ [e]) (es @ [e]) []"
        by (auto simp: unfold timestamp_num evm_num_of_def)
      then show ?thesis by blast
    qed
  qed
  with that show ?thesis by blast
qed

section \<open>Removing transactions\<close>

lemma rfold_concat: "rfold (\<lambda>trx. rfold f (g trx)) xs s = rfold f (concat (map g xs)) s"
proof (induction xs arbitrary: s)
  case (Cons x xs)
  then have "rfold (\<lambda>trx. rfold f (g trx)) xs = rfold f (concat (map g xs))" by auto
  then show ?case by (simp add: rfold_append)
qed simp

lemma for_each_action_eq: "for_each_action nb f s = rfold f (nb_actions nb) s"
  by (simp add: for_each_action_def nb_actions_def rfold_concat)

lemma for_each_reverse_action_eq: "for_each_reverse_action nb f s = rfold f (rev (nb_actions nb)) s"
  by (simp add: for_each_reverse_action_def nb_actions_def rfold_concat rev_concat rev_map o_def)

text \<open>The last EVM block with other transactions.\<close>

definition with_last_txs :: "'tx block list \<Rightarrow> 'tx list \<Rightarrow> 'tx block list" where
  "with_last_txs es txs = butlast es @ [(last es)\<lparr>blk_transactions := txs\<rparr>]"

lemma with_last_txs_simps [simp]:
  "with_last_txs es txs \<noteq> []"
  "last (with_last_txs es txs) = (last es)\<lparr>blk_transactions := txs\<rparr>"
  "butlast (with_last_txs es txs) = butlast es"
  "with_last_txs (with_last_txs es txs) txs' = with_last_txs es txs'"
  by (simp_all add: with_last_txs_def)

lemma with_last_txs_same: "es \<noteq> [] \<Longrightarrow> with_last_txs es (blk_transactions (last es)) = es"
  by (simp add: with_last_txs_def)

lemma remove_transaction_Inr:
  assumes "remove_transaction L act es = Inr es'"
  shows "\<exists>txs t. blk_transactions (last es) = txs @ [t] \<and> es' = with_last_txs es txs"
proof -
  from assms have "blk_transactions (last es) \<noteq> []"
    and "es' = with_last_txs es (butlast (blk_transactions (last es)))"
    by (auto simp: remove_transaction_def Let_def res_simps with_last_txs_def split: if_splits)
  then show ?thesis by (intro exI [of _ "butlast (blk_transactions (last es))"]) (auto intro: exI [of _ "last (blk_transactions (last es))"])
qed

lemma remove_transactions_Inr:
  assumes "rfold (remove_transaction L) acts es = Inr es'" "es \<noteq> []"
  shows "\<exists>txs popped. blk_transactions (last es) = txs @ popped \<and>
    length popped = length acts \<and> es' = with_last_txs es txs"
  using assms
proof (induction acts arbitrary: es)
  case Nil
  then show ?case by (auto simp: with_last_txs_same)
next
  case (Cons a acts)
  from Cons.prems(1) obtain es1 where 1: "remove_transaction L a es = Inr es1"
    and 2: "rfold (remove_transaction L) acts es1 = Inr es'" by (auto simp: res_simps)
  from remove_transaction_Inr [OF 1] obtain txs t where
    t: "blk_transactions (last es) = txs @ [t]" "es1 = with_last_txs es txs" by blast
  from Cons.IH [OF 2] t obtain txs' popped where
    "txs = txs' @ popped" "length popped = length acts" "es' = with_last_txs es txs'" by auto
  with t show ?case by (intro exI [of _ txs'] exI [of _ "popped @ [t]"]) simp
qed

text \<open>
  The test of a removal: the transaction that was decoded, encoded again without a wrapper, has the
  hash of the bytes it was decoded from. Transactions are decoded with or without a wrapper, so
  one can be added that does not pass it.
\<close>

definition removable :: "'tx lib \<Rightarrow> native_action \<Rightarrow> bool" where
  "removable L act \<longleftrightarrow>
     (case deserialize_tx L act of
        Inl e \<Rightarrow> True
      | Inr dtx \<Rightarrow>
          (case lib_rlp_decode L (dtx_rlpx dtx) of
             None \<Rightarrow> True
           | Some t \<Rightarrow> lib_keccak256 L (lib_rlp_encode L t) = lib_keccak256 L (dtx_rlpx dtx)))"

abbreviation removal_error :: err where
  "removal_error \<equiv> Runtime_error ''Unable to remove transaction''"

lemma remove_transactions_exact:
  assumes "list_all2 (tx_of L) acts txs" "es \<noteq> []" "blk_transactions (last es) = pre @ txs"
  shows "rfold (remove_transaction L) (rev acts) es =
    (if list_all (removable L) acts then Inr (with_last_txs es pre) else Inl removal_error)"
  using assms
proof (induction acts arbitrary: es txs rule: rev_induct)
  case Nil
  then have "pre = blk_transactions (last es)" by simp
  with Nil(2) show ?case by (simp add: with_last_txs_same)
next
  case (snoc a acts)
  from snoc.prems(1) obtain us t where u: "txs = us @ [t]" "list_all2 (tx_of L) acts us" "tx_of L a t"
    by (auto simp: list_all2_append1 list_all2_Cons1)
  then obtain dtx where dtx: "deserialize_tx L a = Inr dtx" "lib_rlp_decode L (dtx_rlpx dtx) = Some t"
    by (auto simp: tx_of_def)
  with u snoc.prems have "remove_transaction L a es =
      (if removable L a then Inr (with_last_txs es (pre @ us)) else Inl removal_error)"
    by (auto simp: remove_transaction_def removable_def with_last_txs_def back_of_def butlast_append)
  then show ?case
    using snoc.IH [OF u(2), of "with_last_txs es (pre @ us)"] by simp
qed

section \<open>Removing native blocks\<close>

lemma remove_transactions_of_Inr:
  assumes "remove_transactions_of L (Some m) f nb es = Inr es'" "native_ok L m f" "native_ok L m nb"
  shows "(es = [] \<longrightarrow> es' = []) \<and>
    (es \<noteq> [] \<longrightarrow> (\<exists>txs popped. blk_transactions (last es) = txs @ popped \<and>
       length popped = length (actions_at L m (evm_num_of L m f) [nb]) \<and> es' = with_last_txs es txs))"
proof (cases "evm_num_of L m nb = evm_num_of L m f \<and> nb_transactions nb \<noteq> []")
  case True
  with assms have "es \<noteq> []" "for_each_reverse_action nb (remove_transaction L) es = Inr es'"
    by (auto simp: remove_transactions_of_def timestamp_num evm_num_of_def refuse_rollback_def
        res_simps split: if_splits)
  with remove_transactions_Inr [of L "rev (nb_actions nb)" es es'] True show ?thesis
    by (simp add: for_each_reverse_action_eq actions_at_def natives_at_def)
next
  case False
  with assms have "es' = es"
    by (auto simp: remove_transactions_of_def timestamp_num evm_num_of_def split: if_splits)
  moreover from False have "actions_at L m (evm_num_of L m f) [nb] = []"
    by (auto simp: actions_at_def natives_at_def nb_actions_def)
  ultimately show ?thesis by (auto simp: with_last_txs_same)
qed

lemma remove_forked_native_blocks_stop:
  "nb_id f = nb_id (last ns) \<Longrightarrow> remove_forked_native_blocks L bm f ns es = Inr (ns, es)"
  by (simp add: remove_forked_native_blocks.simps [of L bm f ns])

lemma remove_forked_native_blocks_step:
  "nb_id nb \<noteq> nb_id f \<Longrightarrow> remove_forked_native_blocks L bm f (ns @ [nb]) es =
     rbind (remove_transactions_of L bm f nb es) (remove_forked_native_blocks L bm f ns)"
  by (simp add: remove_forked_native_blocks.simps [of L bm f "ns @ [nb]"])

lemma remove_forked_native_blocks_Inr:
  assumes "remove_forked_native_blocks L (Some m) f (p @ f # r) es = Inr (ns', es')"
    "native_ok L m f" "\<forall>nb \<in> set r. native_ok L m nb \<and> nb_id nb \<noteq> nb_id f"
  shows "ns' = p @ [f] \<and> (es = [] \<longrightarrow> es' = []) \<and>
    (es \<noteq> [] \<longrightarrow> (\<exists>txs popped. blk_transactions (last es) = txs @ popped \<and>
       length popped = length (actions_at L m (evm_num_of L m f) r) \<and> es' = with_last_txs es txs))"
  using assms(1,3)
proof (induction r arbitrary: es rule: rev_induct)
  case Nil
  then show ?case
    by (auto simp: remove_forked_native_blocks_stop actions_at_def natives_at_def with_last_txs_same)
next
  case (snoc nb r)
  have step: "remove_forked_native_blocks L (Some m) f (p @ f # r @ [nb]) es =
      rbind (remove_transactions_of L (Some m) f nb es) (remove_forked_native_blocks L (Some m) f (p @ f # r))"
    using remove_forked_native_blocks_step [of nb f L "Some m" "p @ f # r" es] snoc.prems(2) by simp
  from snoc.prems(1) obtain es1 where 1: "remove_transactions_of L (Some m) f nb es = Inr es1"
    and 2: "remove_forked_native_blocks L (Some m) f (p @ f # r) es1 = Inr (ns', es')"
    unfolding step by (auto simp: res_simps)
  have nb: "native_ok L m nb" using snoc.prems by simp
  note r1 = remove_transactions_of_Inr [OF 1 assms(2) nb]
  note r2 = snoc.IH [OF 2]
  show ?case
  proof (cases "es = []")
    case True
    with r1 r2 snoc.prems show ?thesis by auto
  next
    case False
    with r1 obtain txs popped where t: "blk_transactions (last es) = txs @ popped"
      "length popped = length (actions_at L m (evm_num_of L m f) [nb])" "es1 = with_last_txs es txs"
      by blast
    with r2 snoc.prems obtain txs' popped' where "txs = txs' @ popped'"
      "length popped' = length (actions_at L m (evm_num_of L m f) r)"
      "es' = with_last_txs es txs'" "ns' = p @ [f]" by auto
    with t False show ?thesis
      by (intro conjI impI exI [of _ txs'] exI [of _ "popped' @ popped"]) simp_all
  qed
qed

lemma remove_transactions_of_exact:
  assumes "native_ok L m f" "native_ok L m nb" "es \<noteq> []" "blk_number (last es) = evm_num_of L m f"
    and "list_all2 (tx_of L) (actions_at L m (evm_num_of L m f) [nb]) popped"
    and "blk_transactions (last es) = txs @ popped"
  shows "remove_transactions_of L (Some m) f nb es =
    (if list_all (removable L) (actions_at L m (evm_num_of L m f) [nb]) then Inr (with_last_txs es txs)
     else Inl removal_error)"
proof (cases "evm_num_of L m nb = evm_num_of L m f \<and> nb_transactions nb \<noteq> []")
  case True
  then have a: "actions_at L m (evm_num_of L m f) [nb] = nb_actions nb"
    by (simp add: actions_at_def natives_at_def)
  from remove_transactions_exact [OF assms(5) [unfolded a] assms(3,6)] True assms(1-4) show ?thesis
    unfolding a by (simp add: remove_transactions_of_def timestamp_num evm_num_of_def for_each_reverse_action_eq)
next
  case False
  then have a: "actions_at L m (evm_num_of L m f) [nb] = []"
    by (auto simp: actions_at_def natives_at_def nb_actions_def)
  with assms have "txs = blk_transactions (last es)" by simp
  with False assms(1-4) a show ?thesis
    by (auto simp: remove_transactions_of_def timestamp_num evm_num_of_def with_last_txs_same)
qed

lemma remove_forked_native_blocks_exact:
  assumes "native_ok L m f" "\<forall>nb \<in> set r. native_ok L m nb \<and> nb_id nb \<noteq> nb_id f"
    and "es \<noteq> []" "blk_number (last es) = evm_num_of L m f"
    and "list_all2 (tx_of L) (actions_at L m (evm_num_of L m f) r) popped"
    and "blk_transactions (last es) = txs @ popped"
  shows "remove_forked_native_blocks L (Some m) f (p @ f # r) es =
    (if list_all (removable L) (actions_at L m (evm_num_of L m f) r) then Inr (p @ [f], with_last_txs es txs)
     else Inl removal_error)"
  using assms(2-)
proof (induction r arbitrary: es popped rule: rev_induct)
  case Nil
  then have "txs = blk_transactions (last es)" by (simp add: actions_at_def natives_at_def)
  with Nil.prems(2) show ?case
    by (simp add: remove_forked_native_blocks_stop with_last_txs_same actions_at_def natives_at_def)
next
  case (snoc nb r)
  let ?k = "evm_num_of L m f"
  from snoc.prems(4) obtain p1 p2 where pp: "popped = p1 @ p2"
    "list_all2 (tx_of L) (actions_at L m ?k r) p1" "list_all2 (tx_of L) (actions_at L m ?k [nb]) p2"
    by (auto simp: list_all2_append1)
  have nb: "native_ok L m nb" and ne: "nb_id nb \<noteq> nb_id f" using snoc.prems(1) by simp_all
  have "remove_transactions_of L (Some m) f nb es =
      (if list_all (removable L) (actions_at L m ?k [nb]) then Inr (with_last_txs es (txs @ p1)) else Inl removal_error)"
    using snoc.prems pp nb assms(1) by (intro remove_transactions_of_exact) simp_all
  moreover have "remove_forked_native_blocks L (Some m) f (p @ f # r) (with_last_txs es (txs @ p1)) =
      (if list_all (removable L) (actions_at L m ?k r)
       then Inr (p @ [f], with_last_txs (with_last_txs es (txs @ p1)) txs) else Inl removal_error)"
    using snoc.prems pp by (intro snoc.IH) simp_all
  ultimately show ?case
    using remove_forked_native_blocks_step [of nb f L "Some m" "p @ f # r" es] ne by simp
qed

section \<open>The rollback keeps the invariants\<close>

text \<open>The view of an EVM block whose last native block is \<open>nb\<close>.\<close>

definition with_bound :: "'tx view \<Rightarrow> 'tx list \<Rightarrow> native_block \<Rightarrow> 'tx view" where
  "with_bound v txs nb = v\<lparr>vw_txs := txs, vw_id := nb_id nb,
     vw_irreversible := nb_block_num nb \<le> nb_lib nb\<rparr>"

lemma with_bound_simps [simp]:
  "vw_number (with_bound v txs nb) = vw_number v" "vw_txs (with_bound v txs nb) = txs"
  "vw_id (with_bound v txs nb) = nb_id nb"
  "vw_irreversible (with_bound v txs nb) = (nb_block_num nb \<le> nb_lib nb)"
  by (simp_all add: with_bound_def)

lemma bound_ok_with_bound:
  "evm_num_of L m nb = vw_number v \<Longrightarrow> bound_ok L m i (ns @ [nb]) (with_bound v txs nb)"
  by (simp add: bound_ok_def natives_at_def)

lemma linked_succ_less:
  "linked succ_number (us @ v # d) \<Longrightarrow> u \<in> set us \<Longrightarrow> vw_number u < vw_number v"
  by (rule linked_less [where r = succ_number and xs = us and ys = "v # d"]) (auto simp: succ_number_def)

lemma actions_at_append_other:
  assumes "\<forall>x \<in> set r. evm_num_of L m x \<noteq> k"
  shows "natives_at L m k (ns @ r) = natives_at L m k ns" "actions_at L m k (ns @ r) = actions_at L m k ns"
  using assms by (simp_all add: natives_at_none actions_at_def)

lemma view_inv_rollback:
  assumes inv: "view_inv L m s i (p @ f # r) (us @ v # d)"
    and k: "vw_number v = evm_num_of L m f"
    and txs: "vw_txs v = txs @ popped" "length popped = length (actions_at L m (evm_num_of L m f) r)"
  shows "view_inv L m s i (p @ [f]) (us @ [with_bound v txs f])"
proof -
  let ?v = "with_bound v txs f"
  have core: "core_inv L m s i ((p @ [f]) @ r) (us @ v # d)" using inv by (simp add: view_inv_def)
  have chain: "native_chain L m ((p @ [f]) @ r)" and succ: "linked succ_number (us @ v # d)"
    and faith: "faithful L m s ((p @ [f]) @ r) (us @ v # d)"
    and bnd: "\<forall>u \<in> set us. bound_ok L m i ((p @ [f]) @ r) u"
    and al: "aligned L m i ((p @ [f]) @ r) (us @ v # d)"
    using core by (auto simp: core_inv_def)
  have le_f: "evm_num_of L m x \<le> evm_num_of L m f" if "x \<in> set (p @ [f])" for x
    using chain_mono [of L m p "f # r" x f] chain that by auto
  have other: "\<forall>x \<in> set r. evm_num_of L m x \<noteq> vw_number u" if "u \<in> set us" for u
    using chain_mono [OF chain, of f] linked_succ_less [OF succ that] k by fastforce
  note below = actions_at_append_other [OF other, where ns = "p @ [f]"]
  have "native_chain L m (p @ [f])" using chain unfolding native_chain_append [of _ _ "p @ [f]" r] by blast
  moreover have "linked succ_number (us @ [?v])"
    using succ by (auto simp: linked_append succ_number_def)
  moreover have "faithful L m s (p @ [f]) (us @ [?v])"
    unfolding faithful_def
  proof
    fix u assume "u \<in> set (us @ [?v])"
    then consider "u \<in> set us" | "u = ?v" by auto
    then show "\<exists>pre ts. vw_txs u = pre @ ts \<and>
        list_all2 (tx_of L) (actions_at L m (vw_number u) (p @ [f])) ts \<and> (vw_number u \<noteq> s \<longrightarrow> pre = [])"
    proof cases
      case 1
      with faith have "\<exists>pre ts. vw_txs u = pre @ ts \<and>
        list_all2 (tx_of L) (actions_at L m (vw_number u) ((p @ [f]) @ r)) ts \<and> (vw_number u \<noteq> s \<longrightarrow> pre = [])"
        unfolding faithful_def by simp
      then show ?thesis unfolding below(2) [OF 1] .
    next
      case 2
      from faith k obtain pre ts where ts: "vw_txs v = pre @ ts" "vw_number v \<noteq> s \<longrightarrow> pre = []"
        "list_all2 (tx_of L) (actions_at L m (vw_number v) (p @ [f]) @ actions_at L m (vw_number v) r) ts"
        unfolding faithful_def actions_at_append by force
      from ts(3) obtain t1 t2 where t: "ts = t1 @ t2"
        "list_all2 (tx_of L) (actions_at L m (vw_number v) (p @ [f])) t1"
        "list_all2 (tx_of L) (actions_at L m (vw_number v) r) t2"
        unfolding list_all2_append1 by blast
      have "length t2 = length popped" using list_all2_lengthD [OF t(3)] txs(2) k by simp
      moreover have "(pre @ t1) @ t2 = txs @ popped" using ts(1) t(1) txs(1) by simp
      ultimately have "txs = pre @ t1" by (metis append_eq_append_conv)
      with 2 ts t show ?thesis by auto
    qed
  qed
  moreover have "bound_ok L m i (p @ [f]) u" if "u \<in> set us" for u
    using bspec [OF bnd that] unfolding bound_ok_def below(1) [OF that] .
  moreover have "bound_ok L m i (p @ [f]) ?v" using k by (intro bound_ok_with_bound) simp
  moreover have "aligned L m i (p @ [f]) (us @ [?v])"
  proof -
    have "hd (p @ [f]) = hd ((p @ [f]) @ r)" "vw_number (hd (us @ [?v])) = vw_number (hd (us @ v # d))"
      by (simp_all add: hd_append)
    with al have "vw_number (hd (us @ [?v])) \<le> evm_num_of L m (hd (p @ [f]))"
      by (simp only: aligned_def)
    then show ?thesis using le_f k by (simp add: aligned_def leD)
  qed
  ultimately show ?thesis using k by (simp add: view_inv_def core_inv_def)
qed

lemma native_chain_ok: "native_chain L m ns \<Longrightarrow> nb \<in> set ns \<Longrightarrow> native_ok L m nb"
  by (simp add: native_chain_def)

lemma native_chain_after:
  assumes "native_chain L m (p @ f # r)"
  shows "native_ok L m f" "\<forall>nb \<in> set r. native_ok L m nb \<and> nb_id nb \<noteq> nb_id f"
proof -
  show "native_ok L m f" using assms by (simp add: native_chain_def)
  have "native_chain L m ((p @ [f]) @ r)" using assms by simp
  then have "nb_id nb \<noteq> nb_id f" if "nb \<in> set r" for nb
    using chain_ids [of L m "p @ [f]" r f nb] that by simp
  with assms show "\<forall>nb \<in> set r. native_ok L m nb \<and> nb_id nb \<noteq> nb_id f"
    by (simp add: native_chain_def)
qed

lemma view_of_rolled_back:
  "view_of (set_upper_bound (b\<lparr>blk_transactions := txs\<rparr>) nb) = with_bound (view_of b) txs nb"
  by (simp add: view_of_def set_upper_bound_def with_bound_def extract_as_byte_array_def)

text \<open>A rollback that succeeds: what is left, and that the invariant holds of it.\<close>

lemma rollback_Inr:
  assumes inv: "view_inv L m s i (p @ f # r) (map view_of es)"
    and rb: "rollback L (Some m) f (p @ f # r) es = Inr (ns', es')"
  obtains us e d txs popped where "ns' = p @ [f]" "es = us @ e # d" "blk_number e = evm_num_of L m f"
    "blk_transactions e = txs @ popped" "length popped = length (actions_at L m (evm_num_of L m f) r)"
    "es' = us @ [set_upper_bound (e\<lparr>blk_transactions := txs\<rparr>) f]"
    "view_inv L m s i (p @ [f]) (map view_of es')"
proof -
  have chain: "native_chain L m (p @ f # r)" using inv by (simp add: view_inv_def core_inv_def)
  note ok = native_chain_after [OF chain]
  obtain es1 d where es1: "remove_forked_evm_blocks L (Some m) f es = Inr es1" "es = es1 @ d"
    using remove_forked_evm_blocks_spec [OF ok(1)] by metis
  from rb es1(1) obtain ns2 es2 where
    nat: "remove_forked_native_blocks L (Some m) f (p @ f # r) es1 = Inr (ns2, es2)"
    by (auto simp: rollback_def res_simps)
  note spec = remove_forked_native_blocks_Inr [OF nat ok]
  have ne: "es1 \<noteq> []"
    using rb es1 nat spec by (auto simp: rollback_def refuse_rollback_def res_simps)
  with spec obtain txs popped where txs: "blk_transactions (last es1) = txs @ popped"
    "length popped = length (actions_at L m (evm_num_of L m f) r)" "es2 = with_last_txs es1 txs"
    and ns2: "ns2 = p @ [f]" by blast
  define us e where "us = butlast es1" and "e = last es1"
  have e: "es1 = us @ [e]" using ne by (simp add: us_def e_def)
  have es': "blk_number e = evm_num_of L m f" "ns' = p @ [f]"
    "es' = us @ [set_upper_bound (e\<lparr>blk_transactions := txs\<rparr>) f]"
    using rb es1(1) nat txs(3) ns2 ok(1) e
    by (auto simp: rollback_def res_simps back_of_def timestamp_num evm_num_of_def
        refuse_rollback_def split: if_splits)
  have "view_inv L m s i (p @ [f]) (map view_of us @ [with_bound (view_of e) txs f])"
    using inv txs e es'(1) es1(2)
    by (intro view_inv_rollback [where r = r and d = "map view_of d" and popped = popped]) simp_all
  then show thesis
    using that [of us e d txs popped] es' e es1(2) txs(1,2) by (simp add: view_of_rolled_back)
qed

lemma succ_number_covers:
  assumes "linked succ_number vs" "vs \<noteq> []" "vw_number (hd vs) \<le> k" "k \<le> vw_number (last vs)"
  shows "\<exists>v \<in> set vs. vw_number v = k"
  using assms
proof (induction vs)
  case (Cons a vs)
  show ?case
  proof (cases "vw_number a = k \<or> vs = []")
    case False
    then obtain b bs where vs: "vs = b # bs" by (cases vs) auto
    with Cons.prems have "vw_number b = vw_number a + 1" by (simp add: succ_number_def)
    moreover from False Cons.prems have "vw_number a < k" by auto
    ultimately have "vw_number b \<le> k" by (simp add: inc_le)
    with Cons vs show ?thesis by simp
  qed (use Cons.prems in auto)
qed simp

text \<open>
  When the invariant holds, the EVM block of the fork point is cached, and it ends with the
  transactions to be removed. So the rollback fails exactly when one of them cannot be removed.
\<close>

lemma rollback_exact:
  assumes inv: "view_inv L m s i (p @ f # r) (map view_of es)" and r: "r \<noteq> []"
  shows "\<exists>es'. rollback L (Some m) f (p @ f # r) es =
    (if list_all (removable L) (actions_at L m (evm_num_of L m f) r) then Inr (p @ [f], es') else Inl removal_error)"
proof -
  let ?k = "evm_num_of L m f"
  have core: "core_inv L m s i (p @ f # r) (map view_of es)" using inv by (simp add: view_inv_def)
  then have chain: "native_chain L m (p @ f # r)" and succ: "linked succ_number (map view_of es)"
    and faith: "faithful L m s (p @ f # r) (map view_of es)" and es: "es \<noteq> []"
    and al: "aligned L m i (p @ f # r) (map view_of es)" by (auto simp: core_inv_def)
  note ok = native_chain_after [OF chain]
  obtain es1 d where es1: "remove_forked_evm_blocks L (Some m) f es = Inr es1" "es = es1 @ d"
    "\<forall>e \<in> set d. ?k < blk_number e" "es1 \<noteq> [] \<longrightarrow> blk_number (last es1) \<le> ?k"
    using remove_forked_evm_blocks_spec [OF ok(1)] by metis
  have hd: "blk_number (hd es) \<le> ?k"
  proof -
    have "evm_num_of L m (hd (p @ f # r)) \<le> ?k"
      using chain_mono [of L m p "f # r" "hd p" f] chain by (cases p) auto
    with al es show ?thesis by (auto simp: aligned_def hd_map)
  qed
  have last: "?k \<le> blk_number (last es)"
  proof (rule ccontr)
    assume "\<not> ?k \<le> blk_number (last es)"
    then have less: "blk_number (last es) < ?k" by simp
    obtain x where x: "x \<in> set r" using r by (cases r) auto
    have "?k \<le> evm_num_of L m x" using chain_mono [of L m "p @ [f]" r f x] chain x by simp
    with less have "blk_number (last es) < evm_num_of L m x" by simp
    with less al es x have "nb_id f = i" "nb_id x = i"
      by (auto simp: aligned_def last_map)
    with ok(2) x show False by auto
  qed
  obtain e0 where e0: "e0 \<in> set es" "blk_number e0 = ?k"
    using succ_number_covers [OF succ, of ?k] es hd last by (auto simp: hd_map last_map)
  with es1 have "e0 \<in> set es1" by auto
  then have ne: "es1 \<noteq> []" by auto
  have "linked succ_number (map view_of es1)" using succ es1(2) by (simp add: linked_append)
  then have "vw_number (view_of e0) \<le> vw_number (last (map view_of es1))"
    by (rule linked_le_last) (use \<open>e0 \<in> set es1\<close> in \<open>auto simp: succ_number_def less_imp_le\<close>)
  then have "blk_number e0 \<le> blk_number (last es1)" using ne by (simp add: last_map)
  with e0 es1(4) ne have num: "blk_number (last es1) = ?k" by auto
  have "view_of (last es1) \<in> set (map view_of es)" using ne es1(2) by simp
  with faith num obtain pre ts where "blk_transactions (last es1) = pre @ ts"
    "list_all2 (tx_of L) (actions_at L m ?k (p @ [f]) @ actions_at L m ?k r) ts"
    unfolding faithful_def by (fastforce simp flip: actions_at_append)
  then obtain t1 t2 where "blk_transactions (last es1) = (pre @ t1) @ t2"
    "list_all2 (tx_of L) (actions_at L m ?k r) t2" unfolding list_all2_append1 by auto
  note remove_forked_native_blocks_exact [OF ok ne num this(2,1), of p]
  with es1(1) num ok(1) show ?thesis
    by (simp add: rollback_def back_of_def timestamp_num evm_num_of_def)
qed

end
