(* ===== verification/Conversion_Extension.thy ===== *)
theory Conversion_Extension
  imports Conversion_Rollback
begin

text \<open>
  The extension of the EVM chain, the filling of its last block and the removal of
  irreversible blocks: what each does to the view, and that each keeps the invariants.
\<close>

section \<open>Extending the EVM chain\<close>

lemma close_evm_block_simps [simp]:
  "view_of (close_evm_block L b) = view_of b"
  "hd_parent_hash (blk_header (close_evm_block L b)) = hd_parent_hash (blk_header b)"
  "blk_transactions (close_evm_block L b) = blk_transactions b"
  "hd_transactions_root (blk_header (close_evm_block L b)) = lib_root_hash L (blk_transactions b)"
  "blk_number (close_evm_block L b) = blk_number b"
  by (simp_all add: close_evm_block_def view_of_def compute_transaction_root_def)

lemma generate_new_evm_block_spec:
  assumes "header_prepared L" "default_block_empty L"
  obtains b where "generate_new_evm_block L db (Some m) cname e = Inr b"
    "blk_number b = blk_number e + 1" "blk_transactions b = []"
    "hd_parent_hash (blk_header b) = lib_header_hash L (blk_header e)"
  using assms
  by (auto simp: generate_new_evm_block_def Let_def header_prepared_def default_block_empty_def
      split: option.splits)

lemma u64_less_succ: "x < y \<Longrightarrow> x < x + 1" for x y :: u64
proof -
  assume "x < y"
  moreover have "unat y < 2 ^ 64" by (rule order_less_le_trans [OF unsigned_less]) simp
  ultimately have "unat x + 1 < 2 ^ 64" by (simp add: word_less_nat_alt)
  then show "x < x + 1" by (simp add: word_less_nat_alt unat_word_ariths)
qed

text \<open>
  The loop ends, closes and publishes every block it succeeds, and appends empty blocks up to
  the required number.
\<close>

definition extended :: "'tx lib \<Rightarrow> u64 \<Rightarrow> 'tx block list \<Rightarrow> 'tx block list \<Rightarrow> 'tx block list \<Rightarrow> bool" where
  "extended L n es es' ps \<longleftrightarrow>
     es' \<noteq> [] \<and> butlast es' = butlast es @ ps \<and>
     (\<exists>fresh. map view_of es' = map view_of es @ map view_of fresh \<and>
        (\<forall>e \<in> set fresh. blk_transactions e = [] \<and> blk_number (last es) < blk_number e) \<and>
        linked succ_number (map view_of (last es # fresh))) \<and>
     blk_number (last es') = max (blk_number (last es)) n \<and>
     (\<forall>q \<in> set ps. hd_transactions_root (blk_header q) = lib_root_hash L (blk_transactions q)) \<and>
     (hash_linked L es \<longrightarrow> hash_linked L es') \<and>
     hd_parent_hash (blk_header (hd es')) = hd_parent_hash (blk_header (hd es))"

lemma extended_refl: "es \<noteq> [] \<Longrightarrow> n \<le> blk_number (last es) \<Longrightarrow> extended L n es es []"
  by (auto simp: extended_def max_def intro: exI [of _ "[]"])

lemma extended_step:
  assumes ext: "extended L n (butlast es @ [close_evm_block L (last es), b]) es' ps"
    and es: "es \<noteq> []" and less: "blk_number (last es) < n"
    and b: "blk_number b = blk_number (last es) + 1" "blk_number (last es) < blk_number b"
      "blk_transactions b = []"
      "hd_parent_hash (blk_header b) = lib_header_hash L (blk_header (close_evm_block L (last es)))"
      "blk_number b \<le> n"
  shows "extended L n es es' (close_evm_block L (last es) # ps)"
proof -
  let ?c = "close_evm_block L (last es)"
  have split: "butlast es @ [?c, b] = (butlast es @ [?c]) @ [b]" by simp
  obtain us e where ue: "es = us @ [e]" using es by (cases es rule: rev_cases) auto
  from ext obtain fresh where f: "map view_of es' = map view_of us @ view_of e # view_of b # map view_of fresh"
    "\<forall>x \<in> set fresh. blk_transactions x = [] \<and> blk_number b < blk_number x"
    "linked succ_number (view_of b # map view_of fresh)"
    by (auto simp: extended_def ue)
  show ?thesis
    unfolding extended_def
  proof (intro conjI)
    show "es' \<noteq> []" "butlast es' = butlast es @ ?c # ps"
      using ext by (simp_all add: extended_def ue butlast_append)
    show "\<exists>fresh. map view_of es' = map view_of es @ map view_of fresh \<and>
        (\<forall>e \<in> set fresh. blk_transactions e = [] \<and> blk_number (last es) < blk_number e) \<and>
        linked succ_number (map view_of (last es # fresh))"
      using f b by (intro exI [of _ "b # fresh"]) (auto simp: ue succ_number_def)
    show "blk_number (last es') = max (blk_number (last es)) n"
      using ext less b by (simp add: extended_def max_def less_imp_le)
    show "\<forall>q \<in> set (?c # ps). hd_transactions_root (blk_header q) = lib_root_hash L (blk_transactions q)"
      using ext by (simp add: extended_def)
    show "hash_linked L es \<longrightarrow> hash_linked L es'"
      using ext b by (auto simp: extended_def ue hash_linked_def linked_append)
    show "hd_parent_hash (blk_header (hd es')) = hd_parent_hash (blk_header (hd es))"
      using ext by (cases us) (auto simp: extended_def ue)
  qed
qed

lemma extend_evm_chain_spec:
  assumes L: "header_prepared L" "default_block_empty L" and "es \<noteq> []"
  obtains es' ps where
    "extend_evm_chain L db (Some m) cname n es pub = Some (Inr (es', pub @ ps))"
    "extended L (ucast n) es es' ps"
proof -
  have "\<exists>es' ps. extend_evm_chain L db (Some m) cname n es pub = Some (Inr (es', pub @ ps)) \<and>
      extended L (ucast n) es es' ps"
    using assms(3)
  proof (induction "unat (ucast n :: u64) - unat (blk_number (last es))" arbitrary: es pub
      rule: less_induct)
    case less
    note unfold = extend_evm_chain.simps [of L db "Some m" cname n es pub]
    show ?case
    proof (cases "blk_number (last es) < ucast n")
      case True
      let ?c = "close_evm_block L (last es)"
      obtain b where b: "generate_new_evm_block L db (Some m) cname ?c = Inr b"
        "blk_number b = blk_number (last es) + 1" "blk_transactions b = []"
        "hd_parent_hash (blk_header b) = lib_header_hash L (blk_header ?c)"
        using generate_new_evm_block_spec [OF L, of db m cname ?c] by auto
      have lt: "blk_number (last es) < blk_number b" "blk_number b \<le> ucast n"
        using u64_less_succ [OF True] True b(2) by (simp_all add: inc_le)
      let ?es = "butlast es @ [?c, b]"
      have "unat (ucast n :: u64) - unat (blk_number (last ?es)) <
          unat (ucast n :: u64) - unat (blk_number (last es))"
        using lt True by (simp add: word_less_nat_alt word_le_nat_alt)
      from less.hyps [OF this, of "pub @ [?c]"] obtain es' ps where
        "extend_evm_chain L db (Some m) cname n ?es ((pub @ [?c])) = Some (Inr (es', (pub @ [?c]) @ ps))"
        "extended L (ucast n) ?es es' ps" by auto
      with True less.prems b lt extended_step [of L "ucast n" es b es' ps] show ?thesis
        by (intro exI [of _ es'] exI [of _ "?c # ps"]) (simp add: unfold Let_def)
    next
      case False
      with less.prems show ?thesis
        by (intro exI [of _ es] exI [of _ "[]"]) (simp add: unfold extended_refl)
    qed
  qed
  with that show thesis by blast
qed

lemma core_inv_extend:
  assumes inv: "core_inv L m s i ns vs"
    and fresh: "\<forall>v \<in> set fresh. vw_txs v = [] \<and> vw_number (last vs) < vw_number v"
      "linked succ_number (last vs # fresh)"
  shows "core_inv L m s i ns (vs @ fresh)"
proof -
  have vs: "vs \<noteq> []" and succ: "linked succ_number vs"
    and faith: "faithful L m s ns vs" and bnd: "\<forall>v \<in> set vs. bound_ok L m i ns v"
    and al: "aligned L m i ns vs" using inv by (auto simp: core_inv_def)
  have above: "nb_actions x = [] \<and> nb_id x = i"
    if "v \<in> set fresh" "x \<in> set ns" "evm_num_of L m x = vw_number v" for v x
    using that al fresh(1) by (auto simp: aligned_def)
  have "linked succ_number (vs @ fresh)"
  proof (cases fresh)
    case (Cons v fs)
    with fresh(2) vs succ show ?thesis by (simp add: linked_append)
  qed (simp add: succ)
  moreover have "faithful L m s ns (vs @ fresh)"
    unfolding faithful_def
  proof
    fix v assume "v \<in> set (vs @ fresh)"
    then consider "v \<in> set vs" | "v \<in> set fresh" by auto
    then show "\<exists>pre txs. vw_txs v = pre @ txs \<and>
        list_all2 (tx_of L) (actions_at L m (vw_number v) ns) txs \<and> (vw_number v \<noteq> s \<longrightarrow> pre = [])"
    proof cases
      case 1
      with faith show ?thesis by (simp add: faithful_def)
    next
      case 2
      then have "actions_at L m (vw_number v) ns = []"
        using above by (intro actions_at_empty) blast
      with 2 fresh(1) show ?thesis by simp
    qed
  qed
  moreover have "bound_ok L m i ns v" if "v \<in> set fresh" for v
  proof (cases "natives_at L m (vw_number v) ns = []")
    case False
    then have "last (natives_at L m (vw_number v) ns) \<in> set (natives_at L m (vw_number v) ns)"
      by (rule last_in_set)
    then have "nb_id (last (natives_at L m (vw_number v) ns)) = i"
      using above [OF that] by (simp add: natives_at_def)
    then show ?thesis by (simp add: bound_ok_def)
  qed (simp add: bound_ok_def)
  moreover have "aligned L m i ns (vs @ fresh)"
  proof (cases "fresh = []")
    case False
    then have "vw_number (last vs) < vw_number (last fresh)" using fresh(1) by simp
    with al vs False show ?thesis by (auto simp: aligned_def)
  qed (simp add: al)
  ultimately show ?thesis using inv bnd by (auto simp: core_inv_def)
qed

section \<open>Filling the last EVM block\<close>

lemma check_version_Inr:
  assumes "check_version L dtx (c, v) = Inr (c', v')"
  shows "blk_transactions c' = blk_transactions c \<and> blk_number c' = blk_number c \<and>
    hd_parent_hash (blk_header c') = hd_parent_hash (blk_header c) \<and> v \<le> v' \<and> v' = dtx_version dtx"
  using assms by (auto simp: check_version_def Let_def split: if_splits)

lemma set_block_gas_prices_Inr:
  assumes "set_block_gas_prices L dtx v c = Inr c'"
  shows "blk_transactions c' = blk_transactions c \<and> blk_number c' = blk_number c \<and>
    hd_parent_hash (blk_header c') = hd_parent_hash (blk_header c) \<and>
    hd_nonce (blk_header c') = hd_nonce (blk_header c)"
  using assms
  by (auto simp: set_block_gas_prices_def Let_def split: if_splits evmtx_type.splits option.splits)

lemma set_block_base_fee_Inr:
  assumes "set_block_base_fee dtx v c = Inr c'"
  shows "blk_transactions c' = blk_transactions c \<and> blk_number c' = blk_number c \<and>
    hd_parent_hash (blk_header c') = hd_parent_hash (blk_header c) \<and>
    hd_nonce (blk_header c') = hd_nonce (blk_header c)"
  using assms
  by (auto simp: set_block_base_fee_def Let_def split: if_splits evmtx_type.splits option.splits)

lemma add_transaction_Inr:
  assumes "add_transaction L act (c, v) = Inr (c', v')"
  shows "\<exists>t. tx_of L act t \<and> blk_transactions c' = blk_transactions c @ [t] \<and>
    blk_number c' = blk_number c \<and> hd_parent_hash (blk_header c') = hd_parent_hash (blk_header c)"
proof -
  from assms obtain dtx c1 v1 c2 t c3 where d: "deserialize_tx L act = Inr dtx"
    and 1: "check_version L dtx (c, v) = Inr (c1, v1)"
    and 2: "set_block_gas_prices L dtx v1 c1 = Inr c2"
    and t: "lib_rlp_decode L (dtx_rlpx dtx) = Some t"
    and 3: "set_block_base_fee dtx v1 c2 = Inr c3"
    and c': "c' = c3\<lparr>blk_transactions := blk_transactions c3 @ [t]\<rparr>"
    by (auto simp: add_transaction_def res_simps split: option.splits)
  from d t have "tx_of L act t" by (auto simp: tx_of_def)
  with check_version_Inr [OF 1] set_block_gas_prices_Inr [OF 2] set_block_base_fee_Inr [OF 3] c'
  show ?thesis by auto
qed

lemma add_transactions_Inr:
  assumes "rfold (add_transaction L) acts (c, v) = Inr (c', v')"
  shows "\<exists>ts. list_all2 (tx_of L) acts ts \<and> blk_transactions c' = blk_transactions c @ ts \<and>
    blk_number c' = blk_number c \<and> hd_parent_hash (blk_header c') = hd_parent_hash (blk_header c)"
  using assms
proof (induction acts arbitrary: c v)
  case (Cons a acts)
  from Cons.prems obtain c1 v1 where 1: "add_transaction L a (c, v) = Inr (c1, v1)"
    and 2: "rfold (add_transaction L) acts (c1, v1) = Inr (c', v')"
    by (auto simp: res_simps)
  from add_transaction_Inr [OF 1] Cons.IH [OF 2] show ?case by (metis (no_types, lifting)
    append.assoc append_Cons append_Nil list.rel_intros(2))
qed simp

lemma apply_new_config_Inr:
  assumes "apply_new_config L open nb c = Inr (c', effs)"
  shows "blk_transactions c' = blk_transactions c \<and> blk_header c' = blk_header c"
  using assms by (auto simp: apply_new_config_def Let_def res_simps split: option.splits if_splits)

lemma fill_evm_block_Inr:
  assumes "fill_evm_block L open nb c = Inr (c', effs)"
  obtains ts where "list_all2 (tx_of L) (nb_actions nb) ts"
    "view_of c' = with_bound (view_of c) (blk_transactions c @ ts) nb"
    "hd_parent_hash (blk_header c') = hd_parent_hash (blk_header c)"
proof -
  from assms obtain c1 c2 v where 1: "apply_new_config L open nb c = Inr (c1, effs)"
    and 2: "rfold (add_transaction L) (nb_actions nb)
      (c1, lib_nonce_to_version L (hd_nonce (blk_header c))) = Inr (c2, v)"
    and c': "c' = set_upper_bound c2 nb"
    by (auto simp: fill_evm_block_def Let_def res_simps for_each_action_eq)
  from add_transactions_Inr [OF 2] apply_new_config_Inr [OF 1] that c' show ?thesis
    by (auto simp: view_of_def with_bound_def set_upper_bound_def extract_as_byte_array_def)
qed

lemma core_inv_fill:
  assumes inv: "core_inv L m s i ns (us @ [v])"
    and b: "native_ok L m b" "child_of L m (last ns) b" "vw_number v = evm_num_of L m b"
    and ts: "list_all2 (tx_of L) (nb_actions b) ts"
  shows "view_inv L m s i (ns @ [b]) (us @ [with_bound v (vw_txs v @ ts) b])"
proof -
  let ?v = "with_bound v (vw_txs v @ ts) b"
  have ns: "ns \<noteq> []" and chain: "native_chain L m ns" and succ: "linked succ_number (us @ [v])"
    and faith: "faithful L m s ns (us @ [v])" and bnd: "\<forall>u \<in> set us. bound_ok L m i ns u"
    and al: "aligned L m i ns (us @ [v])" using inv by (auto simp: core_inv_def)
  have other: "\<forall>x \<in> set [b]. evm_num_of L m x \<noteq> vw_number u" if "u \<in> set us" for u
    using linked_succ_less [OF succ that] b(3) by simp
  note below = actions_at_append_other [OF other, where ns = ns]
  have "native_chain L m (ns @ [b])"
    using chain b ns by (simp add: native_chain_append) (simp add: native_chain_def)
  moreover have "linked succ_number (us @ [?v])"
    using succ by (auto simp: linked_append succ_number_def)
  moreover have "faithful L m s (ns @ [b]) (us @ [?v])"
    unfolding faithful_def
  proof
    fix u assume "u \<in> set (us @ [?v])"
    then consider "u \<in> set us" | "u = ?v" by auto
    then show "\<exists>pre ts. vw_txs u = pre @ ts \<and>
        list_all2 (tx_of L) (actions_at L m (vw_number u) (ns @ [b])) ts \<and> (vw_number u \<noteq> s \<longrightarrow> pre = [])"
    proof cases
      case 1
      with faith show ?thesis unfolding below(2) [OF 1] by (simp add: faithful_def)
    next
      case 2
      from faith obtain pre t0 where "vw_txs v = pre @ t0" "vw_number v \<noteq> s \<longrightarrow> pre = []"
        "list_all2 (tx_of L) (actions_at L m (vw_number v) ns) t0"
        by (auto simp: faithful_def)
      moreover have "actions_at L m (vw_number v) [b] = nb_actions b"
        using b(3) by (simp add: actions_at_def natives_at_def)
      ultimately show ?thesis using 2 ts
        by (intro exI [of _ pre] exI [of _ "t0 @ ts"]) (simp add: list_all2_appendI)
    qed
  qed
  moreover have "bound_ok L m i (ns @ [b]) u" if "u \<in> set us" for u
    using bspec [OF bnd that] unfolding bound_ok_def below(1) [OF that] .
  moreover have "bound_ok L m i (ns @ [b]) ?v" using b(3) by (intro bound_ok_with_bound) simp
  moreover have "aligned L m i (ns @ [b]) (us @ [?v])"
    using al b(3) ns by (auto simp: aligned_def hd_append)
  ultimately show ?thesis using b(3) by (simp add: view_inv_def core_inv_def)
qed

section \<open>The binary search\<close>

text \<open>
  On a list in which the elements the value precedes come last, the binary search finds the
  first of them.
\<close>

definition partitioned :: "('a \<Rightarrow> bool) \<Rightarrow> 'a list \<Rightarrow> bool" where
  "partitioned pred xs \<longleftrightarrow> (\<forall>i j. i \<le> j \<longrightarrow> j < length xs \<longrightarrow> pred (xs ! i) \<longrightarrow> pred (xs ! j))"

lemma upper_bound_loop_spec:
  assumes "partitioned pred xs" "first + len \<le> length xs"
    "\<forall>j < first. \<not> pred (xs ! j)" "\<forall>j. first + len \<le> j \<longrightarrow> j < length xs \<longrightarrow> pred (xs ! j)"
  shows "upper_bound_loop pred xs first len \<le> length xs \<and>
    (\<forall>j < upper_bound_loop pred xs first len. \<not> pred (xs ! j)) \<and>
    (\<forall>j. upper_bound_loop pred xs first len \<le> j \<longrightarrow> j < length xs \<longrightarrow> pred (xs ! j))"
  using assms
proof (induction pred xs first len rule: upper_bound_loop.induct)
  case (1 pred xs first len)
  note unfold = upper_bound_loop.simps [of pred xs first len]
  show ?case
  proof (cases "len > 0")
    case True
    define half where "half = len div 2"
    define middle where "middle = first + half"
    have half: "half < len" using True by (simp add: half_def)
    show ?thesis
    proof (cases "pred (xs ! middle)")
      case P: True
      have eq: "upper_bound_loop pred xs first len = upper_bound_loop pred xs first half"
        using True P by (simp add: unfold Let_def half_def middle_def)
      have "\<forall>j. first + half \<le> j \<longrightarrow> j < length xs \<longrightarrow> pred (xs ! j)"
        using "1.prems"(1) P by (auto simp: partitioned_def middle_def)
      then show ?thesis unfolding eq
        using "1.prems" half True P by (intro "1.IH"(1) [OF True half_def middle_def]) auto
    next
      case N: False
      have eq: "upper_bound_loop pred xs first len =
          upper_bound_loop pred xs (Suc middle) (len - half - 1)"
        using True N by (simp add: unfold Let_def half_def middle_def)
      have "\<forall>j < Suc middle. \<not> pred (xs ! j)"
        using "1.prems"(1,2) N half by (auto simp: partitioned_def middle_def less_Suc_eq_le)
      then show ?thesis unfolding eq
        using "1.prems" half True N
        by (intro "1.IH"(2) [OF True half_def middle_def]) (auto simp: middle_def)
    qed
  next
    case False
    then have "upper_bound_loop pred xs first len = first" unfolding unfold by (simp only: if_False)
    with False "1.prems" show ?thesis by simp
  qed
qed

lemma std_upper_bound_spec:
  assumes "partitioned pred xs"
  shows "std_upper_bound pred xs = length (takeWhile (\<lambda>x. \<not> pred x) xs)"
proof -
  let ?n = "std_upper_bound pred xs"
  have n: "?n \<le> length xs" "\<forall>j < ?n. \<not> pred (xs ! j)" "\<forall>j. ?n \<le> j \<longrightarrow> j < length xs \<longrightarrow> pred (xs ! j)"
    using upper_bound_loop_spec [OF assms, of 0 "length xs"] by (auto simp: std_upper_bound_def)
  have "takeWhile (\<lambda>x. \<not> pred x) xs = take ?n xs"
    using n by (intro takeWhile_eq_take_P_nth) auto
  with n(1) show ?thesis by simp
qed

section \<open>Removing irreversible blocks\<close>

lemma remove_irreversible_native_Inr:
  assumes "\<forall>nb \<in> set ns. native_ok L m nb"
  shows "remove_irreversible_native L (Some m) l ns =
    (case dropWhile (\<lambda>nb. evm_num_of L m nb < ucast l) ns of
       [] \<Rightarrow> Inl (Undefined_behaviour ''native_blocks.front()'') | xs \<Rightarrow> Inr xs)"
  using assms by (induction ns) (auto simp: timestamp_num evm_num_of_def)

lemma remove_irreversible_evm_Inr:
  "remove_irreversible_evm l es =
    (case dropWhile (\<lambda>e. blk_number e < ucast l) es of
       [] \<Rightarrow> Inl (Undefined_behaviour ''evm_blocks.front()'') | xs \<Rightarrow> Inr xs)"
  by (induction es) auto

lemma view_inv_prune:
  assumes inv: "view_inv L m s i (dn @ ns) (dv @ vs)" and ne: "ns \<noteq> []" "vs \<noteq> []"
    and dn: "\<forall>x \<in> set dn. evm_num_of L m x < l" and dv: "\<forall>v \<in> set dv. vw_number v < l"
    and hdn: "l \<le> evm_num_of L m (hd ns)" and hdv: "l \<le> vw_number (hd vs)"
  shows "view_inv L m s i ns vs"
proof -
  have chain: "native_chain L m (dn @ ns)" and succ: "linked succ_number (dv @ vs)"
    and faith: "faithful L m s (dn @ ns) (dv @ vs)"
    and bnd: "\<forall>v \<in> set vs. bound_ok L m i (dn @ ns) v"
    and al: "aligned L m i (dn @ ns) (dv @ vs)"
    and lst: "vw_number (last vs) \<le> evm_num_of L m (last ns)"
    using inv ne by (auto simp: view_inv_def core_inv_def)
  have succ': "linked succ_number vs" using succ by (simp add: linked_append)
  have ge: "l \<le> vw_number v" if "v \<in> set vs" for v
  proof -
    have "vw_number (hd vs) \<le> vw_number v"
      by (rule linked_hd_le [OF succ' _ that]) (auto simp: succ_number_def)
    with hdv show ?thesis by (rule order_trans)
  qed
  have at: "natives_at L m (vw_number v) (dn @ ns) = natives_at L m (vw_number v) ns"
    if "v \<in> set vs" for v
    using dn ge [OF that] by (auto intro!: natives_at_none)
  then have at': "actions_at L m (vw_number v) (dn @ ns) = actions_at L m (vw_number v) ns"
    if "v \<in> set vs" for v using that by (simp add: actions_at_def)
  have "native_chain L m ns" using chain by (simp add: native_chain_append)
  moreover have "faithful L m s ns vs"
    unfolding faithful_def
  proof
    fix v assume v: "v \<in> set vs"
    then have "v \<in> set (dv @ vs)" by simp
    from bspec [OF faith [unfolded faithful_def] this]
    show "\<exists>pre txs. vw_txs v = pre @ txs \<and>
        list_all2 (tx_of L) (actions_at L m (vw_number v) ns) txs \<and> (vw_number v \<noteq> s \<longrightarrow> pre = [])"
      unfolding at' [OF v] .
  qed
  moreover have "bound_ok L m i ns v" if "v \<in> set vs" for v
    using bspec [OF bnd that] unfolding bound_ok_def at [OF that] .
  moreover have "aligned L m i ns vs"
  proof -
    have "vw_number (hd vs) \<le> evm_num_of L m (hd ns)"
    proof (cases "dv = []")
      case True
      with al have "vw_number (hd vs) \<le> evm_num_of L m (hd (dn @ ns))" by (simp add: aligned_def)
      also have "\<dots> \<le> evm_num_of L m (hd ns)"
        using chain_mono [OF chain, of "hd dn" "hd ns"] ne by (cases dn) auto
      finally show ?thesis .
    next
      case False
      with succ ne have "succ_number (last dv) (hd vs)" by (simp add: linked_append)
      moreover have "vw_number (last dv) < l" using dv False by simp
      ultimately have "vw_number (hd vs) \<le> l" by (simp add: succ_number_def inc_le)
      with hdn show ?thesis by simp
    qed
    with al ne show ?thesis by (auto simp: aligned_def)
  qed
  ultimately show ?thesis using ne succ' lst by (simp add: view_inv_def core_inv_def)
qed

end
