(* ===== verification/Conversion_Handler.thy ===== *)
theory Conversion_Handler
  imports Conversion_Extension
begin

text \<open>
  The phases put together: what one call of the subscription handler does to a state that
  satisfies the invariants, when it fails, and that it keeps the invariants.
\<close>

section \<open>Irreversible blocks\<close>

text \<open>The cached block that irreversibility is counted from: the last one up to the reported
  last irreversible block.\<close>

definition lib_block_of :: "native_block list \<Rightarrow> u32 \<Rightarrow> native_block option" where
  "lib_block_of ns lib =
     (let xs = takeWhile (\<lambda>nb. nb_block_num nb \<le> lib) ns in if xs = [] then None else Some (last xs))"

lemma lib_block_of_in: "lib_block_of ns lib = Some x \<Longrightarrow> x \<in> set ns \<and> nb_block_num x \<le> lib"
  using set_takeWhileD last_in_set
  by (fastforce simp: lib_block_of_def Let_def split: if_splits)

lemma chain_partitioned:
  assumes "native_chain L m ns"
  shows "partitioned (\<lambda>nb. lib < nb_block_num nb) ns"
  unfolding partitioned_def
proof (intro allI impI)
  fix i j assume ij: "i \<le> j" "j < length ns" "lib < nb_block_num (ns ! i)"
  show "lib < nb_block_num (ns ! j)"
  proof (cases "i = j")
    case False
    have "ns ! i \<in> set (take j ns)"
      using ij False by (auto simp: in_set_conv_nth intro!: exI [of _ i])
    moreover have "ns ! j \<in> set (drop j ns)" using ij(2) by (metis Cons_nth_drop_Suc list.set_intros(1))
    ultimately have "nb_block_num (ns ! i) < nb_block_num (ns ! j)"
      using assms chain_nums [of L m "take j ns" "drop j ns"] by simp
    with ij(3) show ?thesis by simp
  qed (use ij in simp)
qed

lemma lib_timestamp_of_spec:
  assumes "native_chain L m ns"
  shows "lib_timestamp_of ns lib = map_option nb_timestamp (lib_block_of ns lib)"
proof -
  let ?xs = "takeWhile (\<lambda>nb. nb_block_num nb \<le> lib) ns"
  have it: "std_upper_bound (\<lambda>nb. lib < nb_block_num nb) ns = length ?xs"
    by (simp add: std_upper_bound_spec [OF chain_partitioned [OF assms]] not_less)
  show ?thesis
  proof (cases "?xs = []")
    case True
    then show ?thesis by (simp add: lib_timestamp_of_def it lib_block_of_def)
  next
    case False
    then have "ns ! (length ?xs - 1) = last ?xs"
      by (metis diff_less last_conv_nth length_greater_0_conv takeWhile_nth zero_less_one)
    with False show ?thesis by (simp add: lib_timestamp_of_def it lib_block_of_def)
  qed
qed

lemma evm_lib_less:
  assumes "native_ok L m x"
  shows "ucast (lib_evm_block_num L m (nb_timestamp x) - 1) < evm_num_of L m x"
proof -
  have "0 < unat (lib_evm_block_num L m (nb_timestamp x))"
    using assms by (simp add: native_ok_def evm_num_of_def word_less_nat_alt)
  moreover from this have "lib_evm_block_num L m (nb_timestamp x) \<noteq> 0" by auto
  ultimately show ?thesis by (simp add: evm_num_of_def word_less_nat_alt unat_minus_one)
qed

text \<open>
  What is dropped lies before the EVM block of the irreversible block, so that block stays, and
  the invariants with it.
\<close>

definition pruned :: "'tx lib \<Rightarrow> block_mapping \<Rightarrow> u32 \<Rightarrow> native_block list \<Rightarrow> 'tx block list \<Rightarrow>
    native_block list \<Rightarrow> 'tx block list \<Rightarrow> u64 option \<Rightarrow> u64 option \<Rightarrow> bool" where
  "pruned L m lib ns es ns' es' el el' \<longleftrightarrow>
     (case lib_block_of ns lib of
        None \<Rightarrow> ns' = ns \<and> es' = es \<and> el' = el
      | Some x \<Rightarrow>
          (let l = ucast (lib_evm_block_num L m (nb_timestamp x) - 1) in
           ns' = dropWhile (\<lambda>nb. evm_num_of L m nb < l) ns \<and>
           es' = dropWhile (\<lambda>e. blk_number e < l) es \<and> el' = Some l))"

lemma pruned_suffix:
  assumes "pruned L m lib ns es ns' es' el el'"
  shows "\<exists>dn. ns = dn @ ns'" "\<exists>dv. es = dv @ es'"
proof -
  have drop: "\<exists>ds. xs = ds @ dropWhile P xs" for P and xs :: "'z list"
    by (rule exI [of _ "takeWhile P xs"]) simp
  show "\<exists>dn. ns = dn @ ns'" "\<exists>dv. es = dv @ es'"
    using assms drop by (auto simp: pruned_def Let_def split: option.splits)
qed

lemma dropWhile_split:
  assumes "x \<in> set xs" "\<not> P x"
  obtains ds where "xs = ds @ dropWhile P xs" "\<forall>d \<in> set ds. P d" "dropWhile P xs \<noteq> []"
    "\<not> P (hd (dropWhile P xs))" "x \<in> set (dropWhile P xs)"
proof
  show "xs = takeWhile P xs @ dropWhile P xs" by simp
  show "\<forall>d \<in> set (takeWhile P xs). P d" using set_takeWhileD by fast
  show x: "x \<in> set (dropWhile P xs)"
    using assms by (metis Un_iff set_append set_takeWhileD takeWhile_dropWhile_id)
  show "dropWhile P xs \<noteq> []" using assms by auto
  then show "\<not> P (hd (dropWhile P xs))" by (rule hd_dropWhile)
qed

lemma update_irreversible_spec:
  assumes bm: "cv_bm st = Some m"
    and inv: "view_inv L m s i (cv_native_blocks st) (map view_of (cv_evm_blocks st))"
    and num: "blk_number (last (cv_evm_blocks st)) = evm_num_of L m (last (cv_native_blocks st))"
  obtains ns' es' el' where
    "update_irreversible L b st =
       Inr (st\<lparr>cv_native_blocks := ns', cv_evm_blocks := es', cv_evm_lib := el'\<rparr>)"
    "pruned L m (nb_lib b) (cv_native_blocks st) (cv_evm_blocks st) ns' es' (cv_evm_lib st) el'"
    "view_inv L m s i ns' (map view_of es')"
    "\<exists>dn. cv_native_blocks st = dn @ ns'" "\<exists>dv. cv_evm_blocks st = dv @ es'"
    "last ns' = last (cv_native_blocks st)" "last es' = last (cv_evm_blocks st)"
    "\<forall>x. lib_block_of (cv_native_blocks st) (nb_lib b) = Some x \<longrightarrow> x \<in> set ns'"
proof -
  let ?ns = "cv_native_blocks st" and ?es = "cv_evm_blocks st"
  have chain: "native_chain L m ?ns" and ne: "?ns \<noteq> []" "?es \<noteq> []"
    using inv by (auto simp: view_inv_def core_inv_def)
  note lts = lib_timestamp_of_spec [OF chain, of "nb_lib b"]
  show thesis
  proof (cases "lib_block_of ?ns (nb_lib b)")
    case None
    with inv lts show thesis
      by (intro that [where ns' = ?ns and es' = ?es and el' = "cv_evm_lib st"]) (simp_all add: update_irreversible_def pruned_def)
  next
    case (Some x)
    then have x: "x \<in> set ?ns" using lib_block_of_in by blast
    have ok: "\<forall>nb \<in> set ?ns. native_ok L m nb" using chain by (simp add: native_chain_def)
    let ?l = "lib_evm_block_num L m (nb_timestamp x) - 1"
    have less: "ucast ?l < evm_num_of L m x" using ok x by (intro evm_lib_less) simp
    also have "\<dots> \<le> evm_num_of L m (last ?ns)"
      using chain x by (intro linked_le_last [where r = "child_of L m"])
        (auto simp: native_chain_def child_evm_num)
    finally have lastl: "\<not> blk_number (last ?es) < ucast ?l" using num by simp
    obtain dn where dn: "?ns = dn @ dropWhile (\<lambda>nb. evm_num_of L m nb < ucast ?l) ?ns"
      "\<forall>d \<in> set dn. evm_num_of L m d < ucast ?l"
      "dropWhile (\<lambda>nb. evm_num_of L m nb < ucast ?l) ?ns \<noteq> []"
      "\<not> evm_num_of L m (hd (dropWhile (\<lambda>nb. evm_num_of L m nb < ucast ?l) ?ns)) < ucast ?l"
      "x \<in> set (dropWhile (\<lambda>nb. evm_num_of L m nb < ucast ?l) ?ns)"
      by (rule dropWhile_split [OF x, of "\<lambda>nb. evm_num_of L m nb < ucast ?l"]) (use less in auto)
    obtain dv where dv: "?es = dv @ dropWhile (\<lambda>e. blk_number e < ucast ?l) ?es"
      "\<forall>d \<in> set dv. blk_number d < ucast ?l"
      "dropWhile (\<lambda>e. blk_number e < ucast ?l) ?es \<noteq> []"
      "\<not> blk_number (hd (dropWhile (\<lambda>e. blk_number e < ucast ?l) ?es)) < ucast ?l"
      by (rule dropWhile_split [OF last_in_set [OF ne(2)], of "\<lambda>e. blk_number e < ucast ?l"])
        (use lastl in auto)
    define ns' es' where "ns' = dropWhile (\<lambda>nb. evm_num_of L m nb < ucast ?l) ?ns"
      and "es' = dropWhile (\<lambda>e. blk_number e < ucast ?l) ?es"
    have n: "?ns = dn @ ns'" "ns' \<noteq> []" "?es = dv @ es'" "es' \<noteq> []"
      using dn(1,3) dv(1,3) by (simp_all add: ns'_def es'_def)
    have "remove_irreversible_native L (Some m) ?l ?ns = Inr ns'"
      using n(2) by (simp add: remove_irreversible_native_Inr [OF ok] ns'_def split: list.splits)
    moreover have "remove_irreversible_evm ?l ?es = Inr es'"
      using n(4) by (simp add: remove_irreversible_evm_Inr es'_def split: list.splits)
    ultimately have upd: "update_irreversible L b st =
        Inr (st\<lparr>cv_native_blocks := ns', cv_evm_blocks := es', cv_evm_lib := Some (ucast ?l)\<rparr>)"
      using Some lts ok x by (simp add: update_irreversible_def bm timestamp_num Let_def)
    have "view_inv L m s i ns' (map view_of es')"
      by (rule view_inv_prune [of L m s i dn _ "map view_of dv" _ "ucast ?l"])
        (use inv n dn dv in \<open>auto simp: ns'_def [symmetric] es'_def [symmetric] hd_map not_less\<close>)
    moreover have "pruned L m (nb_lib b) ?ns ?es ns' es' (cv_evm_lib st) (Some (ucast ?l))"
      using Some by (simp add: pruned_def Let_def ns'_def es'_def)
    moreover have "x \<in> set ns'" using dn(5) by (simp add: ns'_def)
    ultimately show thesis
      using upd Some n
      by (intro that [where ns' = ns' and es' = es' and el' = "Some (ucast ?l)"]) simp_all
  qed
qed

section \<open>Appending a native block\<close>

lemma extended_view:
  assumes ext: "extended L n es es' ps" and inv: "view_inv L m s i ns (map view_of es)"
    and n: "evm_num_of L m (last ns) \<le> n"
  shows "core_inv L m s i ns (map view_of es')" "blk_number (last es') = n"
proof -
  have core: "core_inv L m s i ns (map view_of es)" and es: "es \<noteq> []"
    and le: "blk_number (last es) \<le> evm_num_of L m (last ns)"
    using inv by (auto simp: view_inv_def core_inv_def last_map)
  from ext obtain fresh where f: "map view_of es' = map view_of es @ map view_of fresh"
    "\<forall>e \<in> set fresh. blk_transactions e = [] \<and> blk_number (last es) < blk_number e"
    "linked succ_number (map view_of (last es # fresh))" by (auto simp: extended_def)
  show "core_inv L m s i ns (map view_of es')" unfolding f(1)
    by (rule core_inv_extend [OF core]) (use f es in \<open>simp_all add: last_map\<close>)
  show "blk_number (last es') = n" using ext order_trans [OF le n] by (simp add: extended_def max_def)
qed

lemma extension_ready:
  assumes L: "header_prepared L" "default_block_empty L"
    and inv: "view_inv L m s i ns (map view_of es)" and b: "child_of L m (last ns) b"
  obtains es' ps where
    "extend_evm_chain L db (Some m) cname (lib_evm_block_num L m (nb_timestamp b)) es [] = Some (Inr (es', ps))"
    "extended L (evm_num_of L m b) es es' ps"
    "core_inv L m s i ns (map view_of es')" "blk_number (last es') = evm_num_of L m b" "es' \<noteq> []"
proof -
  have es: "es \<noteq> []" using inv by (auto simp: view_inv_def core_inv_def)
  obtain es' ps where e: "extend_evm_chain L db (Some m) cname
      (lib_evm_block_num L m (nb_timestamp b)) es [] = Some (Inr (es', [] @ ps))"
    "extended L (evm_num_of L m b) es es' ps"
    by (rule extend_evm_chain_spec [OF L es, of db m cname "lib_evm_block_num L m (nb_timestamp b)" "[]"])
      (simp add: evm_num_of_def)
  from extended_view [OF e(2) inv child_evm_num [OF b]] e show thesis
    by (intro that [of es' ps]) (simp_all add: extended_def)
qed

text \<open>The invariant on the state of the plugin, and what a received block has to satisfy.\<close>

definition conv_inv :: "'tx lib \<Rightarrow> block_mapping \<Rightarrow> u64 \<Rightarrow> bytes32 \<Rightarrow> 'tx conv \<Rightarrow> bool" where
  "conv_inv L m s i st \<longleftrightarrow>
     cv_bm st = Some m \<and> view_inv L m s i (cv_native_blocks st) (map view_of (cv_evm_blocks st)) \<and>
     hash_linked L (cv_evm_blocks st)"

definition block_ok :: "'tx lib \<Rightarrow> block_mapping \<Rightarrow> 'tx conv \<Rightarrow> native_block \<Rightarrow> bool" where
  "block_ok L m st b \<longleftrightarrow>
     genesis_timestamp m < nb_timestamp b \<and> native_ok L m b \<and>
     (\<forall>a \<in> set (cv_native_blocks st). nb_id a = nb_prev b \<longrightarrow> child_of L m a b)"

text \<open>
  The result of appending \<open>b\<close> to a state with native blocks \<open>ns\<close> and EVM blocks \<open>es\<close>: the EVM
  chain grows to the number of \<open>b\<close> and the blocks before the last are published, the last one
  is filled, and irreversible blocks are dropped.
\<close>

definition appended ::
  "'tx lib \<Rightarrow> block_mapping \<Rightarrow> bool \<Rightarrow> native_block \<Rightarrow> native_block list \<Rightarrow> 'tx block list \<Rightarrow>
   'tx conv \<Rightarrow> 'tx conv \<Rightarrow> 'tx block list \<Rightarrow> 'tx conv_effect list \<Rightarrow> 'tx block list \<Rightarrow> 'tx block \<Rightarrow> bool" where
  "appended L m eng b ns es st st' ps ceffs es' c \<longleftrightarrow>
     extended L (evm_num_of L m b) es es' ps \<and>
     fill_evm_block L eng b (last es') = Inr (c, ceffs) \<and>
     cv_bm st' = cv_bm st \<and> cv_evm_contract_name st' = cv_evm_contract_name st \<and>
     pruned L m (nb_lib b) (ns @ [b]) (butlast es' @ [c])
       (cv_native_blocks st') (cv_evm_blocks st') (cv_evm_lib st) (cv_evm_lib st')"

lemma hash_linked_fill:
  assumes "hash_linked L es" "es \<noteq> []"
    "hd_parent_hash (blk_header c) = hd_parent_hash (blk_header (last es))"
  shows "hash_linked L (butlast es @ [c])"
  using assms by (cases es rule: rev_cases) (auto simp: hash_linked_def linked_append)

lemma filled_view:
  assumes core: "core_inv L m s i ns (map view_of es)" and es: "es \<noteq> []"
    and b: "native_ok L m b" "child_of L m (last ns) b" "blk_number (last es) = evm_num_of L m b"
    and fill: "fill_evm_block L eng b (last es) = Inr (c, ceffs)"
  shows "view_inv L m s i (ns @ [b]) (map view_of (butlast es @ [c]))"
    "hash_linked L es \<Longrightarrow> hash_linked L (butlast es @ [c])"
    "blk_number c = evm_num_of L m b"
proof -
  obtain ts where ts: "list_all2 (tx_of L) (nb_actions b) ts"
    "view_of c = with_bound (view_of (last es)) (blk_transactions (last es) @ ts) b"
    "hd_parent_hash (blk_header c) = hd_parent_hash (blk_header (last es))"
    by (rule fill_evm_block_Inr [OF fill])
  have "map view_of es = map view_of (butlast es) @ [view_of (last es)]"
    using es by (cases es rule: rev_cases) simp_all
  with core_inv_fill [OF _ b(1,2) _ ts(1), of s i "map view_of (butlast es)" "view_of (last es)"] core b(3) ts(2)
  show "view_inv L m s i (ns @ [b]) (map view_of (butlast es @ [c]))" by simp
  show "hash_linked L es \<Longrightarrow> hash_linked L (butlast es @ [c])"
    by (rule hash_linked_fill) (use es ts(3) in auto)
  have "vw_number (view_of c) = evm_num_of L m b" unfolding ts(2) using b(3) by simp
  then show "blk_number c = evm_num_of L m b" by simp
qed

lemma append_native_block_eq:
  assumes L: "header_prepared L" "default_block_empty L" and bm: "cv_bm st = Some m"
    and inv: "view_inv L m s i (cv_native_blocks st) (map view_of (cv_evm_blocks st))"
    and b: "native_ok L m b" "child_of L m (last (cv_native_blocks st)) b"
  obtains (fails) es' ps e where "append_native_block L db eng b st = Some (Inl e)"
      "extended L (evm_num_of L m b) (cv_evm_blocks st) es' ps" "fill_evm_block L eng b (last es') = Inl e"
  | (appends) st' ps ceffs es' c where
      "append_native_block L db eng b st = Some (Inr (st', map Publish ps @ ceffs))"
      "appended L m eng b (cv_native_blocks st) (cv_evm_blocks st) st st' ps ceffs es' c"
      "view_inv L m s i (cv_native_blocks st') (map view_of (cv_evm_blocks st'))"
      "hash_linked L (cv_evm_blocks st) \<longrightarrow> hash_linked L (cv_evm_blocks st')"
      "view_inv L m s i (cv_native_blocks st @ [b]) (map view_of (butlast es' @ [c]))"
proof -
  let ?ns = "cv_native_blocks st" and ?es = "cv_evm_blocks st"
  obtain es' ps where x: "extend_evm_chain L db (Some m) (cv_evm_contract_name st)
      (lib_evm_block_num L m (nb_timestamp b)) ?es [] = Some (Inr (es', ps))"
    "extended L (evm_num_of L m b) ?es es' ps" "core_inv L m s i ?ns (map view_of es')"
    "blk_number (last es') = evm_num_of L m b" "es' \<noteq> []"
    by (rule extension_ready [OF L inv b(2)])
  have app: "append_native_block L db eng b st =
      Some (rbind (fill_evm_block L eng b (last es')) (\<lambda>(c, ceffs).
        rbind (update_irreversible L b (st\<lparr>cv_native_blocks := ?ns @ [b], cv_evm_blocks := butlast es' @ [c]\<rparr>))
          (\<lambda>st'. Inr (st', map Publish ps @ ceffs))))"
    using x(1,5) by (simp add: append_native_block_def bm timestamp_num [OF b(1)] back_of_nonempty)
  show thesis
  proof (cases "fill_evm_block L eng b (last es')")
    case (Inl e)
    with app x(2) show thesis by (intro fails [of e es' ps]) simp_all
  next
    case (Inr r)
    then obtain c ceffs where fill: "fill_evm_block L eng b (last es') = Inr (c, ceffs)"
      by (cases r) auto
    note f = filled_view [OF x(3,5) b x(4) fill]
    let ?st = "st\<lparr>cv_native_blocks := ?ns @ [b], cv_evm_blocks := butlast es' @ [c]\<rparr>"
    obtain ns2 es2 el where u: "update_irreversible L b ?st =
        Inr (?st\<lparr>cv_native_blocks := ns2, cv_evm_blocks := es2, cv_evm_lib := el\<rparr>)"
      "pruned L m (nb_lib b) (?ns @ [b]) (butlast es' @ [c]) ns2 es2 (cv_evm_lib st) el"
      "view_inv L m s i ns2 (map view_of es2)" "\<exists>dv. butlast es' @ [c] = dv @ es2"
      by (rule update_irreversible_spec [of ?st m L s i b]) (use bm f in auto)
    from x(2) have "hash_linked L ?es \<longrightarrow> hash_linked L (butlast es' @ [c])"
      using f(2) unfolding extended_def by blast
    with u(4) have "hash_linked L ?es \<longrightarrow> hash_linked L es2"
      unfolding hash_linked_def by (auto dest: linked_suffix)
    with app fill u x(2) f(1) show thesis
      by (intro appends [where st' = "?st\<lparr>cv_native_blocks := ns2, cv_evm_blocks := es2, cv_evm_lib := el\<rparr>"
            and ps = ps and ceffs = ceffs and es' = es' and c = c]) (simp_all add: appended_def)
  qed
qed

section \<open>Linking a received block\<close>

text \<open>
  The lists a received block is appended to: the current ones when it continues the chain, or
  their prefixes up to its parent, with the last EVM block cut back to what it held then.
\<close>

definition linked_to ::
  "'tx lib \<Rightarrow> block_mapping \<Rightarrow> native_block \<Rightarrow> native_block list \<Rightarrow> 'tx block list \<Rightarrow>
   native_block list \<Rightarrow> 'tx block list \<Rightarrow> bool" where
  "linked_to L m b ns es ns1 es1 \<longleftrightarrow>
     ns1 \<noteq> [] \<and> nb_id (last ns1) = nb_prev b \<and> (\<exists>r. ns = ns1 @ r) \<and>
     (ns1 = ns \<and> es1 = es \<or>
      nb_id (last ns) \<noteq> nb_prev b \<and> (\<exists>us e d txs popped. es = us @ e # d \<and> blk_number e = evm_num_of L m (last ns1) \<and>
         blk_transactions e = txs @ popped \<and>
         length popped = length (actions_at L m (evm_num_of L m (last ns1)) (drop (length ns1) ns)) \<and>
         es1 = us @ [set_upper_bound (e\<lparr>blk_transactions := txs\<rparr>) (last ns1)]))"

text \<open>The actions whose transactions a rollback to the end of \<open>ns1\<close> takes back.\<close>

definition undone :: "'tx lib \<Rightarrow> block_mapping \<Rightarrow> native_block list \<Rightarrow> native_block list \<Rightarrow> native_action list" where
  "undone L m ns1 ns = actions_at L m (evm_num_of L m (last ns1)) (drop (length ns1) ns)"

lemma undone_simps [simp]:
  "undone L m ns ns = []" "undone L m (p @ [f]) (p @ f # r) = actions_at L m (evm_num_of L m f) r"
  by (simp_all add: undone_def actions_at_def natives_at_def)

lemma find_SomeD: "find P xs = Some x \<Longrightarrow> P x \<and> (\<exists>p r. xs = p @ x # r)"
  by (induction xs) (auto split: if_splits simp: Cons_eq_append_conv)

lemma hash_linked_set_upper_bound:
  "hash_linked L (us @ e # d) \<Longrightarrow> hash_linked L (us @ [set_upper_bound (e\<lparr>blk_transactions := txs\<rparr>) nb])"
  by (auto simp: hash_linked_def linked_append set_upper_bound_def)

lemma linked_to_hash_linked: "linked_to L m b ns es ns1 es1 \<Longrightarrow> hash_linked L es \<Longrightarrow> hash_linked L es1"
  by (auto simp: linked_to_def hash_linked_set_upper_bound)

lemma rollback_linked_to:
  assumes inv: "view_inv L m s i (p @ f # r) (map view_of es)"
    and rb: "rollback L (Some m) f (p @ f # r) es = Inr (ns1, es1)" and f: "nb_id f = nb_prev b"
    and new: "nb_id (last (p @ f # r)) \<noteq> nb_prev b"
  shows "linked_to L m b (p @ f # r) es ns1 es1" "view_inv L m s i ns1 (map view_of es1)"
    "last ns1 = f"
proof -
  from rollback_Inr [OF inv rb] obtain us e d txs popped where
    "ns1 = p @ [f]" "es = us @ e # d" "blk_number e = evm_num_of L m f"
    "blk_transactions e = txs @ popped" "length popped = length (actions_at L m (evm_num_of L m f) r)"
    "es1 = us @ [set_upper_bound (e\<lparr>blk_transactions := txs\<rparr>) f]"
    "view_inv L m s i (p @ [f]) (map view_of es1)" by metis
  with f new show "linked_to L m b (p @ f # r) es ns1 es1" "view_inv L m s i ns1 (map view_of es1)"
    "last ns1 = f" unfolding linked_to_def by (auto simp del: last.simps)
qed

lemma link_native_block_cases:
  assumes inv: "view_inv L m s i ns (map view_of es)"
  obtains (duplicate) "link_native_block L (Some m) b ns es = Inr None"
      "nb_id (last ns) \<noteq> nb_prev b" "\<exists>a \<in> set ns. nb_id a = nb_id b"
  | (unknown) "link_native_block L (Some m) b ns es = Inl (Runtime_error ''Unable to find fork block'')"
      "\<forall>a \<in> set ns. nb_id a \<noteq> nb_id b \<and> nb_id a \<noteq> nb_prev b"
  | (stuck) ns1 r where "link_native_block L (Some m) b ns es = Inl removal_error"
      "ns = ns1 @ r" "ns1 \<noteq> []" "nb_id (last ns1) = nb_prev b" "\<not> list_all (removable L) (undone L m ns1 ns)"
      "\<forall>a \<in> set ns. nb_id a \<noteq> nb_id b"
  | (links) ns1 es1 where "link_native_block L (Some m) b ns es = Inr (Some (ns1, es1))"
      "linked_to L m b ns es ns1 es1" "view_inv L m s i ns1 (map view_of es1)" "last ns1 \<in> set ns"
      "list_all (removable L) (undone L m ns1 ns)"
proof -
  have ns: "ns \<noteq> []" using inv by (auto simp: view_inv_def core_inv_def)
  show thesis
  proof (cases "nb_id (last ns) = nb_prev b")
    case True
    with ns inv show thesis
      by (intro links [of ns es]) (auto simp: link_native_block_def linked_to_def)
  next
    case new: False
    show thesis
    proof (cases "find (\<lambda>nb. nb_id nb = nb_id b) ns")
      case (Some a)
      with new ns show thesis
        by (intro duplicate) (auto simp: link_native_block_def dest: find_SomeD)
    next
      case nodup: None
      show thesis
      proof (cases "find (\<lambda>nb. nb_id nb = nb_prev b) ns")
        case None
        with new ns nodup show thesis
          by (intro unknown) (simp add: link_native_block_def, auto simp: find_None_iff)
      next
        case (Some f)
        then obtain p r where f: "nb_id f = nb_prev b" "ns = p @ f # r" using find_SomeD by fast
        with new have r: "r \<noteq> []" by auto
        let ?removable = "list_all (removable L) (actions_at L m (evm_num_of L m f) r)"
        obtain es1 where rb: "rollback L (Some m) f (p @ f # r) es = (if ?removable then Inr (p @ [f], es1) else Inl removal_error)"
          using rollback_exact [OF _ r] inv f(2) by blast
        show thesis
        proof (cases ?removable)
          case True
          with rb have "rollback L (Some m) f (p @ f # r) es = Inr (p @ [f], es1)" by simp
          note l = rollback_linked_to [OF _ this f(1), of s i]
          from inv f(2) new nodup Some rb ns l True show thesis
            by (intro links [of "p @ [f]" es1]) (auto simp: link_native_block_def)
        next
          case False
          with new nodup Some rb ns f(2) have "link_native_block L (Some m) b ns es = Inl removal_error"
            by (simp add: link_native_block_def)
          with f nodup False show thesis by (intro stuck [of "p @ [f]" r]) (auto simp: find_None_iff)
        qed
      qed
    qed
  qed
qed

section \<open>The handler\<close>

lemma on_native_block_cases:
  assumes L: "header_prepared L" "default_block_empty L"
    and inv: "conv_inv L m s i st" and b: "block_ok L m st b"
  obtains (duplicate) "on_native_block L db eng b st = Some (Inr (st, []))"
      "nb_id (last (cv_native_blocks st)) \<noteq> nb_prev b" "\<exists>a \<in> set (cv_native_blocks st). nb_id a = nb_id b"
  | (unknown) "on_native_block L db eng b st = Some (Inl (Runtime_error ''Unable to find fork block''))"
      "\<forall>a \<in> set (cv_native_blocks st). nb_id a \<noteq> nb_id b \<and> nb_id a \<noteq> nb_prev b"
  | (stuck) ns1 r where "on_native_block L db eng b st = Some (Inl removal_error)"
      "cv_native_blocks st = ns1 @ r" "ns1 \<noteq> []" "nb_id (last ns1) = nb_prev b"
      "\<not> list_all (removable L) (undone L m ns1 (cv_native_blocks st))" "\<forall>a \<in> set (cv_native_blocks st). nb_id a \<noteq> nb_id b"
  | (fails) e ns1 es1 es' ps where "on_native_block L db eng b st = Some (Inl e)"
      "linked_to L m b (cv_native_blocks st) (cv_evm_blocks st) ns1 es1" "extended L (evm_num_of L m b) es1 es' ps"
      "fill_evm_block L eng b (last es') = Inl e" "\<exists>a \<in> set (cv_native_blocks st). nb_id a = nb_prev b"
      "list_all (removable L) (undone L m ns1 (cv_native_blocks st))"
  | (appends) ns1 es1 st' ps ceffs es' c where
      "on_native_block L db eng b st = Some (Inr (st', map Publish ps @ ceffs))"
      "linked_to L m b (cv_native_blocks st) (cv_evm_blocks st) ns1 es1"
      "view_inv L m s i ns1 (map view_of es1)" "hash_linked L es1"
      "appended L m eng b ns1 es1 st st' ps ceffs es' c"
      "conv_inv L m s i st'"
      "view_inv L m s i (ns1 @ [b]) (map view_of (butlast es' @ [c]))"
      "list_all (removable L) (undone L m ns1 (cv_native_blocks st))"
proof -
  let ?ns = "cv_native_blocks st" and ?es = "cv_evm_blocks st"
  have bm: "cv_bm st = Some m" and view: "view_inv L m s i ?ns (map view_of ?es)"
    and hash: "hash_linked L ?es" using inv by (auto simp: conv_inv_def)
  have post: "\<not> nb_timestamp b \<le> genesis_timestamp m" and ok: "native_ok L m b"
    using b by (auto simp: block_ok_def)
  from view show thesis
  proof (cases rule: link_native_block_cases [where b = b])
    case duplicate
    with bm post that(1) show thesis by (simp add: on_native_block_def)
  next
    case unknown
    with bm post that(2) show thesis by (simp add: on_native_block_def)
  next
    case (stuck ns1 r)
    with bm post show thesis by (intro that(3) [of ns1 r]) (simp_all add: on_native_block_def)
  next
    case (links ns1 es1)
    let ?st = "st\<lparr>cv_native_blocks := ns1, cv_evm_blocks := es1\<rparr>"
    have eq: "on_native_block L db eng b st = append_native_block L db eng b ?st"
      using bm post links by (simp add: on_native_block_def)
    have prev: "nb_id (last ns1) = nb_prev b" using links by (simp add: linked_to_def)
    then have child: "child_of L m (last ns1) b" using b links(4) by (auto simp: block_ok_def)
    have "cv_bm ?st = Some m" "view_inv L m s i (cv_native_blocks ?st) (map view_of (cv_evm_blocks ?st))"
      "child_of L m (last (cv_native_blocks ?st)) b" using bm links child by simp_all
    from L(1,2) this(1,2) ok this(3) show thesis
    proof (cases rule: append_native_block_eq [where db = db and eng = eng])
      case (fails es' ps e)
      with eq links(2,4,5) prev show thesis by (intro that(4) [of e ns1 es1 es' ps]) auto
    next
      case (appends st' ps ceffs es' c)
      have h: "hash_linked L es1" by (rule linked_to_hash_linked [OF links(2) hash])
      have app: "appended L m eng b ns1 es1 st st' ps ceffs es' c"
        using appends(2) by (simp add: appended_def)
      then have "conv_inv L m s i st'"
        using appends(3,4) h bm by (simp add: conv_inv_def appended_def)
      with appends eq links h app show thesis by (intro that(5)) auto
    qed
  qed
qed

end
