(* ===== verification/Node_Handlers.thy ===== *)
theory Node_Handlers
  imports Node_Prelude
begin

text \<open>
  The contract of an event handler: the plugins are driven by calls of one function each, which
  takes the event and the state and gives the new state and what the call did to the rest of the
  program, fails with an exception, or does not return. A handler that keeps an invariant on
  the events it may receive keeps it over every history, together with any fact about the
  effects that each call preserves.
\<close>

section \<open>Histories\<close>

type_synonym ('b, 's, 'e) handler = "'b \<Rightarrow> 's \<Rightarrow> ('s \<times> 'e list) res option"

text \<open>
  \<open>handled step ok s bs es s'\<close>: from \<open>s\<close>, the events \<open>bs\<close>, each one admissible when it
  came, were all handled, had the effects \<open>es\<close> and left \<open>s'\<close>.
\<close>

inductive handled ::
  "('b, 's, 'e) handler \<Rightarrow> ('s \<Rightarrow> 'b \<Rightarrow> bool) \<Rightarrow> 's \<Rightarrow> 'b list \<Rightarrow> 'e list \<Rightarrow> 's \<Rightarrow> bool"
  for step ok s where
    handled_start: "handled step ok s [] [] s"
  | handled_step: "handled step ok s bs es s1 \<Longrightarrow> ok s1 b \<Longrightarrow> step b s1 = Some (Inr (s2, es')) \<Longrightarrow>
      handled step ok s (bs @ [b]) (es @ es') s2"

inductive_cases handled_snocE: "handled step ok s (bs @ [b]) es s'"
inductive_simps handled_Nil_iff [simp]: "handled step ok s [] es s'"

lemma handled_Cons:
  assumes "ok s b" "step b s = Some (Inr (s1, es))" "handled step ok s1 bs es' s'"
  shows "handled step ok s (b # bs) (es @ es') s'"
  using assms(3)
proof (induction rule: handled.induct)
  case handled_start
  have "handled step ok s ([] @ [b]) ([] @ es) s1" by (rule handled_step [OF handled.handled_start]) (rule assms)+
  then show ?case by simp
next
  case (handled_step bs es1 s2 c s3 es2)
  have "handled step ok s ((b # bs) @ [c]) ((es @ es1) @ es2) s3"
    by (rule handled.handled_step) (rule handled_step)+
  then show ?case by simp
qed

text \<open>The same history computed from the front, stopping at the first event that is not admissible
  or not answered with a state.\<close>

fun run_handler ::
  "('b, 's, 'e) handler \<Rightarrow> ('s \<Rightarrow> 'b \<Rightarrow> bool) \<Rightarrow> 's \<Rightarrow> 'b list \<Rightarrow> ('s \<times> 'e list) option" where
  "run_handler step ok s [] = Some (s, [])"
| "run_handler step ok s (b # bs) =
     (if ok s b
      then (case step b s of
              Some (Inr (s1, es)) \<Rightarrow> map_option (\<lambda>(s2, es'). (s2, es @ es')) (run_handler step ok s1 bs)
            | _ \<Rightarrow> None)
      else None)"

lemma run_handler_handled: "run_handler step ok s bs = Some (s', es) \<Longrightarrow> handled step ok s bs es s'"
proof (induction bs arbitrary: s es)
  case (Cons b bs)
  then obtain s1 es1 es2 where "ok s b" "step b s = Some (Inr (s1, es1))"
    "run_handler step ok s1 bs = Some (s', es2)" "es = es1 @ es2"
    by (auto split: if_splits option.splits sum.splits)
  with handled_Cons [OF this(1,2) Cons.IH [OF this(3)]] show ?case by simp
qed simp

lemma run_handler_snoc:
  "run_handler step ok s bs = Some (s1, es) \<Longrightarrow> ok s1 b \<Longrightarrow> step b s1 = Some (Inr (s2, es')) \<Longrightarrow>
   run_handler step ok s (bs @ [b]) = Some (s2, es @ es')"
  by (induction bs arbitrary: s es) (auto split: if_splits option.splits sum.splits)

lemma handled_iff_run: "handled step ok s bs es s' \<longleftrightarrow> run_handler step ok s bs = Some (s', es)"
proof
  show "handled step ok s bs es s' \<Longrightarrow> run_handler step ok s bs = Some (s', es)"
    by (induction rule: handled.induct) (auto intro: run_handler_snoc)
qed (rule run_handler_handled)

lemma handled_single: "ok s b \<Longrightarrow> step b s = Some (Inr (s', es)) \<Longrightarrow> handled step ok s [b] es s'"
  using handled_step [OF handled_start, of ok s b step s' es] by simp

section \<open>The contract\<close>

locale handler =
  fixes step :: "'b \<Rightarrow> 's \<Rightarrow> ('s \<times> 'e list) res option"
    and ok :: "'s \<Rightarrow> 'b \<Rightarrow> bool"
    and inv :: "'s \<Rightarrow> bool"
  assumes keeps: "inv s \<Longrightarrow> ok s b \<Longrightarrow> step b s = Some (Inr (s', es)) \<Longrightarrow> inv s'"
    and returns: "inv s \<Longrightarrow> ok s b \<Longrightarrow> step b s \<noteq> None"
begin

lemma handled_inv: "handled step ok s bs es s' \<Longrightarrow> inv s \<Longrightarrow> inv s'"
  by (induction rule: handled.induct) (auto intro: keeps)

text \<open>After every history, an admissible event is answered, with a state or with an exception.\<close>

lemma handled_answers:
  assumes "handled step ok s bs es s'" "inv s" "ok s' b"
  obtains (state) s2 es' where "step b s' = Some (Inr (s2, es'))" "inv s2"
  | (error) e where "step b s' = Some (Inl e)"
proof -
  have inv: "inv s'" by (rule handled_inv [OF assms(1,2)])
  then obtain r where "step b s' = Some r" using returns [OF _ assms(3)] by auto
  with inv assms(3) that show thesis by (cases r) (auto dest: keeps)
qed

end

text \<open>A handler whose effects are recorded, with an invariant on the state and the record.\<close>

locale recording_handler = handler step ok inv
  for step :: "'b \<Rightarrow> 's \<Rightarrow> ('s \<times> 'e list) res option" and ok inv +
  fixes recorded :: "'s \<Rightarrow> 'e list \<Rightarrow> bool"
  assumes records: "inv s \<Longrightarrow> recorded s h \<Longrightarrow> ok s b \<Longrightarrow> step b s = Some (Inr (s', es)) \<Longrightarrow>
    recorded s' (h @ es)"
begin

lemma handled_recorded:
  "handled step ok s bs es s' \<Longrightarrow> inv s \<Longrightarrow> recorded s h \<Longrightarrow> recorded s' (h @ es)"
proof (induction rule: handled.induct)
  case (handled_step bs es s1 b s2 es')
  then have "recorded s1 (h @ es)" by simp
  then have "recorded s2 ((h @ es) @ es')"
    using handled_step.hyps handled_step.prems(1) by (blast intro: records dest: handled_inv)
  then show ?case by simp
qed simp

end

section \<open>Refinement\<close>

text \<open>
  A specification takes the same events over its own states and may refuse one. A handler
  refines it when every event it answers with a state is accepted by the specification, and a
  relation between the two states and the effects so far is kept.
\<close>

fun run_spec :: "('b \<Rightarrow> 'a \<Rightarrow> 'a option) \<Rightarrow> 'b list \<Rightarrow> 'a \<Rightarrow> 'a option" where
  "run_spec astep [] a = Some a"
| "run_spec astep (b # bs) a = (case astep b a of None \<Rightarrow> None | Some a' \<Rightarrow> run_spec astep bs a')"

lemma run_spec_snoc:
  "run_spec astep bs a = Some a1 \<Longrightarrow> run_spec astep (bs @ [b]) a = astep b a1"
  by (induction bs arbitrary: a) (auto split: option.splits)

locale refining_handler = handler step ok inv
  for step :: "'b \<Rightarrow> 's \<Rightarrow> ('s \<times> 'e list) res option" and ok inv +
  fixes astep :: "'b \<Rightarrow> 'a \<Rightarrow> 'a option"
    and related :: "'a \<Rightarrow> 's \<Rightarrow> 'e list \<Rightarrow> bool"
  assumes simulates: "inv s \<Longrightarrow> related a s h \<Longrightarrow> ok s b \<Longrightarrow> step b s = Some (Inr (s', es)) \<Longrightarrow>
    \<exists>a'. astep b a = Some a' \<and> related a' s' (h @ es)"
begin

lemma handled_refines:
  "handled step ok s bs es s' \<Longrightarrow> inv s \<Longrightarrow> related a s h \<Longrightarrow>
   \<exists>a'. run_spec astep bs a = Some a' \<and> related a' s' (h @ es)"
proof (induction rule: handled.induct)
  case (handled_step bs es s1 b s2 es')
  then obtain a1 where a1: "run_spec astep bs a = Some a1" "related a1 s1 (h @ es)" by blast
  moreover obtain a2 where "astep b a1 = Some a2" "related a2 s2 ((h @ es) @ es')"
    using simulates a1(2) handled_step.hyps handled_step.prems(1) handled_inv by blast
  ultimately show ?case by (auto simp: run_spec_snoc)
qed simp

end

end
