(* ===== verification/Conversion_History.thy ===== *)
theory Conversion_History
  imports Conversion_Handler Node_Handlers
begin

text \<open>
  The block conversion plugin over a whole history of native blocks: from the state that
  \<open>load_head\<close> leaves, every published EVM block extends the starting block or an earlier
  published block.
\<close>

section \<open>The starting state\<close>

text \<open>
  What the first blocks rely on: the block mapping puts the time of the starting block, which is
  the end of it, at its number or after it.
\<close>

definition start_mapped :: "'tx lib \<Rightarrow> 'tx chaindata \<Rightarrow> 'tx block \<Rightarrow> bool" where
  "start_mapped L db b \<longleftrightarrow>
     (case (get_genesis_header db, s_to_us (hd_timestamp (blk_header b))) of
        (Some g, Inr us) \<Rightarrow>
          let m = \<lparr>genesis_timestamp = hd_timestamp g, block_interval = 1\<rparr> in
          0 < lib_evm_block_num L m us \<and> blk_number b \<le> ucast (lib_evm_block_num L m us) \<and>
          (lib_ndebug L \<or> genesis_timestamp m \<le> us_to_s us)
      | _ \<Rightarrow> True)"

lemma load_head_started:
  assumes ld: "load_head L db n a conv_init = Inr (st, a')" and run: "\<not> app_quitting a'"
  obtains b nb g where "get_canonical_block_at_height db n = Some b" "start_native_of L b = Inr nb"
    "get_genesis_header db = Some g"
    "st = conv_init\<lparr>cv_evm_blocks := [b], cv_native_blocks := [nb],
      cv_bm := Some \<lparr>genesis_timestamp = hd_timestamp g, block_interval = 1\<rparr>,
      cv_evm_contract_name := lib_load_big_u64 L (hd_nonce g)\<rparr>"
  using assms
  by (auto simp: load_head_def conv_init_def sys_error_def res_simps Let_def split: option.splits if_splits)

lemma load_head_conv_inv:
  assumes b: "get_canonical_block_at_height db n = Some b" and nb: "start_native_of L b = Inr nb"
    and g: "get_genesis_header db = Some g" and m: "m = \<lparr>genesis_timestamp = hd_timestamp g, block_interval = 1\<rparr>"
    and st: "st = conv_init\<lparr>cv_evm_blocks := [b], cv_native_blocks := [nb], cv_bm := Some m,
      cv_evm_contract_name := lib_load_big_u64 L (hd_nonce g)\<rparr>"
    and start: "start_mapped L db b"
  shows "conv_inv L m (blk_number b) (hd_prev_randao (blk_header b)) st"
proof -
  obtain us where us: "s_to_us (hd_timestamp (blk_header b)) = Inr us" and nb_eq:
    "nb = (default_native_block (lib_default_checksum L))\<lparr>nb_id := hd_prev_randao (blk_header b),
       nb_block_num := to_block_num (hd_prev_randao (blk_header b)), nb_timestamp := us\<rparr>"
    using nb by (auto simp: start_native_of_def res_simps)
  have id: "nb_id nb = hd_prev_randao (blk_header b)" "nb_actions nb = []"
    by (simp_all add: nb_eq default_native_block_def nb_actions_def)
  have nok: "native_ok L m nb" "blk_number b \<le> evm_num_of L m nb"
    using start g us unfolding start_mapped_def m
    by (simp_all add: nb_eq native_ok_def evm_num_of_def Let_def word_less_nat_alt)
  have at: "actions_at L m k [nb] = []" for k by (rule actions_at_empty) (simp add: id)
  have "view_inv L m (blk_number b) (hd_prev_randao (blk_header b)) [nb] [view_of b]"
    using nok id at
    by (simp add: view_inv_def core_inv_def native_chain_def faithful_def aligned_def bound_ok_def
        natives_at_def)
  with st show ?thesis by (simp add: conv_inv_def hash_linked_def conv_init_def)
qed

section \<open>One step\<close>

text \<open>An event of the conversion: a native block, and whether the execution engine is open.\<close>

definition conv_step :: "'tx lib \<Rightarrow> 'tx chaindata \<Rightarrow> (native_block \<times> bool, 'tx conv, 'tx conv_effect) handler" where
  "conv_step L db = (\<lambda>(b, eng) st. on_native_block L db eng b st)"

definition conv_ok :: "'tx lib \<Rightarrow> block_mapping \<Rightarrow> 'tx conv \<Rightarrow> native_block \<times> bool \<Rightarrow> bool" where
  "conv_ok L m st = (\<lambda>(b, eng). block_ok L m st b)"

fun published :: "'tx conv_effect list \<Rightarrow> 'tx block list" where
  "published [] = []"
| "published (Publish b # es) = b # published es"
| "published (Update_consensus_parameters i p # es) = published es"

lemma published_append [simp]: "published (es @ es') = published es @ published es'"
  by (induction es rule: published.induct) simp_all

lemma published_Publish [simp]: "published (map Publish bs) = bs"
  by (induction bs) simp_all

lemma fill_evm_block_effects: "fill_evm_block L eng nb c = Inr (c', effs) \<Longrightarrow> published effs = []"
  by (auto simp: fill_evm_block_def apply_new_config_def Let_def res_simps split: option.splits if_splits)

text \<open>
  A block is anchored in a list of earlier blocks when it is the starting block or extends one
  of them, by number and by hash.
\<close>

definition extends_block :: "'tx lib \<Rightarrow> 'tx block \<Rightarrow> 'tx block \<Rightarrow> bool" where
  "extends_block L a b \<longleftrightarrow>
     hd_parent_hash (blk_header b) = lib_header_hash L (blk_header a) \<and>
     blk_number b = blk_number a + 1"

definition anchored :: "'tx lib \<Rightarrow> 'tx block \<Rightarrow> 'tx block list \<Rightarrow> 'tx block \<Rightarrow> bool" where
  "anchored L b0 h b \<longleftrightarrow>
     hd_parent_hash (blk_header b) = hd_parent_hash (blk_header b0) \<and> blk_number b = blk_number b0 \<or>
     (\<exists>a \<in> set h. extends_block L a b)"

text \<open>Every block of the list is closed, and anchored in the blocks before it.\<close>

definition published_ok :: "'tx lib \<Rightarrow> 'tx block \<Rightarrow> 'tx block list \<Rightarrow> bool" where
  "published_ok L b0 h \<longleftrightarrow>
     (\<forall>k < length h. anchored L b0 (take k h) (h ! k) \<and>
        hd_transactions_root (blk_header (h ! k)) = lib_root_hash L (blk_transactions (h ! k)))"

definition conv_recorded :: "'tx lib \<Rightarrow> 'tx block \<Rightarrow> 'tx conv \<Rightarrow> 'tx conv_effect list \<Rightarrow> bool" where
  "conv_recorded L b0 st es \<longleftrightarrow>
     published_ok L b0 (published es) \<and> set (butlast (cv_evm_blocks st)) \<subseteq> set (published es) \<and>
     anchored L b0 (published es) (hd (cv_evm_blocks st))"

lemma anchored_mono: "anchored L b0 h b \<Longrightarrow> set h \<subseteq> set h' \<Longrightarrow> anchored L b0 h' b"
  by (auto simp: anchored_def)

lemma published_ok_snoc:
  "published_ok L b0 (h @ [b]) \<longleftrightarrow> published_ok L b0 h \<and> anchored L b0 h b \<and>
     hd_transactions_root (blk_header b) = lib_root_hash L (blk_transactions b)"
  by (auto simp: published_ok_def nth_append less_Suc_eq)

lemma published_ok_prefix: "published_ok L b0 (h @ h') \<Longrightarrow> published_ok L b0 h"
  by (induction h' rule: rev_induct) (simp_all add: published_ok_snoc flip: append_assoc)

text \<open>The number and hash links of the cached EVM blocks give the anchors.\<close>

lemma linked_extends:
  assumes "linked succ_number (map view_of es)" "hash_linked L es"
  shows "linked (extends_block L) es"
  using assms unfolding hash_linked_def
  by (induction es rule: induct_list012) (auto simp: extends_block_def succ_number_def)

lemma published_ok_extend:
  assumes "linked (extends_block L) (us @ ps)" "published_ok L b0 h" "set us \<subseteq> set h"
    "us @ ps \<noteq> [] \<Longrightarrow> anchored L b0 h (hd (us @ ps))"
    "\<forall>q \<in> set ps. hd_transactions_root (blk_header q) = lib_root_hash L (blk_transactions q)"
  shows "published_ok L b0 (h @ ps)"
  using assms
proof (induction ps rule: rev_induct)
  case (snoc q ps)
  have "linked (extends_block L) (us @ ps)" using snoc.prems(1) linked_prefix [of _ "us @ ps" "[q]"] by simp
  moreover have "us @ ps \<noteq> [] \<Longrightarrow> anchored L b0 h (hd (us @ ps))"
    using snoc.prems(4) by (metis append.assoc append_is_Nil_conv hd_append2)
  ultimately have ok: "published_ok L b0 (h @ ps)" using snoc.IH snoc.prems(2,3,5) by simp
  have "anchored L b0 (h @ ps) q"
  proof (cases "us @ ps = []")
    case True
    then show ?thesis using snoc.prems(4) by simp
  next
    case False
    then have "extends_block L (last (us @ ps)) q"
      using snoc.prems(1) linked_append [of "extends_block L" "us @ ps" "[q]"] by simp
    moreover have "last (us @ ps) \<in> set (h @ ps)"
      using last_in_set [OF False] snoc.prems(3) by auto
    ultimately show ?thesis by (auto simp: anchored_def)
  qed
  with ok snoc.prems(5) show ?case by (simp add: published_ok_snoc flip: append_assoc)
qed simp

lemma anchored_same:
  "anchored L b0 h a \<Longrightarrow> hd_parent_hash (blk_header b) = hd_parent_hash (blk_header a) \<Longrightarrow>
   blk_number b = blk_number a \<Longrightarrow> anchored L b0 h b"
  by (simp add: anchored_def extends_block_def)

lemma linked_to_recorded:
  assumes "linked_to L m b ns es ns1 es1" "set (butlast es) \<subseteq> H" "anchored L b0 h (hd es)"
  shows "set (butlast es1) \<subseteq> H" "anchored L b0 h (hd es1)"
proof -
  have "set (butlast es1) \<subseteq> H \<and> anchored L b0 h (hd es1)"
  proof (cases "es1 = es")
    case False
    with assms(1) obtain us e d txs where e: "es = us @ e # d"
      "es1 = us @ [set_upper_bound (e\<lparr>blk_transactions := txs\<rparr>) (last ns1)]"
      by (auto simp: linked_to_def)
    have "set us \<subseteq> H" using assms(2) e(1) by (auto simp: butlast_append)
    moreover have "anchored L b0 h (hd es1)"
      by (rule anchored_same [OF assms(3)]) (use e in \<open>cases us; simp add: set_upper_bound_def\<close>)+
    ultimately show ?thesis using e(2) by simp
  qed (use assms in simp)
  then show "set (butlast es1) \<subseteq> H" "anchored L b0 h (hd es1)" by simp_all
qed

lemma extended_hd:
  assumes "extended L n es es' ps" "es \<noteq> []"
  shows "hd_parent_hash (blk_header (hd es')) = hd_parent_hash (blk_header (hd es))"
    "blk_number (hd es') = blk_number (hd es)"
proof -
  show "hd_parent_hash (blk_header (hd es')) = hd_parent_hash (blk_header (hd es))"
    using assms by (simp add: extended_def)
  have "hd (map view_of es') = hd (map view_of es)" "es' \<noteq> []"
    using assms by (auto simp: extended_def)
  then have "view_of (hd es') = view_of (hd es)" using assms(2) by (simp add: hd_map)
  then show "blk_number (hd es') = blk_number (hd es)" by (metis view_of_simps(1))
qed

lemma suffix_recorded:
  assumes "linked (extends_block L) (dv @ es)" "es \<noteq> []" "set (butlast (dv @ es)) \<subseteq> set h"
    "anchored L b0 h (hd (dv @ es))"
  shows "set (butlast es) \<subseteq> set h" "anchored L b0 h (hd es)"
proof -
  show "set (butlast es) \<subseteq> set h" using assms(2,3) by (auto simp: butlast_append)
  show "anchored L b0 h (hd es)"
  proof (cases "dv = []")
    case False
    then have "extends_block L (last dv) (hd es)" using assms(1,2) by (simp add: linked_append)
    moreover have "last dv \<in> set h" using assms(2,3) last_in_set [OF False] by (auto simp: butlast_append)
    ultimately show ?thesis by (auto simp: anchored_def)
  qed (use assms(4) in simp)
qed

lemma conv_records:
  assumes L: "header_prepared L" "default_block_empty L"
    and inv: "conv_inv L m s i st" and rec: "conv_recorded L b0 st h" and b: "block_ok L m st b"
    and on: "on_native_block L db eng b st = Some (Inr (st', effs))"
  shows "conv_recorded L b0 st' (h @ effs)"
  using L inv b
proof (cases rule: on_native_block_cases [where db = db and eng = eng])
  case duplicate
  with on rec show ?thesis by simp
next
  case (appends ns1 es1 st'' ps ceffs es' c)
  then have st': "st'' = st'" and effs: "effs = map Publish ps @ ceffs" using on by auto
  have app: "extended L (evm_num_of L m b) es1 es' ps" "published ceffs = []"
    and fill: "fill_evm_block L eng b (last es') = Inr (c, ceffs)"
    using appends(5) fill_evm_block_effects by (auto simp: appended_def)
  have es: "butlast es' = butlast es1 @ ps" "es' \<noteq> []" "es1 \<noteq> []"
    using app appends(3) by (auto simp: extended_def view_inv_def core_inv_def)
  have "\<exists>dv. butlast es' @ [c] = dv @ cv_evm_blocks st'"
    using appends(5) unfolding st' appended_def by (blast dest: pruned_suffix(2))
  moreover have "cv_evm_blocks st' \<noteq> []"
    using appends(6) unfolding st' by (simp add: conv_inv_def view_inv_def core_inv_def)
  ultimately obtain dv where dv: "butlast es' @ [c] = dv @ cv_evm_blocks st'" "cv_evm_blocks st' \<noteq> []"
    by blast
  note r1 = linked_to_recorded [OF appends(2)]
  let ?h = "published h"
  have h: "published_ok L b0 ?h" "set (butlast es1) \<subseteq> set ?h" "anchored L b0 ?h (hd es1)"
    using rec r1 by (auto simp: conv_recorded_def)
  have hd': "anchored L b0 ?h (hd es')"
    by (rule anchored_same [OF h(3)]) (use extended_hd [OF app(1) es(3)] in simp_all)
  obtain ts where c: "hd_parent_hash (blk_header c) = hd_parent_hash (blk_header (last es'))"
    "view_of c = with_bound (view_of (last es')) (blk_transactions (last es') @ ts) b"
    by (rule fill_evm_block_Inr [OF fill])
  have hash: "hash_linked L (butlast es' @ [c])"
    using app(1) appends(4) by (intro hash_linked_fill es(2) c(1)) (simp add: extended_def)
  have link: "linked (extends_block L) (butlast es' @ [c])"
    by (rule linked_extends [OF _ hash]) (use appends(7) in \<open>simp add: view_inv_def core_inv_def\<close>)
  have ok: "published_ok L b0 (?h @ ps)"
  proof (rule published_ok_extend [OF _ h(1,2)])
    show "linked (extends_block L) (butlast es1 @ ps)" using link es(1) by (metis linked_prefix)
    show "butlast es1 @ ps \<noteq> [] \<Longrightarrow> anchored L b0 ?h (hd (butlast es1 @ ps))"
      using hd' es by (metis append_butlast_last_id hd_append2)
    show "\<forall>q \<in> set ps. hd_transactions_root (blk_header q) = lib_root_hash L (blk_transactions q)"
      using app(1) by (simp add: extended_def)
  qed
  have "vw_number (view_of c) = blk_number (last es')" unfolding c(2) by simp
  then have "anchored L b0 ?h (hd (butlast es' @ [c]))"
    using hd' es(2) c(1) by (cases es' rule: rev_cases) (auto simp: hd_append intro: anchored_same)
  then have "anchored L b0 (?h @ ps) (hd (dv @ cv_evm_blocks st'))"
    unfolding dv(1) by (rule anchored_mono) simp
  moreover have "set (butlast (dv @ cv_evm_blocks st')) \<subseteq> set (?h @ ps)"
    unfolding dv(1) [symmetric] butlast_snoc es(1) using h(2) by auto
  moreover have "linked (extends_block L) (dv @ cv_evm_blocks st')" using link dv(1) by simp
  ultimately show ?thesis
    using suffix_recorded [of L dv "cv_evm_blocks st'" "?h @ ps" b0] dv(2) ok effs app(2)
    by (simp add: conv_recorded_def)
qed (use on in simp_all)

section \<open>The handler contract\<close>

text \<open>What the conversion relies on in the libraries.\<close>

definition lib_ok :: "'tx lib \<Rightarrow> bool" where
  "lib_ok L \<longleftrightarrow> header_prepared L \<and> default_block_empty L"

definition conv_wf :: "'tx lib \<Rightarrow> block_mapping \<Rightarrow> u64 \<Rightarrow> bytes32 \<Rightarrow> 'tx conv \<Rightarrow> bool" where
  "conv_wf L m s i st \<longleftrightarrow> lib_ok L \<and> conv_inv L m s i st"

lemma on_native_block_keeps:
  assumes wf: "conv_wf L m s i st" and b: "block_ok L m st b"
    and on: "on_native_block L db eng b st = Some (Inr (st', effs))"
  shows "conv_wf L m s i st'"
proof -
  from wf have L: "header_prepared L" "default_block_empty L"
    and inv: "conv_inv L m s i st" by (simp_all add: conv_wf_def lib_ok_def)
  from L inv b show ?thesis
    by (cases rule: on_native_block_cases [where db = db and eng = eng])
      (use on wf in \<open>simp_all add: conv_wf_def\<close>)
qed

lemma on_native_block_returns:
  assumes wf: "conv_wf L m s i st" and b: "block_ok L m st b"
  shows "on_native_block L db eng b st \<noteq> None"
proof -
  from wf have L: "header_prepared L" "default_block_empty L"
    and inv: "conv_inv L m s i st" by (simp_all add: conv_wf_def lib_ok_def)
  from L inv b show ?thesis
    by (cases rule: on_native_block_cases [where db = db and eng = eng]) simp_all
qed

interpretation conversion: recording_handler "conv_step L db" "conv_ok L m" "conv_wf L m s i"
  "conv_recorded L b0"
  for L :: "'tx lib" and db m s i b0
proof
  fix st st' and b :: "native_block \<times> bool" and es h
  show "conv_wf L m s i st'" if "conv_wf L m s i st" "conv_ok L m st b"
    "conv_step L db b st = Some (Inr (st', es))"
    using that on_native_block_keeps by (fastforce simp: conv_step_def conv_ok_def split: prod.splits)
  show "conv_step L db b st \<noteq> None" if "conv_wf L m s i st" "conv_ok L m st b"
    using that on_native_block_returns by (fastforce simp: conv_step_def conv_ok_def split: prod.splits)
  show "conv_recorded L b0 st' (h @ es)" if "conv_wf L m s i st" "conv_recorded L b0 st h"
    "conv_ok L m st b" "conv_step L db b st = Some (Inr (st', es))"
    using that conv_records by (fastforce simp: conv_step_def conv_ok_def conv_wf_def lib_ok_def split: prod.splits)
qed

text \<open>The state that \<open>load_head\<close> leaves, with nothing published yet, is a start for histories.\<close>

lemma start_recorded:
  assumes "load_head L db n a conv_init = Inr (st0, a')" "\<not> app_quitting a'"
    and "get_canonical_block_at_height db n = Some b0" "start_mapped L db b0" "lib_ok L" "cv_bm st0 = Some m"
  shows "conv_wf L m (blk_number b0) (hd_prev_randao (blk_header b0)) st0" "conv_recorded L b0 st0 []"
    "cv_evm_blocks st0 = [b0]" "\<exists>nb. cv_native_blocks st0 = [nb]"
proof -
  obtain b nb g where *: "get_canonical_block_at_height db n = Some b" "start_native_of L b = Inr nb"
    "get_genesis_header db = Some g"
    "st0 = conv_init\<lparr>cv_evm_blocks := [b], cv_native_blocks := [nb],
      cv_bm := Some \<lparr>genesis_timestamp = hd_timestamp g, block_interval = 1\<rparr>,
      cv_evm_contract_name := lib_load_big_u64 L (hd_nonce g)\<rparr>"
    by (rule load_head_started [OF assms(1,2)])
  have b: "b = b0" using *(1) assms(3) by simp
  have m: "m = \<lparr>genesis_timestamp = hd_timestamp g, block_interval = 1\<rparr>" using *(4) assms(6) by simp
  show "conv_wf L m (blk_number b0) (hd_prev_randao (blk_header b0)) st0"
    using load_head_conv_inv [OF *(1-3) m] *(4) m assms(4,5) b by (simp add: conv_wf_def)
  show "conv_recorded L b0 st0 []" "cv_evm_blocks st0 = [b0]" "\<exists>nb. cv_native_blocks st0 = [nb]"
    using *(4) b by (simp_all add: conv_recorded_def published_ok_def anchored_def)
qed

end
