(* ===== verification/Sample_Library.thy ===== *)
theory Sample_Library
  imports Block_Conversion
begin

text \<open>
  A concrete library for the witnesses: every parameter of the model instantiated with a small
  computable function that has the properties the theorems assume. Transactions are their own
  encoding, hashes are the bytes they hash, a version is the length of its nonce, and block
  numbers are counted as the block mapping documents it: block \<open>n\<close> ends \<open>n\<close> seconds after the
  genesis time.
\<close>

definition sample_name :: namer where
  "sample_name s =
     (if s = ''configchange'' then 1 else if s = ''pushtx'' then 2 else if s = ''evmtx'' then 3 else 0)"

definition sample_evmtx :: "bytes \<Rightarrow> evmtx_type res" where
  "sample_evmtx bs =
     (case bs of
        tag # ver # p # q # tx \<Rightarrow>
          if tag = 0
          then Inr (Evmtx_v1 \<lparr>eos_evm_version = ucast ver, rlpx = tx, v1_base_fee_per_gas = ucast p\<rparr>)
          else Inr (Evmtx_v3 \<lparr>eos_evm_version = ucast ver, rlpx = tx,
                             v3_overhead_price = ucast p, v3_storage_price = ucast q\<rparr>)
      | _ \<Rightarrow> Inl (External_exception ''stream error''))"

definition sample_config :: "bytes \<Rightarrow> consensus_parameter_data_type res" where
  "sample_config bs =
     (case bs of
        [a, b, c, d, e] \<Rightarrow> Inr (Consensus_parameter_v0 \<lparr>gas_parameter =
           \<lparr>gas_txnewaccount = ucast a, gas_newaccount = ucast b, gas_txcreate = ucast c,
            gas_codedeposit = ucast d, gas_sset = ucast e\<rparr>\<rparr>)
      | _ \<Rightarrow> Inl (External_exception ''stream error''))"

definition empty_header :: header where
  "empty_header =
     \<lparr>hd_number = 0, hd_timestamp = 0, hd_nonce = [], hd_parent_hash = replicate 32 0,
      hd_transactions_root = [], hd_prev_randao = replicate 32 0,
      hd_base_fee_per_gas = None, hd_rest = []\<rparr>"

definition empty_block :: "'tx block" where
  "empty_block =
     \<lparr>blk_header = empty_header, blk_transactions = [], blk_irreversible = False,
      blk_consensus_parameter_index = None, blk_gas_prices = None\<rparr>"

definition sample_lib :: "bytes lib" where
  "sample_lib =
     \<lparr>lib_eosio_name = sample_name,
      lib_keccak256 = (\<lambda>bs. bs),
      lib_header_hash = (\<lambda>h. ucast (hd_number h) # hd_transactions_root h @ hd_nonce h @ hd_prev_randao h),
      lib_root_hash = concat,
      lib_empty_root = [],
      lib_rlp_encode = (\<lambda>t. t),
      lib_rlp_decode = (\<lambda>bs. if bs = [] then None else Some bs),
      lib_nonce_to_version = (\<lambda>n. word_of_nat (length n)),
      lib_version_to_nonce = (\<lambda>v. replicate (unat v) 0),
      lib_load_big_u64 = (\<lambda>bs. foldl (\<lambda>acc b. acc * 256 + ucast b) 0 bs),
      lib_default_block = empty_block,
      lib_default_checksum = replicate 32 0,
      lib_prepare_block_header = (\<lambda>h m c n v f.
        h\<lparr>hd_number := n, hd_timestamp := genesis_timestamp m + n * ucast (block_interval m),
          hd_nonce := replicate (unat v) 0, hd_base_fee_per_gas := map_option ucast f\<rparr>),
      lib_evm_block_num = (\<lambda>m us.
        if us_to_s us < genesis_timestamp m then 0
        else 1 + ucast ((us_to_s us - genesis_timestamp m) div ucast (block_interval m))),
      lib_calculate_base_fee = max,
      lib_consensus_hash = (\<lambda>p. [ucast (gf_sset p)]),
      lib_pushtx_from_bin = (\<lambda>bs. Inr \<lparr>px_miner = 0, px_rlpx = bs\<rparr>),
      lib_evmtx_from_bin = sample_evmtx,
      lib_config_from_bin = sample_config,
      lib_ndebug = True\<rparr>"

lemma sample_lib_header_prepared [simp]: "header_prepared sample_lib"
  by (simp add: header_prepared_def sample_lib_def)

lemma sample_lib_default_block_empty [simp]: "default_block_empty sample_lib"
  by (simp add: default_block_empty_def sample_lib_def empty_block_def)

lemma sample_lib_version_roundtrip [simp]: "version_roundtrip sample_lib"
  by (simp add: version_roundtrip_def sample_lib_def)

text \<open>Native blocks with ids that carry their number, and the actions of a test chain.\<close>

definition sample_id :: "u8 \<Rightarrow> u8 \<Rightarrow> bytes32" where
  "sample_id num fork = [0, 0, 0, num, fork] @ replicate 27 0"

definition sample_action :: "u64 \<Rightarrow> bytes \<Rightarrow> native_action" where
  "sample_action n bs = \<lparr>na_ordinal = 1, na_receiver = 9, na_account = 9, na_name = n, na_data = bs\<rparr>"

definition sample_native :: "u8 \<Rightarrow> u8 \<Rightarrow> u8 \<Rightarrow> i64 \<Rightarrow> u32 \<Rightarrow> native_action list \<Rightarrow> native_block" where
  "sample_native num fork parent_fork ts lib acts =
     \<lparr>nb_id = sample_id num fork, nb_prev = sample_id (num - 1) parent_fork,
      nb_block_num = ucast num, nb_timestamp = ts, nb_lib = lib, nb_new_config = None,
      nb_transactions = (if acts = [] then [] else
        [\<lparr>nt_id = sample_id num 99, nt_cpu_usage_us = 100, nt_elapsed = 50, nt_actions = acts\<rparr>])\<rparr>"

definition sample_start_block :: "bytes block" where
  "sample_start_block = empty_block
     \<lparr>blk_header := empty_header\<lparr>hd_number := 3, hd_timestamp := 1003, hd_nonce := [0],
        hd_prev_randao := sample_id 10 0\<rparr>\<rparr>"

definition sample_conv :: "bytes conv" where
  "sample_conv =
     \<lparr>cv_native_blocks = [(default_native_block (replicate 32 0))
        \<lparr>nb_id := sample_id 10 0, nb_block_num := 10, nb_timestamp := 1003000000\<rparr>],
      cv_evm_blocks = [sample_start_block],
      cv_bm = Some \<lparr>genesis_timestamp = 1000, block_interval = 1\<rparr>,
      cv_evm_contract_name = 77, cv_evm_lib = None\<rparr>"

definition sample_chain_db :: "bytes chaindata" where
  "sample_chain_db =
     \<lparr>db_canonical_header = (\<lambda>n. if n = 3 then Some (blk_header sample_start_block)
        else if n = 0 then Some (empty_header\<lparr>hd_timestamp := 1000, hd_nonce := [0, 77]\<rparr>) else None),
      db_block_by_number = (\<lambda>n. if n = 3 then Some sample_start_block else None),
      db_headers_progress = 3, db_lib_processed = Some 3,
      db_chain_config = Some \<lparr>cc_version = Some 0, cc_chain_id = 15555\<rparr>,
      db_genesis_hash = Some (replicate 32 1)\<rparr>"

end
