(* ===== verification/Conversion_Theorems.thy ===== *)
theory Conversion_Theorems
  imports Conversion_History Sample_Library
begin

text \<open>
  The properties of the block conversion plugin, with a run of the sample chain for each one
  that has hypotheses.
\<close>

section \<open>The sample chain\<close>

definition sample_mapping :: block_mapping where
  "sample_mapping = \<lparr>genesis_timestamp = 1000, block_interval = 1\<rparr>"

lemma sample_load_head:
  "load_head sample_lib sample_chain_db None \<lparr>app_quitting = False\<rparr> conv_init =
     Inr (sample_conv, \<lparr>app_quitting = False\<rparr>)"
  by code_simp

lemma sample_start_mapped [simp]: "start_mapped sample_lib sample_chain_db sample_start_block"
  by code_simp

lemma sample_lib_ok [simp]: "lib_ok sample_lib"
  by (simp add: lib_ok_def)

lemma sample_conv_wf [simp]: "conv_wf sample_lib sample_mapping 3 (sample_id 10 0) sample_conv"
proof -
  obtain b nb g where *: "get_canonical_block_at_height sample_chain_db None = Some b"
    "start_native_of sample_lib b = Inr nb" "get_genesis_header sample_chain_db = Some g"
    "sample_conv = conv_init\<lparr>cv_evm_blocks := [b], cv_native_blocks := [nb],
      cv_bm := Some \<lparr>genesis_timestamp = hd_timestamp g, block_interval = 1\<rparr>,
      cv_evm_contract_name := lib_load_big_u64 sample_lib (hd_nonce g)\<rparr>"
    by (rule load_head_started [OF sample_load_head]) simp
  have b: "b = sample_start_block" using *(4) by (simp add: sample_conv_def conv_init_def)
  have m: "sample_mapping = \<lparr>genesis_timestamp = hd_timestamp g, block_interval = 1\<rparr>"
    using *(4) by (simp add: sample_conv_def conv_init_def sample_mapping_def)
  have i: "blk_number b = 3 \<and> hd_prev_randao (blk_header b) = sample_id 10 0"
    by (simp add: b sample_start_block_def empty_block_def)
  from load_head_conv_inv [OF *(1-3) m] *(4) m b i show ?thesis by (simp add: conv_wf_def)
qed

text \<open>Two native blocks in one EVM block, then a fork of the second, then a later block.\<close>

definition sample_n1 :: native_block where
  "sample_n1 = sample_native 11 0 0 1003500000 9 [sample_action 3 [0, 1, 7, 0, 42]]"

definition sample_n2 :: native_block where
  "sample_n2 = sample_native 12 0 0 1004000000 9 [sample_action 3 [0, 1, 7, 0, 43]]"

definition sample_n2' :: native_block where
  "sample_n2' = sample_native 12 1 0 1004500000 10 [sample_action 3 [0, 1, 7, 0, 44]]"

lemma block_ok_code: "block_ok L m st b \<longleftrightarrow> genesis_timestamp m < nb_timestamp b \<and> native_ok L m b \<and>
  list_all (\<lambda>a. nb_id a = nb_prev b \<longrightarrow> child_of L m a b) (cv_native_blocks st)"
  by (simp add: block_ok_def list_all_iff)

declare block_ok_code [code]

text \<open>Histories of the sample chain.\<close>

definition sample_run :: "native_block list \<Rightarrow> (bytes conv \<times> bytes conv_effect list) option" where
  "sample_run bs = run_handler (conv_step sample_lib sample_chain_db) (conv_ok sample_lib sample_mapping)
     sample_conv (map (\<lambda>b. (b, True)) bs)"

definition sample_after :: "native_block list \<Rightarrow> bytes conv" where
  "sample_after bs = (case sample_run bs of Some (st, _) \<Rightarrow> st | None \<Rightarrow> sample_conv)"

lemma sample_run_handled:
  "sample_run bs = Some (st, es) \<Longrightarrow> handled (conv_step sample_lib sample_chain_db)
     (conv_ok sample_lib sample_mapping) sample_conv (map (\<lambda>b. (b, True)) bs) es st"
  by (simp add: sample_run_def run_handler_handled)

lemma sample_after_wf [simp]: "conv_wf sample_lib sample_mapping 3 (sample_id 10 0) (sample_after bs)"
  using conversion.handled_inv [OF sample_run_handled sample_conv_wf]
  by (auto simp: sample_after_def split: option.splits)

lemma sample_n1_ok [simp]: "block_ok sample_lib sample_mapping sample_conv sample_n1"
  by code_simp

lemma sample_n1_accepted: "\<exists>st' effs. on_native_block sample_lib sample_chain_db True sample_n1 sample_conv = Some (Inr (st', effs))"
proof -
  have "(case on_native_block sample_lib sample_chain_db True sample_n1 sample_conv of Some (Inr r) \<Rightarrow> True | _ \<Rightarrow> False)"
    by code_simp
  then show ?thesis by (auto split: option.splits sum.splits)
qed

section \<open>Properties of one step\<close>

text \<open>
  C8: The handler keeps the invariant of its state, on every admissible native block: the cached
  native blocks stay a chain, the EVM blocks stay consecutive and linked by hash, and each of
  them holds exactly the transactions of the cached native blocks that belong to it, and the id
  of the last one.
\<close>

theorem handler_keeps_invariant:
  assumes "conv_wf L m s i st" "block_ok L m st b"
    and "on_native_block L db eng b st = Some (Inr (st', effs))"
  shows "conv_wf L m s i st'"
  using assms by (rule on_native_block_keeps)

theorem handler_keeps_invariant_witness:
  "\<exists>st' effs. on_native_block sample_lib sample_chain_db True sample_n1 sample_conv = Some (Inr (st', effs)) \<and>
     conv_wf sample_lib sample_mapping 3 (sample_id 10 0) st'"
  using sample_n1_accepted handler_keeps_invariant [OF sample_conv_wf sample_n1_ok] by blast

text \<open>What the decoders may do, and the errors the handler may end with.\<close>

definition decoders_throw :: "'tx lib \<Rightarrow> bool" where
  "decoders_throw L \<longleftrightarrow>
     (\<forall>bs e. lib_pushtx_from_bin L bs = Inl e \<or> lib_evmtx_from_bin L bs = Inl e \<or>
        lib_config_from_bin L bs = Inl e \<longrightarrow> (\<exists>msg. e = External_exception msg))"

lemma sample_decoders_throw [simp]: "decoders_throw sample_lib"
  by (auto simp: decoders_throw_def sample_lib_def sample_evmtx_def sample_config_def
      split: list.splits if_splits)

text \<open>The exceptions other than that of an empty optional.\<close>

definition raised :: "err \<Rightarrow> bool" where
  "raised e \<longleftrightarrow> catchable e \<and> e \<noteq> Bad_optional_access"

lemma raised_simps [simp]:
  "raised (Runtime_error msg)" "raised Bad_variant_access" "raised (External_exception msg)"
  "\<not> raised Assertion_failed" "\<not> raised (Undefined_behaviour msg)" "\<not> raised Bad_optional_access"
  by (simp_all add: raised_def)

text \<open>A transaction of version 3 or later that does not have the form with gas prices.\<close>

definition without_prices :: "'tx lib \<Rightarrow> native_action \<Rightarrow> bool" where
  "without_prices L act \<longleftrightarrow>
     (case deserialize_tx L act of Inr (Evmtx_v1 d) \<Rightarrow> 3 \<le> eos_evm_version d | _ \<Rightarrow> False)"

lemma deserialize_tx_throws: "decoders_throw L \<Longrightarrow> deserialize_tx L act = Inl e \<Longrightarrow> raised e"
  by (fastforce simp: decoders_throw_def deserialize_tx_def res_simps split: if_splits)

lemma check_version_equal:
  assumes "check_version L dtx s = Inr (c, v)"
  shows "dtx_version dtx = v"
  using assms by (cases s) (auto simp: check_version_def Let_def split: if_splits)

lemma add_transaction_throws:
  assumes "decoders_throw L" "add_transaction L act s = Inl e"
  shows "raised e \<or> e = Assertion_failed \<and> without_prices L act"
proof (cases "deserialize_tx L act")
  case (Inr dtx)
  have "check_version L dtx s = Inl e \<Longrightarrow> raised e" "set_block_base_fee dtx v c = Inl e \<Longrightarrow> raised e" for c v
    by (cases s; auto simp: check_version_def set_block_base_fee_def Let_def
        split: if_splits evmtx_type.splits option.splits)+
  moreover have "raised e \<or> e = Assertion_failed \<and> without_prices L act"
    if "check_version L dtx s = Inr (c, v)" "set_block_gas_prices L dtx v c = Inl e" for c v
    using that(2) check_version_equal [OF that(1)] Inr
    by (auto simp: set_block_gas_prices_def without_prices_def Let_def split: if_splits evmtx_type.splits option.splits)
  ultimately show ?thesis using assms(2) Inr by (auto simp: add_transaction_def res_simps split: option.splits)
qed (use assms deserialize_tx_throws [OF assms(1)] in \<open>auto simp: add_transaction_def\<close>)

lemma add_transactions_throw:
  "decoders_throw L \<Longrightarrow> rfold (add_transaction L) acts s = Inl e \<Longrightarrow>
   raised e \<or> e = Assertion_failed \<and> (\<exists>a \<in> set acts. without_prices L a)"
  by (induction acts arbitrary: s) (auto simp: res_simps dest: add_transaction_throws)

lemma fill_evm_block_throws:
  assumes "decoders_throw L" "fill_evm_block L eng nb c = Inl e"
  shows "raised e \<or> e = Assertion_failed \<and> (\<exists>a \<in> set (nb_actions nb). without_prices L a) \<or>
    e = Undefined_behaviour ''exec_engine is null'' \<and> \<not> eng \<and> nb_new_config nb \<noteq> None"
  using assms add_transactions_throw [OF assms(1)]
  by (fastforce simp: fill_evm_block_def apply_new_config_def Let_def res_simps for_each_action_eq
      decoders_throw_def deserialize_config_def split: option.splits if_splits)

text \<open>
  C14: The handler always returns on an admissible block, and there are only three ways for it to
  fail. It throws an exception, which the channel catches; or the block brings a configuration
  change before the execution engine exists, and the null pointer to the engine is dereferenced;
  or the block brings a transaction of version 3 or later in the form of the versions before,
  and the assertion on its form aborts the program. No empty list and no empty optional is ever
  accessed.
\<close>

theorem handler_fails_in_three_ways:
  assumes "conv_wf L m s i st" "block_ok L m st b" "decoders_throw L"
  shows "(\<exists>st' effs. on_native_block L db eng b st = Some (Inr (st', effs))) \<or>
    (\<exists>e. on_native_block L db eng b st = Some (Inl e) \<and>
       (raised e \<or>
        e = Undefined_behaviour ''exec_engine is null'' \<and> \<not> eng \<and> nb_new_config b \<noteq> None \<or>
        e = Assertion_failed \<and> (\<exists>a \<in> set (nb_actions b). without_prices L a)))"
proof -
  from assms(1) have L: "header_prepared L" "default_block_empty L"
    and inv: "conv_inv L m s i st" by (simp_all add: conv_wf_def lib_ok_def)
  from L inv assms(2) show ?thesis
  proof (cases rule: on_native_block_cases [where db = db and eng = eng])
    case (fails e ns1 es1 es' ps)
    with fill_evm_block_throws [OF assms(3) fails(4)] show ?thesis by blast
  qed simp_all
qed

theorem handler_fails_in_three_ways_witness:
  "\<exists>st' effs. on_native_block sample_lib sample_chain_db True sample_n1 sample_conv = Some (Inr (st', effs))"
proof -
  have "(case on_native_block sample_lib sample_chain_db True sample_n1 sample_conv of Some (Inl e) \<Rightarrow> False | _ \<Rightarrow> True)"
    by code_simp
  with handler_fails_in_three_ways [OF sample_conv_wf sample_n1_ok sample_decoders_throw, of sample_chain_db True]
  show ?thesis by (auto split: option.splits sum.splits)
qed

section \<open>What one step does\<close>

lemma list_all2_functional:
  assumes "list_all2 r xs ys" "list_all2 r xs zs" "\<And>x y z. r x y \<Longrightarrow> r x z \<Longrightarrow> y = z"
  shows "ys = zs"
  using assms(1,2)
proof (induction arbitrary: zs)
  case (Cons x xs y ys)
  then obtain z zs' where "zs = z # zs'" "r x z" "list_all2 r xs zs'" by (auto simp: list_all2_Cons1)
  with Cons.IH [of zs'] assms(3) [OF Cons.hyps(1), of z] show ?case by simp
qed simp

text \<open>The cached native blocks up to the one with the given id.\<close>

fun path_to :: "native_block list \<Rightarrow> bytes32 \<Rightarrow> native_block list" where
  "path_to [] i = []"
| "path_to (nb # nbs) i = (if nb_id nb = i then [nb] else nb # path_to nbs i)"

lemma path_to_append: "nb_id x = i \<Longrightarrow> \<forall>a \<in> set xs. nb_id a \<noteq> i \<Longrightarrow> path_to (xs @ x # ys) i = xs @ [x]"
  by (induction xs) auto

lemma linked_to_path:
  assumes "linked_to L m b ns es ns1 es1" "native_chain L m ns"
  shows "ns1 = path_to ns (nb_prev b)"
proof -
  from assms(1) obtain xs x r where x: "ns1 = xs @ [x]" "nb_id x = nb_prev b" "ns = xs @ x # r"
    unfolding linked_to_def by (cases ns1 rule: rev_cases) auto
  have "\<forall>a \<in> set xs. nb_id a \<noteq> nb_prev b"
    using chain_ids [of L m xs "x # r"] assms(2) x by fastforce
  then show ?thesis unfolding x(1,3) using x(2) by (simp add: path_to_append)
qed

lemma conv_inv_chain: "conv_inv L m s i st \<Longrightarrow> native_chain L m (cv_native_blocks st)"
  by (simp add: conv_inv_def view_inv_def core_inv_def)

text \<open>
  The step on a block that is not cached yet: the lists it is appended to, in the form the
  properties below start from.
\<close>

lemma new_block_steps:
  assumes wf: "conv_wf L m s i st" and b: "block_ok L m st b"
    and on: "on_native_block L db eng b st = Some (Inr (st', effs))"
    and new: "\<forall>a \<in> set (cv_native_blocks st). nb_id a \<noteq> nb_id b"
  obtains ns1 es1 ps ceffs es' c where
    "linked_to L m b (cv_native_blocks st) (cv_evm_blocks st) ns1 es1"
    "ns1 = path_to (cv_native_blocks st) (nb_prev b)"
    "view_inv L m s i ns1 (map view_of es1)" "appended L m eng b ns1 es1 st st' ps ceffs es' c"
    "view_inv L m s i (ns1 @ [b]) (map view_of (butlast es' @ [c]))" "conv_inv L m s i st'"
    "published effs = ps" "effs = map Publish ps @ ceffs"
proof -
  from wf have L: "header_prepared L" "default_block_empty L"
    and inv: "conv_inv L m s i st" by (simp_all add: conv_wf_def lib_ok_def)
  from L inv b show thesis
  proof (cases rule: on_native_block_cases [where db = db and eng = eng])
    case (appends ns1 es1 st'' ps ceffs es' c)
    have eq: "st'' = st'" "effs = map Publish ps @ ceffs" using on appends(1) by simp_all
    have "published ceffs = []"
      using appends(5) fill_evm_block_effects by (auto simp: appended_def)
    with eq have "published effs = ps" by simp
    with appends eq linked_to_path [OF appends(2) conv_inv_chain [OF inv]] show thesis
      by (intro that [of ns1 es1 ps ceffs es' c]) simp_all
  qed (use on new in auto)
qed

text \<open>
  C16: A block that is not cached yet becomes the end of the chain: the cached blocks are then a
  suffix of the path to its parent followed by the block itself, and the last EVM block has the
  number that the time of the block maps to, the id of the block as its upper bound, and is
  irreversible exactly when the block is not after the last irreversible block it reports.
\<close>

theorem new_block_becomes_head:
  assumes "conv_wf L m s i st" "block_ok L m st b"
    and "on_native_block L db eng b st = Some (Inr (st', effs))"
    and "\<forall>a \<in> set (cv_native_blocks st). nb_id a \<noteq> nb_id b"
  shows "(\<exists>dn. path_to (cv_native_blocks st) (nb_prev b) @ [b] = dn @ cv_native_blocks st') \<and>
    last (cv_native_blocks st') = b \<and>
    (let e = last (cv_evm_blocks st') in
     blk_number e = evm_num_of L m b \<and> hd_prev_randao (blk_header e) = nb_id b \<and>
     (blk_irreversible e \<longleftrightarrow> nb_block_num b \<le> nb_lib b))"
proof -
  obtain ns1 es1 ps ceffs es' c where
    ns1: "ns1 = path_to (cv_native_blocks st) (nb_prev b)"
    and inv1: "view_inv L m s i ns1 (map view_of es1)"
    and app: "appended L m eng b ns1 es1 st st' ps ceffs es' c" and inv: "conv_inv L m s i st'"
    and rest: "view_inv L m s i (ns1 @ [b]) (map view_of (butlast es' @ [c]))"
    by (rule new_block_steps [OF assms])
  have ne: "cv_native_blocks st' \<noteq> []" "cv_evm_blocks st' \<noteq> []"
    using inv by (auto simp: conv_inv_def view_inv_def core_inv_def)
  obtain dn dv where d: "ns1 @ [b] = dn @ cv_native_blocks st'" "butlast es' @ [c] = dv @ cv_evm_blocks st'"
    using app pruned_suffix unfolding appended_def by metis
  have l: "last (cv_native_blocks st') = b" "last (cv_evm_blocks st') = c"
    using d ne by (metis last_appendR last_snoc)+
  obtain ts where c: "view_of c = with_bound (view_of (last es')) (blk_transactions (last es') @ ts) b"
    using app fill_evm_block_Inr unfolding appended_def by metis
  have "evm_num_of L m (last ns1) \<le> evm_num_of L m b"
    using rest inv1 by (auto simp: view_inv_def core_inv_def native_chain_append child_of_def)
  then have "blk_number (last es') = evm_num_of L m b"
    using app inv1 extended_view(2) unfolding appended_def by blast
  then have "vw_number (view_of c) = evm_num_of L m b" unfolding c by simp
  moreover have "vw_id (view_of c) = nb_id b" "vw_irreversible (view_of c) = (nb_block_num b \<le> nb_lib b)"
    unfolding c by simp_all
  ultimately show ?thesis using d(1) l ns1 by (auto simp: Let_def)
qed

lemma sample_n1_new: "\<forall>a \<in> set (cv_native_blocks sample_conv). nb_id a \<noteq> nb_id sample_n1"
  by code_simp

theorem new_block_becomes_head_witness:
  "\<exists>st' effs. on_native_block sample_lib sample_chain_db True sample_n1 sample_conv = Some (Inr (st', effs)) \<and>
     last (cv_native_blocks st') = sample_n1"
  using sample_n1_accepted new_block_becomes_head [OF sample_conv_wf sample_n1_ok _ sample_n1_new] by blast

text \<open>Consecutive EVM blocks, counted.\<close>

lemma succ_number_unat: "succ_number v w \<Longrightarrow> unat (vw_number w) = Suc (unat (vw_number v))"
  unfolding succ_number_def by (metis add.commute not_less_zero unatSuc word_less_nat_alt unat_0)

lemma linked_succ_numbers:
  assumes "linked succ_number vs" "vs \<noteq> []"
  shows "map (unat \<circ> vw_number) vs = [unat (vw_number (hd vs)) ..< Suc (unat (vw_number (last vs)))]"
  using assms
proof (induction vs rule: rev_induct)
  case (snoc v vs)
  show ?case
  proof (cases "vs = []")
    case False
    have l: "linked succ_number vs" "succ_number (last vs) v"
      using snoc.prems(1) False by (auto simp: linked_append)
    have "vw_number (hd vs) \<le> vw_number (last vs)"
      using False by (intro linked_hd_le [OF l(1)]) (auto simp: succ_number_def)
    then have "unat (vw_number (hd vs)) \<le> unat (vw_number (last vs))" by (simp add: word_le_nat_alt)
    then show ?thesis using snoc.IH [OF l(1) False] False succ_number_unat [OF l(2)] by simp
  qed simp
qed simp

lemma extended_published_numbers:
  assumes ext: "extended L n es es' ps" and es: "es \<noteq> []"
  shows "map (unat \<circ> blk_number) ps = [unat (blk_number (last es)) ..< unat (blk_number (last es'))]"
proof -
  from ext obtain fresh where f: "map view_of es' = map view_of es @ map view_of fresh"
    "linked succ_number (map view_of (last es # fresh))" and ps: "butlast es' = butlast es @ ps" "es' \<noteq> []"
    by (auto simp: extended_def)
  have "map view_of (butlast es) @ map view_of (ps @ [last es']) = map view_of es'"
    using ps by (metis append.assoc append_butlast_last_id map_append)
  also have "\<dots> = map view_of (butlast es) @ map view_of (last es # fresh)"
    using f(1) es by (metis append.assoc append_butlast_last_id append_Cons append_Nil map_append)
  finally have eq: "map view_of (ps @ [last es']) = map view_of (last es # fresh)" by simp
  have hd: "vw_number (hd (map view_of (ps @ [last es']))) = blk_number (last es)"
    unfolding eq by simp
  have "map (unat \<circ> vw_number) (map view_of (ps @ [last es'])) =
      [unat (blk_number (last es)) ..< Suc (unat (blk_number (last es')))]"
    using linked_succ_numbers [of "map view_of (ps @ [last es'])"] f(2)
    unfolding eq [symmetric] hd by simp
  then show ?thesis by (simp add: o_def split: if_splits)
qed

text \<open>The number the EVM chain is at when a block is appended.\<close>

definition open_number :: "'tx lib \<Rightarrow> block_mapping \<Rightarrow> 'tx conv \<Rightarrow> native_block \<Rightarrow> u64" where
  "open_number L m st b =
     (if nb_id (last (cv_native_blocks st)) = nb_prev b then blk_number (last (cv_evm_blocks st))
      else evm_num_of L m (last (path_to (cv_native_blocks st) (nb_prev b))))"

text \<open>
  C9: A block that is not cached yet publishes exactly the EVM blocks from the one that was open
  at its parent up to the one before its own number, in order, each closed with the root of its
  transactions; and each holds exactly the transactions of the native blocks of that number on
  the path to the parent, in order (the starting EVM block may hold older ones before them).
\<close>

theorem published_blocks_are_complete:
  assumes "conv_wf L m s i st" "block_ok L m st b"
    and "on_native_block L db eng b st = Some (Inr (st', effs))"
    and "\<forall>a \<in> set (cv_native_blocks st). nb_id a \<noteq> nb_id b"
  shows "map (unat \<circ> blk_number) (published effs) =
      [unat (open_number L m st b) ..< unat (evm_num_of L m b)] \<and>
    (\<forall>q \<in> set (published effs).
      hd_transactions_root (blk_header q) = lib_root_hash L (blk_transactions q) \<and>
      (\<exists>pre txs. blk_transactions q = pre @ txs \<and> (blk_number q \<noteq> s \<longrightarrow> pre = []) \<and>
         list_all2 (tx_of L)
           (actions_at L m (blk_number q) (path_to (cv_native_blocks st) (nb_prev b))) txs))"
proof -
  obtain ns1 es1 ps ceffs es' c where
    link: "linked_to L m b (cv_native_blocks st) (cv_evm_blocks st) ns1 es1"
    and ns1: "ns1 = path_to (cv_native_blocks st) (nb_prev b)"
    and inv1: "view_inv L m s i ns1 (map view_of es1)"
    and app: "appended L m eng b ns1 es1 st st' ps ceffs es' c"
    and rest: "view_inv L m s i (ns1 @ [b]) (map view_of (butlast es' @ [c]))"
    and ps: "published effs = ps"
    by (rule new_block_steps [OF assms])
  have es1: "es1 \<noteq> []" using inv1 by (auto simp: view_inv_def core_inv_def)
  have ext: "extended L (evm_num_of L m b) es1 es' ps" using app by (simp add: appended_def)
  have "evm_num_of L m (last ns1) \<le> evm_num_of L m b"
    using rest inv1 by (auto simp: view_inv_def core_inv_def native_chain_append child_of_def)
  note v = extended_view [OF ext inv1 this]
  have "blk_number (last es1) = open_number L m st b"
  proof (cases "ns1 = cv_native_blocks st \<and> es1 = cv_evm_blocks st")
    case True
    then have "nb_id (last (cv_native_blocks st)) = nb_prev b" using link by (simp add: linked_to_def)
    with True show ?thesis by (simp add: open_number_def)
  next
    case False
    with link obtain us e d txs popped where e: "blk_number e = evm_num_of L m (last ns1)"
      "es1 = us @ [set_upper_bound (e\<lparr>blk_transactions := txs\<rparr>) (last ns1)]"
      unfolding linked_to_def by blast
    then have "blk_number (last es1) = evm_num_of L m (last ns1)" by (simp add: set_upper_bound_def)
    moreover have "nb_id (last (cv_native_blocks st)) \<noteq> nb_prev b"
      using link False unfolding linked_to_def by blast
    ultimately show ?thesis using ns1 by (simp add: open_number_def)
  qed
  then have "map (unat \<circ> blk_number) ps = [unat (open_number L m st b) ..< unat (evm_num_of L m b)]"
    using extended_published_numbers [OF ext es1] v(2) by simp
  moreover have "hd_transactions_root (blk_header q) = lib_root_hash L (blk_transactions q)"
    if "q \<in> set ps" for q using that ext by (simp add: extended_def)
  moreover have "\<exists>pre txs. blk_transactions q = pre @ txs \<and> (blk_number q \<noteq> s \<longrightarrow> pre = []) \<and>
      list_all2 (tx_of L) (actions_at L m (blk_number q) ns1) txs" if "q \<in> set ps" for q
  proof -
    have "q \<in> set (butlast es')" using that ext by (simp add: extended_def)
    then have "view_of q \<in> set (map view_of es')" using in_set_butlastD by fastforce
    moreover have "faithful L m s ns1 (map view_of es')" using v(1) by (simp add: core_inv_def)
    ultimately have "\<exists>pre txs. vw_txs (view_of q) = pre @ txs \<and>
        list_all2 (tx_of L) (actions_at L m (vw_number (view_of q)) ns1) txs \<and>
        (vw_number (view_of q) \<noteq> s \<longrightarrow> pre = [])" unfolding faithful_def by blast
    then show ?thesis by auto
  qed
  ultimately show ?thesis using ps ns1 by blast
qed

theorem published_blocks_are_complete_witness:
  "\<exists>st' effs. on_native_block sample_lib sample_chain_db True sample_n1 sample_conv = Some (Inr (st', effs)) \<and>
     map (unat \<circ> blk_number) (published effs) = [3]"
proof -
  obtain st' effs where on: "on_native_block sample_lib sample_chain_db True sample_n1 sample_conv = Some (Inr (st', effs))"
    using sample_n1_accepted by blast
  have "open_number sample_lib sample_mapping sample_conv sample_n1 = 3"
    "evm_num_of sample_lib sample_mapping sample_n1 = 4" by code_simp+
  with on published_blocks_are_complete [OF sample_conv_wf sample_n1_ok on sample_n1_new] show ?thesis by simp
qed

lemma lib_blocks_stay:
  assumes "conv_wf L m s i st" "block_ok L m st b"
    and "on_native_block L db eng b st = Some (Inr (st', effs))"
    and "\<forall>a \<in> set (cv_native_blocks st). nb_id a \<noteq> nb_id b"
    and "lib_block_of (path_to (cv_native_blocks st) (nb_prev b) @ [b]) (nb_lib b) = Some x"
    and "y \<in> set (path_to (cv_native_blocks st) (nb_prev b) @ [b])" "nb_block_num x \<le> nb_block_num y"
  shows "y \<in> set (cv_native_blocks st')"
proof -
  obtain ns1 es1 ps ceffs es' c where
    ns1: "ns1 = path_to (cv_native_blocks st) (nb_prev b)"
    and app: "appended L m eng b ns1 es1 st st' ps ceffs es' c"
    and rest: "view_inv L m s i (ns1 @ [b]) (map view_of (butlast es' @ [c]))"
    by (rule new_block_steps [OF assms(1-4)])
  let ?ns = "ns1 @ [b]"
  have chain: "native_chain L m ?ns" using rest by (simp add: view_inv_def core_inv_def)
  have x: "x \<in> set ?ns" using assms(5) ns1 lib_block_of_in by blast
  have "native_ok L m x" by (rule native_chain_ok [OF chain x])
  note less = evm_lib_less [OF this]
  let ?P = "\<lambda>nb. evm_num_of L m nb < ucast (lib_evm_block_num L m (nb_timestamp x) - 1)"
  have st': "cv_native_blocks st' = dropWhile ?P ?ns"
    using app assms(5) unfolding appended_def pruned_def ns1 by (simp add: Let_def)
  have "evm_num_of L m x \<le> evm_num_of L m y"
  proof (cases "x = y")
    case False
    obtain xs ys where s: "?ns = xs @ x # ys" using x by (meson split_list)
    have "y \<notin> set xs"
      using chain_nums [of L m xs "x # ys" y x] chain assms(7) s by auto
    moreover have "y \<in> set (xs @ x # ys)" using assms(6) unfolding ns1 [symmetric] s [symmetric] .
    ultimately have "y \<in> set ys" using False by auto
    then show ?thesis using chain_mono [of L m "xs @ [x]" ys x y] chain s by simp
  qed simp
  with less have "\<not> ?P y" by simp
  moreover have "y \<in> set ?ns" using assms(6) ns1 by simp
  ultimately show ?thesis unfolding st'
    by (metis Un_iff set_append set_takeWhileD takeWhile_dropWhile_id)
qed

text \<open>
  C17: Irreversible blocks are dropped, but never the block that irreversibility is counted from:
  after a block that reports a last irreversible block, the newest cached block up to that one
  and everything after it is still cached, so every later block whose parent is one of them
  can be linked.
\<close>

theorem blocks_from_lib_stay_cached:
  assumes "conv_wf L m s i st" "block_ok L m st b"
    and "on_native_block L db eng b st = Some (Inr (st', effs))"
    and "\<forall>a \<in> set (cv_native_blocks st). nb_id a \<noteq> nb_id b"
    and "lib_block_of (path_to (cv_native_blocks st) (nb_prev b) @ [b]) (nb_lib b) = Some x"
    and "y \<in> set (path_to (cv_native_blocks st) (nb_prev b) @ [b])" "nb_block_num x \<le> nb_block_num y"
  shows "y \<in> set (cv_native_blocks st')"
  using assms by (rule lib_blocks_stay)

lemma sample_n1_path: "lib_block_of (path_to (cv_native_blocks sample_conv) (nb_prev sample_n1) @ [sample_n1]) 10 =
    Some (hd (cv_native_blocks sample_conv))"
  by code_simp

definition sample_n1_lib :: native_block where
  "sample_n1_lib = sample_n1\<lparr>nb_lib := 10\<rparr>"

theorem blocks_from_lib_stay_cached_witness:
  "\<exists>st' effs. on_native_block sample_lib sample_chain_db True sample_n1_lib sample_conv = Some (Inr (st', effs)) \<and>
     hd (cv_native_blocks sample_conv) \<in> set (cv_native_blocks st')"
proof -
  have "(case on_native_block sample_lib sample_chain_db True sample_n1_lib sample_conv of Some (Inr r) \<Rightarrow> True | _ \<Rightarrow> False)"
    by code_simp
  then obtain st' effs where on: "on_native_block sample_lib sample_chain_db True sample_n1_lib sample_conv = Some (Inr (st', effs))"
    by (auto split: option.splits sum.splits)
  have ok: "block_ok sample_lib sample_mapping sample_conv sample_n1_lib" by code_simp
  have new: "\<forall>a \<in> set (cv_native_blocks sample_conv). nb_id a \<noteq> nb_id sample_n1_lib" by code_simp
  have lib: "lib_block_of (path_to (cv_native_blocks sample_conv) (nb_prev sample_n1_lib) @ [sample_n1_lib]) (nb_lib sample_n1_lib) =
      Some (hd (cv_native_blocks sample_conv))" by code_simp
  have "hd (cv_native_blocks sample_conv) \<in> set (path_to (cv_native_blocks sample_conv) (nb_prev sample_n1_lib) @ [sample_n1_lib])"
    by code_simp
  from blocks_from_lib_stay_cached [OF sample_conv_wf ok on new lib this] on show ?thesis by blast
qed

text \<open>
  What the EVM blocks hold depends on the cached native blocks only, whatever forks were seen
  on the way: two well-formed states with the same native blocks agree on the transactions
  of every EVM block after the starting one, and on its upper bound when the number belongs
  to a native block other than the starting one.
\<close>

theorem evm_blocks_determined:
  assumes "conv_wf L m s i st1" "conv_wf L m s i st2"
    and "cv_native_blocks st1 = cv_native_blocks st2"
    and "e1 \<in> set (cv_evm_blocks st1)" "e2 \<in> set (cv_evm_blocks st2)"
    and "blk_number e1 = blk_number e2" "blk_number e1 \<noteq> s"
  shows "blk_transactions e1 = blk_transactions e2 \<and>
    (let xs = natives_at L m (blk_number e1) (cv_native_blocks st1) in
     xs \<noteq> [] \<and> nb_id (last xs) \<noteq> i \<longrightarrow>
       hd_prev_randao (blk_header e1) = nb_id (last xs) \<and> hd_prev_randao (blk_header e2) = nb_id (last xs))"
proof -
  let ?acts = "actions_at L m (blk_number e1) (cv_native_blocks st1)"
  have faithful: "list_all2 (tx_of L) (actions_at L m (blk_number e) (cv_native_blocks st)) (blk_transactions e)"
    and bound: "bound_ok L m i (cv_native_blocks st) (view_of e)"
    if st: "conv_wf L m s i st" and e: "e \<in> set (cv_evm_blocks st)" "blk_number e \<noteq> s" for st e
  proof -
    have "view_of e \<in> set (map view_of (cv_evm_blocks st))" using e(1) by simp
    moreover have "faithful L m s (cv_native_blocks st) (map view_of (cv_evm_blocks st))"
      "\<forall>v \<in> set (map view_of (cv_evm_blocks st)). bound_ok L m i (cv_native_blocks st) v"
      using st by (simp_all add: conv_wf_def conv_inv_def view_inv_def core_inv_def)
    ultimately show "list_all2 (tx_of L) (actions_at L m (blk_number e) (cv_native_blocks st)) (blk_transactions e)"
      "bound_ok L m i (cv_native_blocks st) (view_of e)"
      using e(2) unfolding faithful_def by (fastforce, blast)
  qed
  have "list_all2 (tx_of L) ?acts (blk_transactions e1)" "list_all2 (tx_of L) ?acts (blk_transactions e2)"
    using faithful [OF assms(1,4,7)] faithful [OF assms(2,5)] assms(3,6,7) by simp_all
  then have "blk_transactions e1 = blk_transactions e2"
    by (rule list_all2_functional) (auto simp: tx_of_def)
  moreover have "bound_ok L m i (cv_native_blocks st1) (view_of e1)" "bound_ok L m i (cv_native_blocks st1) (view_of e2)"
    using bound [OF assms(1,4,7)] bound [OF assms(2,5)] assms(3,6,7) by simp_all
  ultimately show ?thesis using assms(6) by (auto simp: bound_ok_def Let_def)
qed

text \<open>The first block of the sample chain, with and without a competing block before it.\<close>

definition sample_n1' :: native_block where
  "sample_n1' = sample_native 11 1 0 1003600000 9 [sample_action 3 [0, 1, 7, 0, 99]]"

theorem evm_blocks_determined_witness:
  "blk_transactions (last (cv_evm_blocks (sample_after [sample_n1', sample_n1]))) = [[42]] \<and>
   blk_transactions (last (cv_evm_blocks (sample_after [sample_n1', sample_n1]))) =
     blk_transactions (last (cv_evm_blocks (sample_after [sample_n1])))"
proof -
  let ?a = "sample_after [sample_n1', sample_n1]" and ?b = "sample_after [sample_n1]"
  have "(\<lambda>a b. cv_native_blocks a = cv_native_blocks b \<and> cv_evm_blocks a \<noteq> [] \<and> cv_evm_blocks b \<noteq> [] \<and>
      blk_number (last (cv_evm_blocks a)) = blk_number (last (cv_evm_blocks b)) \<and>
      blk_number (last (cv_evm_blocks a)) \<noteq> 3 \<and>
      blk_transactions (last (cv_evm_blocks a)) = [[42]]) ?a ?b" by code_simp
  then have eq: "cv_native_blocks ?a = cv_native_blocks ?b" "last (cv_evm_blocks ?a) \<in> set (cv_evm_blocks ?a)"
    "last (cv_evm_blocks ?b) \<in> set (cv_evm_blocks ?b)"
    "blk_number (last (cv_evm_blocks ?a)) = blk_number (last (cv_evm_blocks ?b))"
    "blk_number (last (cv_evm_blocks ?a)) \<noteq> 3"
    "blk_transactions (last (cv_evm_blocks ?a)) = [[42]]" by auto
  with evm_blocks_determined [OF sample_after_wf sample_after_wf eq(1-5)] show ?thesis by blast
qed

section \<open>Histories\<close>

text \<open>
  C7: From the state that \<open>load_head\<close> leaves, over every history of admissible native blocks: each
  published EVM block is closed, and it either takes the place of the starting block, with the
  same parent, or extends, by number and by hash, a block published before it. So a reader of
  the channel never misses an ancestor, also across forks.
\<close>

theorem published_blocks_are_anchored:
  assumes "load_head L db n a conv_init = Inr (st0, a')" "\<not> app_quitting a'"
    and "get_canonical_block_at_height db n = Some b0" "start_mapped L db b0" "lib_ok L"
    and "cv_bm st0 = Some m"
    and "handled (conv_step L db) (conv_ok L m) st0 bs es st"
  shows "published_ok L b0 (published es)"
proof -
  note start = start_recorded [OF assms(1-6)]
  from conversion.handled_recorded [OF assms(7) start(1,2)] show ?thesis by (simp add: conv_recorded_def)
qed

text \<open>A fork of the second block, and a block four seconds later.\<close>

definition sample_n3 :: native_block where
  "sample_n3 = sample_native 13 1 1 1008000000 12 [sample_action 3 [0, 1, 8, 0, 45]]"

theorem published_blocks_are_anchored_witness:
  "\<exists>st es. sample_run [sample_n1, sample_n2, sample_n2', sample_n3] = Some (st, es) \<and>
     map (unat \<circ> blk_number) (published es) = [3, 4, 4, 5, 6, 7, 8] \<and>
     published_ok sample_lib sample_start_block (published es)"
proof -
  have "(case sample_run [sample_n1, sample_n2, sample_n2', sample_n3] of
      Some (st, es) \<Rightarrow> map (unat \<circ> blk_number) (published es) = [3, 4, 4, 5, 6, 7, 8] | None \<Rightarrow> False)"
    by code_simp
  then obtain st es where run: "sample_run [sample_n1, sample_n2, sample_n2', sample_n3] = Some (st, es)"
    "map (unat \<circ> blk_number) (published es) = [3, 4, 4, 5, 6, 7, 8]" by (auto split: option.splits)
  have "get_canonical_block_at_height sample_chain_db None = Some sample_start_block" by code_simp
  from published_blocks_are_anchored [OF sample_load_head _ this sample_start_mapped sample_lib_ok _
      sample_run_handled [OF run(1)]] run
  show ?thesis by (simp add: sample_conv_def sample_mapping_def)
qed

end
