(* ===== verification/Conversion_Payload.thy ===== *)
theory Conversion_Payload
  imports Conversion_Theorems
begin

text \<open>
  The transactions of one native block: they all fit the header of the EVM block they are added
  to, a rollback takes exactly them out again, and what a rollback leaves behind.
\<close>

section \<open>Transactions fit their block\<close>

text \<open>
  A transaction fits a block when the block has its version, and from version 3 on its gas prices
  and the base fee computed from them, in versions 1 and 2 its base fee.
\<close>

definition tx_fits :: "'tx lib \<Rightarrow> 'tx block \<Rightarrow> evmtx_type \<Rightarrow> bool" where
  "tx_fits L c dtx \<longleftrightarrow>
     dtx_version dtx = lib_nonce_to_version L (hd_nonce (blk_header c)) \<and>
     (3 \<le> dtx_version dtx \<longrightarrow>
        (case dtx of
           Evmtx_v1 t \<Rightarrow> False
         | Evmtx_v3 t \<Rightarrow>
             blk_gas_prices c = Some \<lparr>overhead_price = v3_overhead_price t, storage_price = v3_storage_price t\<rparr> \<and>
             hd_base_fee_per_gas (blk_header c) =
               Some (ucast (lib_calculate_base_fee L (v3_overhead_price t) (v3_storage_price t))))) \<and>
     (1 \<le> dtx_version dtx \<and> dtx_version dtx < 3 \<longrightarrow>
        (case dtx of
           Evmtx_v1 t \<Rightarrow> hd_base_fee_per_gas (blk_header c) = Some (ucast (v1_base_fee_per_gas t))
         | Evmtx_v3 t \<Rightarrow> False))"

lemma tx_fits_cong:
  "hd_nonce (blk_header c) = hd_nonce (blk_header c') \<Longrightarrow> blk_gas_prices c = blk_gas_prices c' \<Longrightarrow>
   hd_base_fee_per_gas (blk_header c) = hd_base_fee_per_gas (blk_header c') \<Longrightarrow>
   tx_fits L c dtx = tx_fits L c' dtx"
  by (simp add: tx_fits_def cong: evmtx_type.case_cong)

lemma check_version_fits:
  assumes "check_version L dtx (c, v) = Inr (c', v')" "version_roundtrip L"
    "lib_nonce_to_version L (hd_nonce (blk_header c)) = v"
  shows "v' = dtx_version dtx \<and> lib_nonce_to_version L (hd_nonce (blk_header c')) = v' \<and>
    blk_transactions c' = blk_transactions c \<and> (blk_transactions c \<noteq> [] \<longrightarrow> c' = c)"
  using assms by (auto simp: check_version_def version_roundtrip_def Let_def split: if_splits)

lemma set_block_gas_prices_fits:
  assumes "set_block_gas_prices L dtx v c = Inr c'"
  shows "hd_nonce (blk_header c') = hd_nonce (blk_header c) \<and> blk_transactions c' = blk_transactions c \<and>
    (v < 3 \<longrightarrow> c' = c) \<and>
    (3 \<le> v \<longrightarrow> (\<exists>t. dtx = Evmtx_v3 t \<and>
       blk_gas_prices c' = Some \<lparr>overhead_price = v3_overhead_price t, storage_price = v3_storage_price t\<rparr> \<and>
       hd_base_fee_per_gas (blk_header c') =
         Some (ucast (lib_calculate_base_fee L (v3_overhead_price t) (v3_storage_price t))) \<and>
       (blk_transactions c \<noteq> [] \<longrightarrow> blk_gas_prices c = None \<or> blk_gas_prices c = blk_gas_prices c')))"
  using assms
  by (auto simp: set_block_gas_prices_def Let_def not_le split: if_splits evmtx_type.splits option.splits)

lemma set_block_base_fee_fits:
  assumes "set_block_base_fee dtx v c = Inr c'"
  shows "hd_nonce (blk_header c') = hd_nonce (blk_header c) \<and> blk_transactions c' = blk_transactions c \<and>
    blk_gas_prices c' = blk_gas_prices c \<and> (\<not> (1 \<le> v \<and> v < 3) \<longrightarrow> c' = c) \<and>
    (1 \<le> v \<and> v < 3 \<longrightarrow> (\<exists>t. dtx = Evmtx_v1 t \<and>
       hd_base_fee_per_gas (blk_header c') = Some (ucast (v1_base_fee_per_gas t)) \<and>
       (blk_transactions c \<noteq> [] \<longrightarrow> hd_base_fee_per_gas (blk_header c) = None \<or> c = c')))"
  using assms
  by (auto simp: set_block_base_fee_def Let_def split: if_splits evmtx_type.splits option.splits)

lemma add_transaction_fits:
  assumes add: "add_transaction L act (c, v) = Inr (c', v')" and rt: "version_roundtrip L"
    and v: "lib_nonce_to_version L (hd_nonce (blk_header c)) = v"
  shows "lib_nonce_to_version L (hd_nonce (blk_header c')) = v' \<and> blk_transactions c' \<noteq> [] \<and>
    (\<exists>dtx. deserialize_tx L act = Inr dtx \<and> tx_fits L c' dtx) \<and>
    (blk_transactions c \<noteq> [] \<longrightarrow> (\<forall>d. tx_fits L c d \<longrightarrow> tx_fits L c' d))"
proof -
  from add obtain dtx c1 c2 t c3 where d: "deserialize_tx L act = Inr dtx"
    and 1: "check_version L dtx (c, v) = Inr (c1, v')"
    and 2: "set_block_gas_prices L dtx v' c1 = Inr c2"
    and 3: "set_block_base_fee dtx v' c2 = Inr c3"
    and c': "c' = c3\<lparr>blk_transactions := blk_transactions c3 @ [t]\<rparr>"
    by (auto simp: add_transaction_def res_simps split: option.splits)
  note f1 = check_version_fits [OF 1 rt v] and f2 = set_block_gas_prices_fits [OF 2]
    and f3 = set_block_base_fee_fits [OF 3]
  have eq: "tx_fits L c' d = tx_fits L c3 d" for d unfolding c' by (rule tx_fits_cong) simp_all
  have "tx_fits L c3 dtx" using f1 f2 f3 by (auto simp: tx_fits_def)
  moreover have "tx_fits L c3 d" if "blk_transactions c \<noteq> []" "tx_fits L c d" for d
  proof -
    have c1: "c1 = c" "v' = lib_nonce_to_version L (hd_nonce (blk_header c))" using f1 that(1) by auto
    consider "3 \<le> v'" | "1 \<le> v' \<and> v' < 3" | "v' < 1"
      by (metis not_le)
    then show ?thesis
    proof cases
      case 1
      with f2 f3 that c1 have "blk_gas_prices c3 = blk_gas_prices c"
        "hd_base_fee_per_gas (blk_header c3) = hd_base_fee_per_gas (blk_header c)"
        by (auto simp: tx_fits_def split: evmtx_type.splits)
      with f2 f3 that c1 show ?thesis using tx_fits_cong [of c3 c L d] by simp
    next
      case 2
      then have c2: "c2 = c" using f2 c1(1) by blast
      have "hd_base_fee_per_gas (blk_header c) \<noteq> None"
        using that(2) 2 c1(2) unfolding tx_fits_def by (cases d) auto
      then have "c3 = c" using f3 2 c2 that(1) by metis
      with that show ?thesis by simp
    next
      case 3
      then have "v' < 3" "\<not> 1 \<le> v'" by (auto simp: word_less_nat_alt word_le_nat_alt)
      then have "c3 = c" using f2 f3 c1(1) by blast
      with that show ?thesis by simp
    qed
  qed
  ultimately show ?thesis using d f1 f2 f3 eq by (auto simp: c')
qed

lemma add_transactions_fit:
  assumes "rfold (add_transaction L) acts (c, v) = Inr (c', v')" "version_roundtrip L"
    "lib_nonce_to_version L (hd_nonce (blk_header c)) = v"
  shows "(\<forall>act \<in> set acts. \<exists>dtx. deserialize_tx L act = Inr dtx \<and> tx_fits L c' dtx) \<and>
    (blk_transactions c \<noteq> [] \<longrightarrow> (\<forall>d. tx_fits L c d \<longrightarrow> tx_fits L c' d))"
  using assms
proof (induction acts arbitrary: c v)
  case (Cons a acts)
  from Cons.prems(1) obtain c1 v1 where 1: "add_transaction L a (c, v) = Inr (c1, v1)"
    and 2: "rfold (add_transaction L) acts (c1, v1) = Inr (c', v')" by (auto simp: res_simps)
  note s = add_transaction_fits [OF 1 Cons.prems(2,3)]
  from Cons.IH [OF 2 Cons.prems(2)] s show ?case by auto
qed simp

lemma apply_new_config_fields:
  assumes "apply_new_config L eng nb c = Inr (c1, effs)"
  shows "blk_header c1 = blk_header c" "blk_gas_prices c1 = blk_gas_prices c"
    "blk_transactions c1 = blk_transactions c"
  using assms by (auto simp: apply_new_config_def Let_def res_simps split: option.splits if_splits)

text \<open>
  C26: When a native block has been added to an EVM block, every one of its transactions fits the
  header: same version, and same gas prices or base fee according to that version. When the
  block held transactions already, the ones that fitted still fit, so a block never mixes
  versions or prices.
\<close>

theorem transactions_fit_block:
  assumes "fill_evm_block L eng nb c = Inr (c', effs)" "version_roundtrip L"
  shows "(\<forall>act \<in> set (nb_actions nb). \<exists>dtx. deserialize_tx L act = Inr dtx \<and> tx_fits L c' dtx) \<and>
    (blk_transactions c \<noteq> [] \<longrightarrow> (\<forall>d. tx_fits L c d \<longrightarrow> tx_fits L c' d))"
proof -
  from assms(1) obtain c1 c2 v where 1: "apply_new_config L eng nb c = Inr (c1, effs)"
    and 2: "rfold (add_transaction L) (nb_actions nb)
      (c1, lib_nonce_to_version L (hd_nonce (blk_header c))) = Inr (c2, v)"
    and c': "c' = set_upper_bound c2 nb"
    by (auto simp: fill_evm_block_def Let_def res_simps for_each_action_eq)
  note f = apply_new_config_fields [OF 1]
  have "tx_fits L c' d = tx_fits L c2 d" "tx_fits L c1 d = tx_fits L c d" for d
    unfolding c' by (rule tx_fits_cong; simp add: set_upper_bound_def f)+
  with add_transactions_fit [OF 2 assms(2)] f show ?thesis by simp
qed

text \<open>Two transactions of version 3 in one block.\<close>

definition sample_n3pair :: native_block where
  "sample_n3pair = sample_native 11 0 0 1003500000 9
     [sample_action 3 [1, 3, 7, 9, 42], sample_action 3 [1, 3, 7, 9, 43]]"

theorem transactions_fit_block_witness:
  "\<exists>c' effs. fill_evm_block sample_lib True sample_n3pair sample_start_block = Inr (c', effs) \<and>
     tx_fits sample_lib c' (Evmtx_v3 \<lparr>eos_evm_version = 3, rlpx = [42], v3_overhead_price = 7, v3_storage_price = 9\<rparr>)"
proof -
  have "(case fill_evm_block sample_lib True sample_n3pair sample_start_block of Inr _ \<Rightarrow> True | _ \<Rightarrow> False)"
    by code_simp
  then obtain c' effs where fill: "fill_evm_block sample_lib True sample_n3pair sample_start_block = Inr (c', effs)"
    by (auto split: sum.splits)
  have "list_ex (\<lambda>a. a = sample_action 3 [1, 3, 7, 9, 42]) (nb_actions sample_n3pair)" by code_simp
  then have "sample_action 3 [1, 3, 7, 9, 42] \<in> set (nb_actions sample_n3pair)" by (simp add: list_ex_iff)
  moreover have "deserialize_tx sample_lib (sample_action 3 [1, 3, 7, 9, 42]) =
      Inr (Evmtx_v3 \<lparr>eos_evm_version = 3, rlpx = [42], v3_overhead_price = 7, v3_storage_price = 9\<rparr>)"
    by code_simp
  ultimately show ?thesis
    using transactions_fit_block [OF fill sample_lib_version_roundtrip] fill by fastforce
qed

section \<open>A rollback takes out what was added\<close>

text \<open>
  C27: What the removal of the native block that was added last does: it gives the EVM block its former
  transactions back when each of them, encoded again, has the hash of the bytes it came from; if
  one has not, the removal fails with an exception, although the transaction had been accepted.
\<close>

theorem removal_undoes_filling:
  assumes "fill_evm_block L eng nb c = Inr (c', effs)"
  shows "for_each_reverse_action nb (remove_transaction L) (es @ [c']) =
    (if \<forall>a \<in> set (nb_actions nb). removable L a
     then Inr (es @ [c'\<lparr>blk_transactions := blk_transactions c\<rparr>])
     else Inl (Runtime_error ''Unable to remove transaction''))"
proof -
  obtain ts where ts: "list_all2 (tx_of L) (nb_actions nb) ts"
    "view_of c' = with_bound (view_of c) (blk_transactions c @ ts) nb"
    by (rule fill_evm_block_Inr [OF assms(1)])
  have "vw_txs (view_of c') = blk_transactions c @ ts" unfolding ts(2) by simp
  then have "rfold (remove_transaction L) (rev (nb_actions nb)) (es @ [c']) =
      (if list_all (removable L) (nb_actions nb) then Inr (with_last_txs (es @ [c']) (blk_transactions c))
       else Inl removal_error)"
    by (intro remove_transactions_exact [OF ts(1)]) simp_all
  then show ?thesis by (simp add: for_each_reverse_action_eq with_last_txs_def list_all_iff)
qed

theorem removal_undoes_filling_witness:
  "\<exists>c' effs. fill_evm_block sample_lib True sample_n3pair sample_start_block = Inr (c', effs) \<and>
     for_each_reverse_action sample_n3pair (remove_transaction sample_lib) [c'] =
       Inr [c'\<lparr>blk_transactions := []\<rparr>]"
proof -
  have "(case fill_evm_block sample_lib True sample_n3pair sample_start_block of Inr _ \<Rightarrow> True | _ \<Rightarrow> False)"
    by code_simp
  then obtain c' effs where fill: "fill_evm_block sample_lib True sample_n3pair sample_start_block = Inr (c', effs)"
    by (auto split: sum.splits)
  have "blk_transactions sample_start_block = []" "list_all (removable sample_lib) (nb_actions sample_n3pair)"
    by code_simp+
  with removal_undoes_filling [OF fill, of "[]"] fill show ?thesis by (auto simp: list_all_iff)
qed

end
