(* ===== verification/Conversion_Edges.thy ===== *)
theory Conversion_Edges
  imports Conversion_Payload
begin

text \<open>
  The other branches of the block conversion: replays after a reconnection, unknown parents, the
  binary search for the irreversible block, the end of the extension loop; and the places
  where the code does not do what it means to, each with a run that shows it.
\<close>

section \<open>Replays and unknown parents\<close>

lemma cached_not_after_last:
  assumes wf: "conv_wf L m s i st" and b: "block_ok L m st b" and cached: "b \<in> set (cv_native_blocks st)"
  shows "nb_id (last (cv_native_blocks st)) \<noteq> nb_prev b"
proof
  assume prev: "nb_id (last (cv_native_blocks st)) = nb_prev b"
  let ?ns = "cv_native_blocks st"
  have chain: "native_chain L m ?ns" using wf conv_inv_chain unfolding conv_wf_def by blast
  have "last ?ns \<in> set ?ns" using cached by (cases ?ns) auto
  with b prev have "unat (nb_block_num b) = Suc (unat (nb_block_num (last ?ns)))"
    by (auto simp: block_ok_def child_of_def)
  moreover have "nb_block_num b \<le> nb_block_num (last ?ns)"
    using chain cached
    by (intro linked_le_last [where r = "child_of L m"])
      (auto simp: native_chain_def child_of_def word_le_nat_alt)
  ultimately show False by (simp add: word_le_nat_alt)
qed

lemma duplicate_ignored:
  assumes "cv_bm st = Some m" "genesis_timestamp m < nb_timestamp b"
    and "nb_id (last (cv_native_blocks st)) \<noteq> nb_prev b" "a \<in> set (cv_native_blocks st)" "nb_id a = nb_id b"
  shows "on_native_block L db eng b st = Some (Inr (st, []))"
proof -
  have "find (\<lambda>nb. nb_id nb = nb_id b) (cv_native_blocks st) \<noteq> None"
    using assms(4,5) by (auto simp: find_None_iff)
  with assms show ?thesis by (auto simp: on_native_block_def link_native_block_def not_le)
qed

lemma cached_block_ignored:
  assumes "conv_wf L m s i st" "block_ok L m st b" "b \<in> set (cv_native_blocks st)"
  shows "on_native_block L db eng b st = Some (Inr (st, []))"
proof (rule duplicate_ignored [OF _ _ cached_not_after_last [OF assms] assms(3) refl])
  show "cv_bm st = Some m" using assms(1) by (simp add: conv_wf_def conv_inv_def)
  show "genesis_timestamp m < nb_timestamp b" using assms(2) by (simp add: block_ok_def)
qed

text \<open>
  C33: Receiving cached blocks again, as after a reconnection, in any order and number, changes
  nothing and publishes nothing.
\<close>

theorem replays_are_ignored:
  assumes "conv_wf L m s i st"
    and "\<forall>(b, eng) \<in> set bs. b \<in> set (cv_native_blocks st) \<and> block_ok L m st b"
  shows "handled (conv_step L db) (conv_ok L m) st bs [] st"
  using assms(2)
proof (induction bs)
  case (Cons x bs)
  obtain b eng where x: "x = (b, eng)" by (cases x)
  have b: "b \<in> set (cv_native_blocks st)" "block_ok L m st b" using Cons.prems x by auto
  have "conv_step L db x st = Some (Inr (st, []))"
    by (simp add: conv_step_def x cached_block_ignored [OF assms(1) b(2,1)])
  moreover have "conv_ok L m st x" using b by (simp add: conv_ok_def x)
  moreover have "handled (conv_step L db) (conv_ok L m) st bs [] st" using Cons by simp
  ultimately show ?case using handled_Cons [of "conv_ok L m" st x "conv_step L db" st "[]" bs "[]" st] by simp
qed simp

theorem replays_are_ignored_witness:
  "handled (conv_step sample_lib sample_chain_db) (conv_ok sample_lib sample_mapping)
     (sample_after [sample_n1, sample_n2]) [(sample_n1, True), (sample_n2, False), (sample_n1, True)] []
     (sample_after [sample_n1, sample_n2])"
proof (rule replays_are_ignored [OF sample_after_wf])
  have "(\<lambda>st. list_all (\<lambda>b. list_ex (\<lambda>a. a = b) (cv_native_blocks st) \<and> block_ok sample_lib sample_mapping st b)
      [sample_n1, sample_n2]) (sample_after [sample_n1, sample_n2])" by code_simp
  then show "\<forall>(b, eng) \<in> set [(sample_n1, True), (sample_n2, False), (sample_n1, True)].
      b \<in> set (cv_native_blocks (sample_after [sample_n1, sample_n2])) \<and>
      block_ok sample_lib sample_mapping (sample_after [sample_n1, sample_n2]) b"
    by (auto simp: list_ex_iff)
qed

text \<open>
  C34: A block after the genesis time whose parent is not cached, and which is not cached itself,
  is refused with an exception, which makes the application quit: the handler never guesses a
  fork point.
\<close>

theorem unknown_parent_is_refused:
  assumes "cv_bm st = Some m" "genesis_timestamp m < nb_timestamp b" "cv_native_blocks st \<noteq> []"
    and "\<forall>a \<in> set (cv_native_blocks st). nb_id a \<noteq> nb_id b \<and> nb_id a \<noteq> nb_prev b"
  shows "on_native_block L db eng b st = Some (Inl (Runtime_error ''Unable to find fork block''))"
proof -
  have "find (\<lambda>nb. nb_id nb = nb_id b) (cv_native_blocks st) = None"
    "find (\<lambda>nb. nb_id nb = nb_prev b) (cv_native_blocks st) = None"
    using assms(4) by (auto simp: find_None_iff)
  moreover have "nb_id (last (cv_native_blocks st)) \<noteq> nb_prev b" using assms(3,4) by simp
  ultimately show ?thesis using assms(1-3) by (simp add: on_native_block_def link_native_block_def not_le)
qed

theorem unknown_parent_is_refused_witness:
  "on_native_block sample_lib sample_chain_db True sample_n2 sample_conv =
     Some (Inl (Runtime_error ''Unable to find fork block''))"
proof -
  have "cv_bm sample_conv = Some sample_mapping" "genesis_timestamp sample_mapping < nb_timestamp sample_n2"
    "cv_native_blocks sample_conv \<noteq> []" by code_simp+
  moreover have "list_all (\<lambda>a. nb_id a \<noteq> nb_id sample_n2 \<and> nb_id a \<noteq> nb_prev sample_n2) (cv_native_blocks sample_conv)"
    by code_simp
  ultimately show ?thesis using unknown_parent_is_refused by (auto simp: list_all_iff)
qed





section \<open>The irreversible block and the extension loop\<close>

text \<open>
  C32: On a chain of native blocks the binary search gives the time of the last block whose number
  does not exceed the reported irreversible one, or nothing when there is none: it is the
  linear search.
\<close>

theorem lib_lookup_is_linear:
  assumes "native_chain L m ns"
  shows "lib_timestamp_of ns lib = map_option nb_timestamp (lib_block_of ns lib)"
  using assms by (rule lib_timestamp_of_spec)

theorem lib_lookup_is_linear_witness:
  "lib_timestamp_of (cv_native_blocks (sample_after [sample_n1, sample_n2])) 11 =
     map_option nb_timestamp (lib_block_of (cv_native_blocks (sample_after [sample_n1, sample_n2])) 11)"
  by (rule lib_lookup_is_linear [where L = sample_lib and m = sample_mapping])
    (use sample_after_wf in \<open>auto simp: conv_wf_def simp del: sample_after_wf intro: conv_inv_chain\<close>)

text \<open>
  C31: The loop that extends the EVM chain ends: it publishes the blocks with the numbers from that
  of the last block up to the requested one, exclusive, and leaves a list that ends at the requested
  number, or is unchanged when it was there already.
\<close>

theorem extension_ends:
  assumes "header_prepared L" "default_block_empty L" "es \<noteq> []"
  shows "\<exists>es' ps. extend_evm_chain L db (Some m) cname n es [] = Some (Inr (es', ps)) \<and>
    map (unat \<circ> blk_number) ps = [unat (blk_number (last es)) ..< unat n] \<and>
    blk_number (last es') = max (blk_number (last es)) (ucast n)"
proof -
  obtain es' ps where e: "extend_evm_chain L db (Some m) cname n es [] = Some (Inr (es', [] @ ps))"
    "extended L (ucast n) es es' ps"
    by (rule extend_evm_chain_spec [OF assms])
  have last: "blk_number (last es') = max (blk_number (last es)) (ucast n)"
    using e(2) by (simp add: extended_def)
  have "[unat (blk_number (last es)) ..< unat (blk_number (last es'))] =
      [unat (blk_number (last es)) ..< unat n]"
    unfolding last by (auto simp: max_def word_le_nat_alt not_le)
  with extended_published_numbers [OF e(2) assms(3)] last e(1) show ?thesis by simp
qed

theorem extension_ends_witness:
  "\<exists>es' ps. extend_evm_chain sample_lib sample_chain_db (Some sample_mapping) 77 6 [sample_start_block] [] = Some (Inr (es', ps)) \<and>
     map (unat \<circ> blk_number) ps = [3, 4, 5]"
proof -
  have "[unat (blk_number (last [sample_start_block])) ..< unat (6 :: u32)] = [3, 4, 5]" by code_simp
  with extension_ends [of sample_lib "[sample_start_block]" sample_chain_db sample_mapping 77 6] show ?thesis by auto
qed

end
