(* ===== verification/Conversion_Faults.thy ===== *)
theory Conversion_Faults
  imports Conversion_Edges
begin

text \<open>
  The start of the block conversion, and the places where it does not do what it means to: a
  rollback leaves the header as the forked transactions set it, the test for blocks before the
  genesis compares microseconds with seconds, a configuration change before the first EVM
  block dereferences a null pointer, and the irreversible height can be read before it is set.
\<close>

section \<open>Loading the head\<close>

text \<open>
  \<open>load_head\<close> makes the application quit exactly when there is no block to start from, no
  genesis header, or no valid contract name in the genesis nonce; otherwise both lists hold one
  block, the starting one and the native block made up for it, known by the id in its header.
\<close>

theorem load_head_outcome:
  assumes "load_head L db n a conv_init = Inr (st, a')" "\<not> app_quitting a"
  shows "(app_quitting a' \<longleftrightarrow>
      get_canonical_block_at_height db n = None \<or> get_genesis_header db = None \<or>
      (\<exists>g. get_genesis_header db = Some g \<and> lib_load_big_u64 L (hd_nonce g) \<in> {0, 1000})) \<and>
    (\<not> app_quitting a' \<longrightarrow>
      (\<exists>b nb g. get_canonical_block_at_height db n = Some b \<and> get_genesis_header db = Some g \<and>
         cv_evm_blocks st = [b] \<and> cv_native_blocks st = [nb] \<and>
         nb_id nb = hd_prev_randao (blk_header b) \<and> nb_block_num nb = to_block_num (nb_id nb) \<and>
         nb_transactions nb = [] \<and>
         cv_bm st = Some \<lparr>genesis_timestamp = hd_timestamp g, block_interval = 1\<rparr>))"
proof (cases "get_canonical_block_at_height db n")
  case None
  with assms show ?thesis by (auto simp: load_head_def sys_error_def)
next
  case b: (Some b)
  with assms(1) obtain nb where nb: "start_native_of L b = Inr nb"
    by (auto simp: load_head_def res_simps)
  show ?thesis
  proof (cases "get_genesis_header db")
    case None
    with assms b nb show ?thesis by (auto simp: load_head_def sys_error_def)
  next
    case (Some g)
    then show ?thesis
      using assms b nb
      by (cases "lib_load_big_u64 L (hd_nonce g) \<in> {0, 1000}")
        (auto simp: load_head_def sys_error_def Let_def conv_init_def start_native_of_def res_simps
          default_native_block_def)
  qed
qed

theorem load_head_outcome_witness:
  "\<exists>b nb. cv_evm_blocks sample_conv = [b] \<and> cv_native_blocks sample_conv = [nb] \<and>
     nb_id nb = hd_prev_randao (blk_header b)"
  using load_head_outcome [OF sample_load_head] by auto

section \<open>A rollback keeps the forked header\<close>

text \<open>
  A block without transactions, a child with a transaction of a later version, and two siblings
  of that child: one without transactions, one with a transaction of the version before.
\<close>

definition sample_a :: native_block where
  "sample_a = sample_native 11 0 0 1003500000 9 []"

definition sample_b :: native_block where
  "sample_b = sample_native 12 0 0 1003600000 9 [sample_action 3 [0, 2, 7, 0, 50]]"

definition sample_c :: native_block where
  "sample_c = sample_native 12 1 0 1003700000 9 []"

definition sample_d :: native_block where
  "sample_d = sample_native 12 2 0 1003700000 9 [sample_action 3 [0, 1, 7, 0, 51]]"

text \<open>
  Rolling back does not restore the nonce, which holds the version: after a fork that
  removed the only transaction of an EVM block, the block has the same native blocks and the same
  transactions as if the forked block had never come, and a different header.
\<close>

theorem rollback_keeps_forked_nonce:
  "(let forked = sample_after [sample_a, sample_b, sample_c]; direct = sample_after [sample_a, sample_c];
        e = last (cv_evm_blocks forked); e' = last (cv_evm_blocks direct) in
    cv_native_blocks forked = cv_native_blocks direct \<and>
    blk_transactions e = [] \<and> blk_transactions e' = [] \<and>
    hd_prev_randao (blk_header e) = hd_prev_randao (blk_header e') \<and>
    lib_nonce_to_version sample_lib (hd_nonce (blk_header e)) = 2 \<and>
    lib_nonce_to_version sample_lib (hd_nonce (blk_header e')) = 1)"
  by code_simp

text \<open>
  So a block that is accepted without the fork is refused after it: its transaction has the
  version the EVM block had before the forked transaction raised it.
\<close>

theorem valid_block_refused_after_fork:
  "sample_run [sample_a, sample_d] \<noteq> None \<and>
   on_native_block sample_lib sample_chain_db True sample_d (sample_after [sample_a, sample_b]) =
     Some (Inl (Runtime_error ''tx_version < block_version''))"
proof
  have "(case sample_run [sample_a, sample_d] of Some _ \<Rightarrow> True | None \<Rightarrow> False)" by code_simp
  then show "sample_run [sample_a, sample_d] \<noteq> None" by (auto split: option.splits)
  have "(case on_native_block sample_lib sample_chain_db True sample_d (sample_after [sample_a, sample_b]) of
      Some (Inl e) \<Rightarrow> e = Runtime_error ''tx_version < block_version'' | _ \<Rightarrow> False)" by code_simp
  then show "on_native_block sample_lib sample_chain_db True sample_d (sample_after [sample_a, sample_b]) =
     Some (Inl (Runtime_error ''tx_version < block_version''))"
    by (auto split: option.splits sum.splits)
qed

section \<open>A transaction that cannot be removed\<close>

text \<open>
  A library that decodes, as the code asks of it, transactions with and without a wrapper: one byte
  before the transaction stands for the header of the string it is wrapped in.
\<close>

definition wrapping_lib :: "bytes lib" where
  "wrapping_lib = sample_lib\<lparr>lib_rlp_decode :=
     (\<lambda>bs. case bs of [] \<Rightarrow> None | b # r \<Rightarrow> if b = 0xb8 then Some r else Some bs)\<rparr>"

definition sample_wrapped :: native_block where
  "sample_wrapped = sample_native 12 0 0 1003600000 9 [sample_action 3 [0, 1, 7, 0, 0xb8, 50]]"

text \<open>
  A block with a wrapped transaction is accepted. The fork that takes it back is refused, though
  its parent is cached and it brings no transaction of its own.
\<close>

theorem wrapped_transaction_refuses_fork:
  "case on_native_block wrapping_lib sample_chain_db True sample_a sample_conv of
     Some (Inr (st, effs)) \<Rightarrow>
       (case on_native_block wrapping_lib sample_chain_db True sample_wrapped st of
          Some (Inr (st', effs')) \<Rightarrow>
            on_native_block wrapping_lib sample_chain_db True sample_c st' =
              Some (Inl (Runtime_error ''Unable to remove transaction'')) \<and>
            list_ex (\<lambda>x. nb_id x = nb_prev sample_c) (cv_native_blocks st') \<and> nb_actions sample_c = []
        | _ \<Rightarrow> False)
   | _ \<Rightarrow> False"
proof -
  have "case on_native_block wrapping_lib sample_chain_db True sample_a sample_conv of
     Some (Inr (st, effs)) \<Rightarrow>
       (case on_native_block wrapping_lib sample_chain_db True sample_wrapped st of
          Some (Inr (st', effs')) \<Rightarrow>
            (case on_native_block wrapping_lib sample_chain_db True sample_c st' of
               Some (Inl e) \<Rightarrow> e = Runtime_error ''Unable to remove transaction'' | _ \<Rightarrow> False) \<and>
            list_ex (\<lambda>x. nb_id x = nb_prev sample_c) (cv_native_blocks st') \<and> nb_actions sample_c = []
        | _ \<Rightarrow> False)
   | _ \<Rightarrow> False" by code_simp
  then show ?thesis by (auto split: option.splits sum.splits) (metis obj_sumE surj_pair)
qed

section \<open>Blocks before the genesis\<close>

text \<open>
  The test that keeps blocks before the genesis out compares the block's time in microseconds
  with the genesis time in seconds. A block that passes it, though it lies before the genesis
  second, and continues the chain, is not kept as the last block before the genesis: it reaches
  the assertion on the time, which aborts where it is compiled in.
\<close>

theorem block_before_genesis_passes:
  assumes "cv_bm st = Some m" "genesis_timestamp m < nb_timestamp b"
    and "us_to_s (nb_timestamp b) < genesis_timestamp m"
    and "nb_id (last (cv_native_blocks st)) = nb_prev b" "\<not> lib_ndebug L"
  shows "on_native_block L db eng b st = Some (Inl Assertion_failed)"
  using assms
  by (simp add: on_native_block_def link_native_block_def append_native_block_def
      timestamp_to_evm_block_num_def not_le)

definition sample_early :: native_block where
  "sample_early = sample_native 11 0 0 999000000 9 []"

theorem block_before_genesis_passes_witness:
  "on_native_block (sample_lib\<lparr>lib_ndebug := False\<rparr>) sample_chain_db True sample_early sample_conv =
     Some (Inl Assertion_failed)"
  by (rule block_before_genesis_passes [where m = sample_mapping]; code_simp)

section \<open>Reads of what is not there\<close>

text \<open>
  A configuration change that reaches an EVM block before the execution engine exists, that is
  before the first EVM block has been handled by the blockchain plugin, dereferences a null
  pointer.
\<close>

theorem early_configuration_is_undefined:
  assumes "nb_new_config nb = Some act" "blk_transactions c = []" "deserialize_config L act = Inr conf"
  shows "fill_evm_block L False nb c = Inl (Undefined_behaviour ''exec_engine is null'')"
  using assms by (simp add: fill_evm_block_def apply_new_config_def Let_def)

definition sample_conf :: native_block where
  "sample_conf = (sample_native 11 0 0 1003500000 9 [])\<lparr>nb_new_config := Some (sample_action 1 [1, 2, 3, 4, 5])\<rparr>"

theorem early_configuration_is_undefined_witness:
  "fill_evm_block sample_lib False sample_conf sample_start_block =
     Inl (Undefined_behaviour ''exec_engine is null'')"
proof (rule early_configuration_is_undefined)
  show "nb_new_config sample_conf = Some (sample_action 1 [1, 2, 3, 4, 5])" by (simp add: sample_conf_def)
  show "blk_transactions sample_start_block = []" by code_simp
  show "deserialize_config sample_lib (sample_action 1 [1, 2, 3, 4, 5]) = Inr
      (Consensus_parameter_v0 \<lparr>gas_parameter = \<lparr>gas_txnewaccount = 1, gas_newaccount = 2,
        gas_txcreate = 3, gas_codedeposit = 4, gas_sset = 5\<rparr>\<rparr>)"
    by code_simp
qed

text \<open>
  A new block sets the irreversible height to one less than the number of the cached block that
  irreversibility is counted from, and leaves it alone when there is none; so while no block
  has reported an irreversible block that is cached, a read of the height is a read of a member
  that was never assigned.
\<close>

theorem irreversible_height_of_step:
  assumes "conv_wf L m s i st" "block_ok L m st b"
    and "on_native_block L db eng b st = Some (Inr (st', effs))"
    and "\<forall>a \<in> set (cv_native_blocks st). nb_id a \<noteq> nb_id b"
  shows "(case lib_block_of (path_to (cv_native_blocks st) (nb_prev b) @ [b]) (nb_lib b) of
      None \<Rightarrow> get_evm_lib st' = get_evm_lib st
    | Some x \<Rightarrow> get_evm_lib st' = Inr (evm_num_of L m x - 1) \<and> 0 < evm_num_of L m x)"
proof -
  obtain ns1 es1 ps ceffs es' c where
    ns1: "ns1 = path_to (cv_native_blocks st) (nb_prev b)"
    and app: "appended L m eng b ns1 es1 st st' ps ceffs es' c"
    and rest: "view_inv L m s i (ns1 @ [b]) (map view_of (butlast es' @ [c]))"
    by (rule new_block_steps [OF assms])
  show ?thesis
  proof (cases "lib_block_of (ns1 @ [b]) (nb_lib b)")
    case None
    with app ns1 show ?thesis by (simp add: appended_def pruned_def get_evm_lib_def)
  next
    case (Some x)
    have "native_chain L m (ns1 @ [b])" using rest by (simp add: view_inv_def core_inv_def)
    then have "native_ok L m x" using Some lib_block_of_in native_chain_ok by blast
    then have pos: "0 < evm_num_of L m x" by (simp add: native_ok_def)
    then have "0 < lib_evm_block_num L m (nb_timestamp x)" by (simp add: evm_num_of_def word_less_nat_alt)
    then have "ucast (lib_evm_block_num L m (nb_timestamp x) - 1) = evm_num_of L m x - 1"
      using pos by (simp add: word_unat_eq_iff evm_num_of_def unat_minus_one word_gt_0)
    with Some app ns1 pos show ?thesis by (simp add: appended_def pruned_def Let_def get_evm_lib_def)
  qed
qed

theorem irreversible_height_of_step_witness:
  "\<exists>st' effs. on_native_block sample_lib sample_chain_db True sample_n1 sample_conv = Some (Inr (st', effs)) \<and>
     get_evm_lib st' = Inl (Undefined_behaviour ''evm_lib_ read before it is assigned'')"
proof -
  have "lib_block_of (path_to (cv_native_blocks sample_conv) (nb_prev sample_n1) @ [sample_n1]) (nb_lib sample_n1) = None"
    by code_simp
  moreover have "get_evm_lib sample_conv = Inl (Undefined_behaviour ''evm_lib_ read before it is assigned'')"
    by (simp add: get_evm_lib_def sample_conv_def)
  ultimately show ?thesis
    using sample_n1_accepted irreversible_height_of_step [OF sample_conv_wf sample_n1_ok _ sample_n1_new] by fastforce
qed

end
