(* ===== verification/Conversion_Refinement.thy ===== *)
theory Conversion_Refinement
  imports Conversion_Theorems
begin

text \<open>
  The block conversion plugin refines a ledger that never forgets: the ledger keeps the whole
  native chain from the starting block on, follows every fork, and says what each EVM block up to
  its height holds. The plugin keeps only the end of that chain; what it has published, read by
  taking the last block published for each number, is the EVM chain of the ledger.
\<close>

section \<open>The ledger\<close>

text \<open>
  A known block changes nothing, a block with a known parent becomes the end of the chain that
  ends at its parent, and any other block is refused.
\<close>

definition ledger_step :: "native_block \<Rightarrow> native_block list \<Rightarrow> native_block list option" where
  "ledger_step b ch =
     (if list_ex (\<lambda>a. nb_id a = nb_id b) ch then Some ch
      else if list_ex (\<lambda>a. nb_id a = nb_prev b) ch then Some (path_to ch (nb_prev b) @ [b])
      else None)"

text \<open>The number of the EVM block that is open at the end of the ledger.\<close>

definition ledger_height :: "'tx lib \<Rightarrow> block_mapping \<Rightarrow> u64 \<Rightarrow> native_block list \<Rightarrow> u64" where
  "ledger_height L m s ch = (if tl ch = [] then s else evm_num_of L m (last ch))"

text \<open>
  The contents of an EVM block, by the ledger: the transactions of the native blocks of its
  number, in order, and the id of the last of these blocks. Only the block the node started
  from may hold older transactions before them.
\<close>

definition ledger_block ::
  "'tx lib \<Rightarrow> block_mapping \<Rightarrow> u64 \<Rightarrow> bytes32 \<Rightarrow> native_block list \<Rightarrow> 'tx block \<Rightarrow> bool" where
  "ledger_block L m s i ch q \<longleftrightarrow>
     (\<exists>pre txs. blk_transactions q = pre @ txs \<and>
        list_all2 (tx_of L) (actions_at L m (blk_number q) ch) txs \<and>
        (blk_number q \<noteq> s \<longrightarrow> pre = [])) \<and>
     bound_ok L m i ch (view_of q)"

text \<open>The last block published for a number: what a reader of the channel holds for it.\<close>

definition latest :: "'tx block list \<Rightarrow> u64 \<Rightarrow> 'tx block option" where
  "latest bs k = find (\<lambda>b. blk_number b = k) (rev bs)"

lemma find_append: "find P (xs @ ys) = (case find P xs of None \<Rightarrow> find P ys | Some x \<Rightarrow> Some x)"
  by (induction xs) auto

lemma latest_append: "latest (xs @ ys) k = (case latest ys k of None \<Rightarrow> latest xs k | Some q \<Rightarrow> Some q)"
  unfolding latest_def by (simp add: find_append)

lemma latest_none: "\<forall>q \<in> set ys. blk_number q \<noteq> k \<Longrightarrow> latest ys k = None"
  by (auto simp: latest_def find_None_iff)

section \<open>Growing chains\<close>

text \<open>A block that extends another and has a greater number, which the addition alone does not say.\<close>

definition grows :: "'tx lib \<Rightarrow> 'tx block \<Rightarrow> 'tx block \<Rightarrow> bool" where
  "grows L a b \<longleftrightarrow> extends_block L a b \<and> blk_number a < blk_number b"

lemma linked_grows:
  assumes "linked succ_number (map view_of es)" "hash_linked L es"
  shows "linked (grows L) es"
  using assms unfolding hash_linked_def
  by (induction es rule: induct_list012) (auto simp: grows_def extends_block_def succ_number_def)

lemma grows_less:
  assumes "linked (grows L) (xs @ ys)" "x \<in> set xs" "y \<in> set ys"
  shows "blk_number x < blk_number y"
  by (rule linked_less [OF assms(1) _ assms(2,3)]) (simp add: grows_def)

lemma grows_hd_le: "linked (grows L) xs \<Longrightarrow> x \<in> set xs \<Longrightarrow> blk_number (hd xs) \<le> blk_number x"
  by (rule linked_hd_le [where r = "grows L"]) (auto simp: grows_def)

lemma latest_of_growing:
  assumes "linked (grows L) ys" "q \<in> set ys"
  shows "latest (xs @ ys) (blk_number q) = Some q"
proof -
  obtain as bs where s: "ys = as @ q # bs" using assms(2) by (meson split_list)
  then have "\<forall>x \<in> set bs. blk_number x \<noteq> blk_number q"
    using grows_less [of L "as @ [q]" bs q] assms(1) by fastforce
  then have "latest bs (blk_number q) = None" by (rule latest_none)
  moreover have "latest [q] (blk_number q) = Some q" by (simp add: latest_def)
  ultimately have "latest ((xs @ as) @ [q] @ bs) (blk_number q) = Some q"
    unfolding latest_append by simp
  then show ?thesis by (simp add: s)
qed

lemma latest_before_growing:
  assumes "linked (grows L) (us @ ys)" "u \<in> set us"
  shows "latest (xs @ ys) (blk_number u) = latest xs (blk_number u)"
proof -
  have "latest ys (blk_number u) = None"
    using grows_less [OF assms(1,2)] by (intro latest_none) fastforce
  then show ?thesis by (simp add: latest_append)
qed

section \<open>What a block holds depends on its number only\<close>

lemma natives_at_below: "\<forall>x \<in> set ns. k < evm_num_of L m x \<Longrightarrow> natives_at L m k ns = []"
  by (rule natives_at_none) auto

lemma natives_at_above: "\<forall>x \<in> set ns. evm_num_of L m x < k \<Longrightarrow> natives_at L m k ns = []"
  by (rule natives_at_none) auto

lemma ledger_block_cong:
  "natives_at L m (blk_number q) ch = natives_at L m (blk_number q) ch' \<Longrightarrow>
   ledger_block L m s i ch q \<longleftrightarrow> ledger_block L m s i ch' q"
  by (simp add: ledger_block_def actions_at_def bound_ok_def)

lemma core_inv_block:
  assumes "core_inv L m s i ns (map view_of es)" "q \<in> set es"
  shows "ledger_block L m s i ns q"
proof -
  have v: "view_of q \<in> set (map view_of es)" using assms(2) by simp
  with assms(1) have "bound_ok L m i ns (view_of q)" unfolding core_inv_def by blast
  moreover have "\<exists>pre txs. vw_txs (view_of q) = pre @ txs \<and>
      list_all2 (tx_of L) (actions_at L m (vw_number (view_of q)) ns) txs \<and>
      (vw_number (view_of q) \<noteq> s \<longrightarrow> pre = [])"
    using assms(1) v unfolding core_inv_def faithful_def by blast
  ultimately show ?thesis by (simp add: ledger_block_def)
qed

text \<open>The cached native blocks belong to the cached EVM blocks, or come later.\<close>

lemma core_inv_numbers:
  assumes "core_inv L m s i ns (map view_of es)" "x \<in> set ns"
  shows "blk_number (hd es) \<le> evm_num_of L m x"
proof -
  have "native_chain L m ns" "es \<noteq> []" and le: "vw_number (hd (map view_of es)) \<le> evm_num_of L m (hd ns)"
    using assms(1) by (auto simp: core_inv_def aligned_def)
  then have "blk_number (hd es) \<le> evm_num_of L m (hd ns)" by (simp add: hd_map)
  also have "\<dots> \<le> evm_num_of L m x"
    using \<open>native_chain L m ns\<close> assms(2)
    by (intro linked_hd_le [where r = "child_of L m"]) (auto simp: native_chain_def child_evm_num)
  finally show ?thesis .
qed

section \<open>The relation between ledger and plugin\<close>

text \<open>
  The ledger and the published blocks continue the cached lists to the front: \<open>dn\<close> and \<open>us\<close> are
  what the plugin has dropped.
\<close>

definition archive ::
  "'tx lib \<Rightarrow> block_mapping \<Rightarrow> u64 \<Rightarrow> bytes32 \<Rightarrow> native_block list \<Rightarrow> 'tx conv \<Rightarrow> 'tx block list \<Rightarrow> bool" where
  "archive L m s i ch st h \<longleftrightarrow>
     (\<exists>dn us. ch = dn @ cv_native_blocks st \<and> native_chain L m ch \<and>
        (\<forall>d \<in> set dn. evm_num_of L m d < blk_number (hd (cv_evm_blocks st))) \<and>
        linked (grows L) (us @ cv_evm_blocks st) \<and> blk_number (hd (us @ cv_evm_blocks st)) = s \<and>
        (\<forall>u \<in> set us. ledger_block L m s i dn u) \<and>
        (\<forall>e \<in> set (butlast (us @ cv_evm_blocks st)). latest h (blk_number e) = Some e) \<and>
        blk_number (last (cv_evm_blocks st)) = ledger_height L m s ch)"

lemma pruned_split:
  assumes "pruned L m lib ns es ns' es' el el'" "es' \<noteq> []"
  obtains dn dv where "ns = dn @ ns'" "es = dv @ es'"
    "\<forall>d \<in> set dn. evm_num_of L m d < blk_number (hd es')"
proof (cases "lib_block_of ns lib")
  case None
  with assms that [of "[]" "[]"] show thesis by (simp add: pruned_def)
next
  case (Some x)
  let ?l = "ucast (lib_evm_block_num L m (nb_timestamp x) - 1) :: u64"
  have ns': "ns' = dropWhile (\<lambda>nb. evm_num_of L m nb < ?l) ns"
    and es': "es' = dropWhile (\<lambda>e. blk_number e < ?l) es"
    using assms(1) Some by (simp_all add: pruned_def Let_def)
  have "\<not> blk_number (hd es') < ?l" using assms(2) unfolding es' by (rule hd_dropWhile)
  then have "\<forall>d \<in> set (takeWhile (\<lambda>nb. evm_num_of L m nb < ?l) ns). evm_num_of L m d < blk_number (hd es')"
    by (auto dest: set_takeWhileD)
  then show thesis by (intro that [of "takeWhile (\<lambda>nb. evm_num_of L m nb < ?l) ns" "takeWhile (\<lambda>e. blk_number e < ?l) es"])
    (simp_all add: ns' es')
qed

text \<open>The EVM blocks after a step are those before it, cut at the fork, then the new ones.\<close>

lemma linked_to_front:
  assumes "linked_to L m b ns es ns1 es1" "es \<noteq> []"
  shows "es1 \<noteq> []" "\<exists>r. ns = ns1 @ r" "\<exists>d. butlast es = butlast es1 @ d"
    "blk_number (hd es1) = blk_number (hd es)"
    "hd_parent_hash (blk_header (hd es1)) = hd_parent_hash (blk_header (hd es))"
proof -
  show "\<exists>r. ns = ns1 @ r" using assms(1) by (simp add: linked_to_def)
  have "es1 \<noteq> [] \<and> (\<exists>d. butlast es = butlast es1 @ d) \<and> blk_number (hd es1) = blk_number (hd es) \<and>
    hd_parent_hash (blk_header (hd es1)) = hd_parent_hash (blk_header (hd es))"
  proof (cases "es1 = es")
    case False
    with assms(1) obtain us e d txs where e: "es = us @ e # d"
      "es1 = us @ [set_upper_bound (e\<lparr>blk_transactions := txs\<rparr>) (last ns1)]"
      by (auto simp: linked_to_def)
    then show ?thesis by (cases us) (auto simp: set_upper_bound_def butlast_append)
  qed (use assms(2) in simp)
  then show "es1 \<noteq> []" "\<exists>d. butlast es = butlast es1 @ d" "blk_number (hd es1) = blk_number (hd es)"
    "hd_parent_hash (blk_header (hd es1)) = hd_parent_hash (blk_header (hd es))" by simp_all
qed

lemma appended_front:
  assumes app: "appended L m eng b ns1 es1 st st' ps ceffs es' c" and es1: "es1 \<noteq> []" and hash: "hash_linked L es1"
    and core: "linked succ_number (map view_of (butlast es' @ [c]))"
  shows "blk_number (hd (butlast es' @ [c])) = blk_number (hd es1)"
    "hd_parent_hash (blk_header (hd (butlast es' @ [c]))) = hd_parent_hash (blk_header (hd es1))"
    "linked (grows L) (butlast es' @ [c])"
    "butlast es' = butlast es1 @ ps" "blk_number c = blk_number (last es')"
proof -
  have ext: "extended L (evm_num_of L m b) es1 es' ps" and fill: "fill_evm_block L eng b (last es') = Inr (c, ceffs)"
    using app by (simp_all add: appended_def)
  have es': "es' \<noteq> []" "butlast es' = butlast es1 @ ps" using ext by (simp_all add: extended_def)
  then show "butlast es' = butlast es1 @ ps" by simp
  obtain ts where c: "hd_parent_hash (blk_header c) = hd_parent_hash (blk_header (last es'))"
    "view_of c = with_bound (view_of (last es')) (blk_transactions (last es') @ ts) b"
    by (rule fill_evm_block_Inr [OF fill])
  have "vw_number (view_of c) = blk_number (last es')" unfolding c(2) by simp
  then show num: "blk_number c = blk_number (last es')" by simp
  have "blk_number (hd (butlast es' @ [c])) = blk_number (hd es') \<and>
    hd_parent_hash (blk_header (hd (butlast es' @ [c]))) = hd_parent_hash (blk_header (hd es'))"
    using es'(1) num c(1) by (cases es' rule: rev_cases) (auto simp: hd_append)
  then show "blk_number (hd (butlast es' @ [c])) = blk_number (hd es1)"
    "hd_parent_hash (blk_header (hd (butlast es' @ [c]))) = hd_parent_hash (blk_header (hd es1))"
    using extended_hd [OF ext es1] by simp_all
  have "hash_linked L (butlast es' @ [c])"
    using ext hash by (intro hash_linked_fill es'(1) c(1)) (simp add: extended_def)
  then show "linked (grows L) (butlast es' @ [c])" using core by (rule linked_grows [rotated])
qed

section \<open>One step\<close>

text \<open>The ledger follows: the parent is cached, and the block is not in the ledger.\<close>

lemma ledger_appends:
  assumes chain: "native_chain L m (dn @ ns1 @ r)" and ext: "native_chain L m (ns1 @ [b])"
    and ns1: "ns1 \<noteq> []" "nb_id (last ns1) = nb_prev b" and new: "\<forall>a \<in> set r. nb_id a \<noteq> nb_id b"
  shows "native_chain L m (dn @ ns1 @ [b])"
    "ledger_step b (dn @ ns1 @ r) = Some (dn @ ns1 @ [b])"
proof -
  show chain': "native_chain L m (dn @ ns1 @ [b])"
    using chain ext ns1(1) by (auto simp: native_chain_append)
  obtain ns0 x where x: "ns1 = ns0 @ [x]" using ns1(1) by (cases ns1 rule: rev_cases) auto
  have "\<forall>a \<in> set (dn @ ns1). nb_id a \<noteq> nb_id b"
    using chain_ids [of L m "dn @ ns1" "[b]"] chain' by fastforce
  moreover have "\<forall>a \<in> set (dn @ ns0). nb_id a \<noteq> nb_prev b"
    using chain_ids [of L m "dn @ ns0" "x # r"] chain ns1(2) x by fastforce
  then have "path_to ((dn @ ns0) @ x # r) (nb_prev b) = (dn @ ns0) @ [x]"
    using ns1(2) x by (intro path_to_append) simp_all
  ultimately show "ledger_step b (dn @ ns1 @ r) = Some (dn @ ns1 @ [b])"
    using ns1(2) new x by (auto simp: ledger_step_def list_ex_iff)
qed

text \<open>What is dropped in a step agrees with the ledger, and so does what was dropped before it.\<close>

lemma archived_blocks:
  assumes core: "core_inv L m s i (dn1 @ ns) (map view_of (dv @ es))" "core_inv L m s i ns (map view_of es)"
    and grow: "linked (grows L) (us @ dv @ es)" and es: "es \<noteq> []"
    and dn: "\<forall>d \<in> set dn. evm_num_of L m d < blk_number (hd (dv @ es))"
    and us: "\<forall>u \<in> set us. ledger_block L m s i dn u"
  shows "\<forall>u \<in> set (us @ dv). ledger_block L m s i (dn @ dn1) u"
proof
  fix u assume "u \<in> set (us @ dv)"
  then consider "u \<in> set us" | "u \<in> set dv" by auto
  then show "ledger_block L m s i (dn @ dn1) u"
  proof cases
    case 1
    then have "blk_number u < blk_number (hd (dv @ es))"
      using grows_less [OF grow, of u "hd (dv @ es)"] es by (cases dv) auto
    moreover have "\<forall>x \<in> set dn1. blk_number (hd (dv @ es)) \<le> evm_num_of L m x"
      using core_inv_numbers [OF core(1)] by auto
    ultimately have "natives_at L m (blk_number u) dn1 = []"
      by (intro natives_at_below) (auto intro: less_le_trans)
    with 1 us show ?thesis using ledger_block_cong [of L m u "dn @ dn1" dn] by simp
  next
    case 2
    have g: "linked (grows L) (dv @ es)" using grow by (rule linked_suffix)
    have u: "u \<in> set (dv @ es)" "blk_number u < blk_number (hd es)"
      using 2 grows_less [OF g] es by auto
    have "natives_at L m (blk_number u) ns = []"
      using core_inv_numbers [OF core(2)] u(2) by (intro natives_at_below) (auto intro: less_le_trans)
    moreover have "natives_at L m (blk_number u) dn = []"
      using dn grows_hd_le [OF g u(1)] by (intro natives_at_above) (auto intro: less_le_trans)
    ultimately have "natives_at L m (blk_number u) (dn @ dn1) = natives_at L m (blk_number u) (dn1 @ ns)"
      by simp
    with core_inv_block [OF core(1) u(1)] show ?thesis using ledger_block_cong by blast
  qed
qed

lemma latest_of_archive:
  assumes "linked (grows L) (us @ ps)" "\<forall>e \<in> set us. latest h (blk_number e) = Some e"
  shows "\<forall>e \<in> set (us @ ps). latest (h @ ps) (blk_number e) = Some e"
  using assms latest_before_growing [OF assms(1)] latest_of_growing [OF linked_suffix [OF assms(1)]] by auto

lemma archive_new_block:
  assumes wf: "conv_wf L m s i st" and b: "block_ok L m st b"
    and on: "on_native_block L db eng b st = Some (Inr (st', effs))"
    and new: "\<forall>a \<in> set (cv_native_blocks st). nb_id a \<noteq> nb_id b"
    and arch: "archive L m s i ch st h"
  shows "\<exists>ch'. ledger_step b ch = Some ch' \<and> archive L m s i ch' st' (h @ published effs)"
proof -
  let ?ns = "cv_native_blocks st" and ?es = "cv_evm_blocks st"
  have hash: "hash_linked L ?es" and es: "?es \<noteq> []"
    using wf by (auto simp: conv_wf_def conv_inv_def view_inv_def core_inv_def)
  obtain ns1 es1 ps ceffs es' c where link: "linked_to L m b ?ns ?es ns1 es1"
    and inv1: "view_inv L m s i ns1 (map view_of es1)" and app: "appended L m eng b ns1 es1 st st' ps ceffs es' c"
    and rest: "view_inv L m s i (ns1 @ [b]) (map view_of (butlast es' @ [c]))"
    and inv': "conv_inv L m s i st'" and ps: "published effs = ps"
    by (rule new_block_steps [OF wf b on new])
  from arch obtain dn us where ch: "ch = dn @ ?ns" "native_chain L m ch"
    and dn: "\<forall>d \<in> set dn. evm_num_of L m d < blk_number (hd ?es)"
    and us: "linked (grows L) (us @ ?es)" "blk_number (hd (us @ ?es)) = s" "\<forall>u \<in> set us. ledger_block L m s i dn u"
    and seen: "\<forall>e \<in> set (butlast (us @ ?es)). latest h (blk_number e) = Some e"
    unfolding archive_def by blast
  note front = linked_to_front [OF link es]
  obtain r d where r: "?ns = ns1 @ r" and d: "butlast ?es = butlast es1 @ d" using front by blast
  let ?F = "butlast es' @ [c]"
  have core: "core_inv L m s i (ns1 @ [b]) (map view_of ?F)" using rest by (simp add: view_inv_def)
  then have succ: "linked succ_number (map view_of ?F)" by (simp add: core_inv_def)
  note F = appended_front [OF app front(1) linked_to_hash_linked [OF link hash] succ]
  have hdF: "blk_number (hd ?F) = blk_number (hd ?es)"
    "hd_parent_hash (blk_header (hd ?F)) = hd_parent_hash (blk_header (hd ?es))"
    using F(1,2) front(4,5) by simp_all
  have growsF: "linked (grows L) (us @ ?F)"
    using us(1) F(3) hdF es by (auto simp: linked_append grows_def extends_block_def)
  have child: "native_chain L m (ns1 @ [b])" using core by (simp add: core_inv_def)
  have step: "native_chain L m (dn @ ns1 @ [b])" "ledger_step b ch = Some (dn @ ns1 @ [b])"
    using ledger_appends [OF _ child] ch link new r by (auto simp: linked_to_def)
  have ne: "cv_evm_blocks st' \<noteq> []" using inv' by (auto simp: conv_inv_def view_inv_def core_inv_def)
  obtain dn1 dv where cut: "ns1 @ [b] = dn1 @ cv_native_blocks st'" "?F = dv @ cv_evm_blocks st'"
    "\<forall>d \<in> set dn1. evm_num_of L m d < blk_number (hd (cv_evm_blocks st'))"
    using app unfolding appended_def by (blast intro: pruned_split [OF _ ne])
  have core': "core_inv L m s i (cv_native_blocks st') (map view_of (cv_evm_blocks st'))"
    using inv' by (simp add: conv_inv_def view_inv_def)
  have "archive L m s i (dn @ ns1 @ [b]) st' (h @ ps)"
    unfolding archive_def
  proof (intro exI [of _ "dn @ dn1"] exI [of _ "us @ dv"] conjI)
    show "dn @ ns1 @ [b] = (dn @ dn1) @ cv_native_blocks st'" using cut(1) by simp
    show "native_chain L m (dn @ ns1 @ [b])" by (rule step)
    have le: "blk_number (hd ?F) \<le> blk_number (hd (cv_evm_blocks st'))"
      using grows_hd_le [OF F(3)] cut(2) ne by (metis Un_iff hd_in_set set_append)
    then show "\<forall>d \<in> set (dn @ dn1). evm_num_of L m d < blk_number (hd (cv_evm_blocks st'))"
      using dn cut(3) hdF(1) by (auto intro: less_le_trans)
    show "linked (grows L) ((us @ dv) @ cv_evm_blocks st')" using growsF cut(2) by simp
    show "blk_number (hd ((us @ dv) @ cv_evm_blocks st')) = s"
      using us(2) hdF(1) cut(2) es by (cases us) (auto simp: hd_append simp flip: append_assoc)
    show "\<forall>u \<in> set (us @ dv). ledger_block L m s i (dn @ dn1) u"
      using archived_blocks [of L m s i dn1 "cv_native_blocks st'" dv "cv_evm_blocks st'" us dn]
        core core' growsF dn us(3) hdF(1) ne unfolding cut(1,2) by simp
    have "butlast ((us @ dv) @ cv_evm_blocks st') = (us @ butlast es1) @ ps"
      using cut(2) F(4) by (metis append.assoc butlast_snoc)
    moreover have "\<forall>e \<in> set (us @ butlast es1). latest h (blk_number e) = Some e"
      using seen d es by (auto simp: butlast_append)
    ultimately show "\<forall>e \<in> set (butlast ((us @ dv) @ cv_evm_blocks st')). latest (h @ ps) (blk_number e) = Some e"
      using latest_of_archive [of L "us @ butlast es1" ps h] growsF F(4)
        linked_prefix [of "grows L" "(us @ butlast es1) @ ps" "[c]"] by simp
    have "last (cv_evm_blocks st') = c" using cut(2) ne by (metis last_appendR last_snoc)
    moreover have "evm_num_of L m (last ns1) \<le> evm_num_of L m b"
      using child link by (auto simp: native_chain_append child_of_def linked_to_def)
    then have "blk_number (last es') = evm_num_of L m b"
      using app inv1 extended_view(2) unfolding appended_def by blast
    moreover have "tl (dn @ ns1 @ [b]) \<noteq> []" using link by (cases dn; cases ns1) (auto simp: linked_to_def)
    ultimately show "blk_number (last (cv_evm_blocks st')) = ledger_height L m s (dn @ ns1 @ [b])"
      using F(5) by (simp add: ledger_height_def)
  qed
  with step(2) ps show ?thesis by blast
qed

text \<open>A block that is cached already changes neither side.\<close>

lemma cached_id_not_after_last:
  assumes wf: "conv_wf L m s i st" and b: "block_ok L m st b"
    and a: "a \<in> set (cv_native_blocks st)" "nb_id a = nb_id b"
  shows "nb_id (last (cv_native_blocks st)) \<noteq> nb_prev b"
proof
  assume prev: "nb_id (last (cv_native_blocks st)) = nb_prev b"
  have "native_chain L m (cv_native_blocks st)" "native_chain L m [b]" "cv_native_blocks st \<noteq> []"
    using wf b conv_inv_chain [of L m s i st] a by (auto simp: conv_wf_def block_ok_def native_chain_def)
  with b prev have "native_chain L m (cv_native_blocks st @ [b])"
    by (simp add: native_chain_append block_ok_def)
  from chain_ids [OF this a(1)] a(2) show False by simp
qed

lemma cached_id_ignored:
  assumes wf: "conv_wf L m s i st" and b: "block_ok L m st b"
    and a: "a \<in> set (cv_native_blocks st)" "nb_id a = nb_id b"
  shows "on_native_block L db eng b st = Some (Inr (st, []))"
proof -
  have "find (\<lambda>nb. nb_id nb = nb_id b) (cv_native_blocks st) \<noteq> None" using a by (auto simp: find_None_iff)
  then show ?thesis
    using cached_id_not_after_last [OF wf b a] b wf
    by (auto simp: on_native_block_def link_native_block_def not_le block_ok_def conv_wf_def conv_inv_def)
qed

lemma archive_step:
  assumes wf: "conv_wf L m s i st" and b: "block_ok L m st b"
    and on: "on_native_block L db eng b st = Some (Inr (st', effs))"
    and arch: "archive L m s i ch st h"
  shows "\<exists>ch'. ledger_step b ch = Some ch' \<and> archive L m s i ch' st' (h @ published effs)"
proof (cases "\<exists>a \<in> set (cv_native_blocks st). nb_id a = nb_id b")
  case True
  then obtain a where a: "a \<in> set (cv_native_blocks st)" "nb_id a = nb_id b" by blast
  have "on_native_block L db eng b st = Some (Inr (st, []))" by (rule cached_id_ignored [OF wf b a])
  moreover have "a \<in> set ch" using arch a(1) by (auto simp: archive_def)
  then have "ledger_step b ch = Some ch" using a(2) by (auto simp: ledger_step_def list_ex_iff)
  ultimately show ?thesis using on arch by simp
next
  case False
  then show ?thesis by (intro archive_new_block [OF wf b on _ arch]) blast
qed

definition conv_related ::
  "'tx lib \<Rightarrow> block_mapping \<Rightarrow> u64 \<Rightarrow> bytes32 \<Rightarrow> native_block list \<Rightarrow> 'tx conv \<Rightarrow> 'tx conv_effect list \<Rightarrow> bool" where
  "conv_related L m s i ch st es \<longleftrightarrow> archive L m s i ch st (published es)"

interpretation ledger: refining_handler "conv_step L db" "conv_ok L m" "conv_wf L m s i"
  "\<lambda>(b, eng). ledger_step b" "conv_related L m s i"
  for L :: "'tx lib" and db m s i
proof
  fix st st' and b :: "native_block \<times> bool" and es h ch
  show "\<exists>ch'. (case b of (b, eng) \<Rightarrow> ledger_step b) ch = Some ch' \<and> conv_related L m s i ch' st' (h @ es)"
    if "conv_wf L m s i st" "conv_related L m s i ch st h" "conv_ok L m st b"
      "conv_step L db b st = Some (Inr (st', es))"
  proof -
    obtain nb eng where b: "b = (nb, eng)" by (cases b)
    with that archive_step [of L m s i st nb db eng st' es ch "published h"] show ?thesis
      by (simp add: conv_step_def conv_ok_def conv_related_def)
  qed
qed

section \<open>The EVM chain that was published\<close>

lemma growing_nth:
  assumes "linked (grows L) es" "n < length es"
  shows "unat (blk_number (es ! n)) = unat (blk_number (hd es)) + n"
  using assms(2)
proof (induction n)
  case (Suc n)
  have "grows L (es ! n) (es ! Suc n)" using assms(1) Suc.prems by (rule linked_nth)
  then have "succ_number (view_of (es ! n)) (view_of (es ! Suc n))"
    unfolding grows_def extends_block_def succ_number_def view_of_simps by blast
  from succ_number_unat [OF this] Suc show ?case by simp
qed (use assms(2) in \<open>simp add: hd_conv_nth\<close>)

text \<open>Every block of the archive is as the ledger says.\<close>

lemma archive_blocks:
  assumes core: "core_inv L m s i ns (map view_of es)" "linked (grows L) (us @ es)" "es \<noteq> []"
    and dn: "\<forall>d \<in> set dn. evm_num_of L m d < blk_number (hd es)"
    and us: "\<forall>u \<in> set us. ledger_block L m s i dn u" and q: "q \<in> set (us @ es)"
  shows "ledger_block L m s i (dn @ ns) q"
proof (cases "q \<in> set us")
  case True
  have "natives_at L m (blk_number q) ns = []"
    using core_inv_numbers [OF core(1)] grows_less [OF core(2) True, of "hd es"] core(3)
    by (intro natives_at_below) (auto intro: less_le_trans)
  then show ?thesis using us True ledger_block_cong [of L m q "dn @ ns" dn] by simp
next
  case False
  then have e: "q \<in> set es" using q by simp
  have "natives_at L m (blk_number q) dn = []"
    using dn grows_hd_le [OF linked_suffix [OF core(2)] e] by (intro natives_at_above) (auto intro: less_le_trans)
  then show ?thesis using core_inv_block [OF core(1) e] ledger_block_cong [of L m q "dn @ ns" ns] by simp
qed

text \<open>Below the height, the last published blocks are those of the archive.\<close>

lemma archive_latest:
  assumes arch: "archive L m s i ch st h" and inv: "conv_inv L m s i st"
    and k: "s \<le> k" "k < ledger_height L m s ch"
  shows "\<exists>q. latest h k = Some q \<and> ledger_block L m s i ch q \<and>
    (k \<noteq> s \<longrightarrow> (\<exists>p. latest h (k - 1) = Some p \<and> hd_parent_hash (blk_header q) = lib_header_hash L (blk_header p)))"
proof -
  let ?es = "cv_evm_blocks st"
  from arch obtain dn us where ch: "ch = dn @ cv_native_blocks st"
    and dn: "\<forall>d \<in> set dn. evm_num_of L m d < blk_number (hd ?es)"
    and grow: "linked (grows L) (us @ ?es)" "blk_number (hd (us @ ?es)) = s"
    and us: "\<forall>u \<in> set us. ledger_block L m s i dn u"
    and seen: "\<forall>e \<in> set (butlast (us @ ?es)). latest h (blk_number e) = Some e"
    and height: "blk_number (last ?es) = ledger_height L m s ch"
    unfolding archive_def by blast
  have core: "core_inv L m s i (cv_native_blocks st) (map view_of ?es)" and es: "?es \<noteq> []"
    using inv by (auto simp: conv_inv_def view_inv_def core_inv_def)
  let ?all = "us @ ?es"
  note num = growing_nth [OF grow(1), unfolded grow(2)]
  define j where "j = unat k - unat s"
  have "unat (ledger_height L m s ch) = unat s + (length ?all - 1)"
    using num [of "length ?all - 1"] es height last_conv_nth [of ?all] by simp
  then have j: "Suc j < length ?all" using k by (simp add: j_def word_le_nat_alt word_less_nat_alt)
  have at: "latest h (blk_number (?all ! n)) = Some (?all ! n)" if "Suc n < length ?all" for n
    using seen that nth_mem [of n "butlast ?all"] nth_butlast [of n ?all] by simp
  have q: "blk_number (?all ! j) = k"
    using num [of j] j k(1) by (simp add: j_def word_le_nat_alt word_unat_eq_iff)
  have "ledger_block L m s i ch (?all ! j)"
    unfolding ch by (rule archive_blocks [OF core grow(1) es dn us nth_mem]) (use j in simp)
  moreover have "\<exists>p. latest h (k - 1) = Some p \<and> hd_parent_hash (blk_header (?all ! j)) = lib_header_hash L (blk_header p)"
    if "k \<noteq> s"
  proof -
    from that k(1) obtain j' where j': "j = Suc j'"
      using word_unat_eq_iff [of k s] by (cases j) (auto simp: j_def word_le_nat_alt)
    have "grows L (?all ! j') (?all ! j)" using linked_nth [OF grow(1), of j'] j j' by simp
    then have "hd_parent_hash (blk_header (?all ! j)) = lib_header_hash L (blk_header (?all ! j'))"
      "blk_number (?all ! j) = blk_number (?all ! j') + 1"
      by (auto simp: grows_def extends_block_def)
    moreover from this(2) q have "k - 1 = blk_number (?all ! j')" by simp
    ultimately show ?thesis using at [of j'] j j' by auto
  qed
  ultimately show ?thesis using at [of j] j q by auto
qed

section \<open>Properties\<close>

text \<open>The native block that the ledger starts from.\<close>

lemma archive_start:
  assumes "load_head L db n a conv_init = Inr (st0, a')" "\<not> app_quitting a'"
    and "get_canonical_block_at_height db n = Some b0" "start_mapped L db b0" "lib_ok L" "cv_bm st0 = Some m"
  shows "conv_wf L m (blk_number b0) (hd_prev_randao (blk_header b0)) st0"
    "conv_related L m (blk_number b0) (hd_prev_randao (blk_header b0)) (cv_native_blocks st0) st0 []"
proof -
  note start = start_recorded [OF assms]
  show "conv_wf L m (blk_number b0) (hd_prev_randao (blk_header b0)) st0" by (rule start)
  then have "native_chain L m (cv_native_blocks st0)" using conv_inv_chain unfolding conv_wf_def by blast
  with start(3,4) show "conv_related L m (blk_number b0) (hd_prev_randao (blk_header b0)) (cv_native_blocks st0) st0 []"
    by (auto simp: conv_related_def archive_def ledger_height_def intro!: exI [of _ "[]"])
qed

text \<open>
  C1: The plugin refines the ledger. From the state that \<open>load_head\<close> leaves, over every history of
  admissible native blocks with forks and duplicates: the ledger accepts the same blocks; and
  for every number from the starting block up to the height of the ledger, the last EVM block
  published for it holds exactly the transactions that the ledger has for it, in order, carries
  the id of the last native block of that number, and its parent hash is the hash of the last
  block published for the number before. Dropping irreversible blocks loses nothing.
\<close>

theorem published_chain_refines_ledger:
  assumes "load_head L db n a conv_init = Inr (st0, a')" "\<not> app_quitting a'"
    and "get_canonical_block_at_height db n = Some b0" "start_mapped L db b0" "lib_ok L" "cv_bm st0 = Some m"
    and "handled (conv_step L db) (conv_ok L m) st0 bs es st"
  shows "\<exists>ch. run_spec (\<lambda>(b, eng). ledger_step b) bs (cv_native_blocks st0) = Some ch \<and>
    (\<forall>k. blk_number b0 \<le> k \<longrightarrow> k < ledger_height L m (blk_number b0) ch \<longrightarrow>
      (\<exists>q. latest (published es) k = Some q \<and>
         ledger_block L m (blk_number b0) (hd_prev_randao (blk_header b0)) ch q \<and>
         (k \<noteq> blk_number b0 \<longrightarrow> (\<exists>p. latest (published es) (k - 1) = Some p \<and>
            hd_parent_hash (blk_header q) = lib_header_hash L (blk_header p)))))"
proof -
  note start = archive_start [OF assms(1-6)]
  from ledger.handled_refines [OF assms(7) start] obtain ch where
    ch: "run_spec (\<lambda>(b, eng). ledger_step b) bs (cv_native_blocks st0) = Some ch"
    "conv_related L m (blk_number b0) (hd_prev_randao (blk_header b0)) ch st ([] @ es)" by blast
  have "conv_inv L m (blk_number b0) (hd_prev_randao (blk_header b0)) st"
    using conversion.handled_inv [OF assms(7) start(1)] by (simp add: conv_wf_def)
  with ch archive_latest [of L m _ _ ch st "published es"] show ?thesis by (simp add: conv_related_def)
qed

theorem published_chain_refines_ledger_witness:
  "\<exists>st es ch q. sample_run [sample_n1, sample_n2, sample_n2', sample_n3] = Some (st, es) \<and>
     run_spec (\<lambda>(b, eng). ledger_step b) (map (\<lambda>b. (b, True)) [sample_n1, sample_n2, sample_n2', sample_n3])
       (cv_native_blocks sample_conv) = Some ch \<and>
     latest (published es) 4 = Some q \<and> ledger_block sample_lib sample_mapping 3 (sample_id 10 0) ch q"
proof -
  let ?bs = "[sample_n1, sample_n2, sample_n2', sample_n3]"
  have "(case sample_run ?bs of Some r \<Rightarrow> True | None \<Rightarrow> False)" by code_simp
  then obtain st es where run: "sample_run ?bs = Some (st, es)" by (auto split: option.splits)
  have start: "get_canonical_block_at_height sample_chain_db None = Some sample_start_block" by code_simp
  have b0: "blk_number sample_start_block = 3" "hd_prev_randao (blk_header sample_start_block) = sample_id 10 0"
    by code_simp+
  have bm: "cv_bm sample_conv = Some sample_mapping" by code_simp
  have h: "(case run_spec (\<lambda>(b, eng). ledger_step b) (map (\<lambda>b. (b, True)) ?bs) (cv_native_blocks sample_conv) of
      Some ch \<Rightarrow> 4 < ledger_height sample_lib sample_mapping 3 ch | None \<Rightarrow> False)" by code_simp
  from published_chain_refines_ledger [OF sample_load_head _ start sample_start_mapped sample_lib_ok bm
      sample_run_handled [OF run]] obtain ch where
    ch: "run_spec (\<lambda>(b, eng). ledger_step b) (map (\<lambda>b. (b, True)) ?bs) (cv_native_blocks sample_conv) = Some ch"
    "\<forall>k. 3 \<le> k \<longrightarrow> k < ledger_height sample_lib sample_mapping 3 ch \<longrightarrow>
      (\<exists>q. latest (published es) k = Some q \<and> ledger_block sample_lib sample_mapping 3 (sample_id 10 0) ch q)"
    unfolding b0 by fastforce
  from ch(1) h have "4 < ledger_height sample_lib sample_mapping 3 ch" by simp
  with ch(2) have "\<exists>q. latest (published es) 4 = Some q \<and> ledger_block sample_lib sample_mapping 3 (sample_id 10 0) ch q"
    by simp
  with run ch(1) show ?thesis by blast
qed

text \<open>The block last published for a number, when the ledger has come to a given chain.\<close>

lemma latest_of_history:
  assumes start: "load_head L db n a conv_init = Inr (st0, a')" "\<not> app_quitting a'"
    "get_canonical_block_at_height db n = Some b0" "start_mapped L db b0" "lib_ok L" "cv_bm st0 = Some m"
    and h: "handled (conv_step L db1) (conv_ok L m) st0 bs es st"
    and ch: "run_spec (\<lambda>(b, eng). ledger_step b) bs (cv_native_blocks st0) = Some ch"
    and k: "blk_number b0 < k" "k < ledger_height L m (blk_number b0) ch"
  obtains q where "latest (published es) k = Some q" "blk_number q = k"
    "list_all2 (tx_of L) (actions_at L m k ch) (blk_transactions q)"
    "bound_ok L m (hd_prev_randao (blk_header b0)) ch (view_of q)"
proof -
  let ?i = "hd_prev_randao (blk_header b0)" and ?s = "blk_number b0"
  note s = archive_start [OF start]
  from ledger.handled_refines [OF h s] ch have "conv_related L m ?s ?i ch st ([] @ es)" by auto
  moreover have "conv_inv L m ?s ?i st" using conversion.handled_inv [OF h s(1)] by (simp add: conv_wf_def)
  ultimately obtain q where q: "latest (published es) k = Some q" "ledger_block L m ?s ?i ch q"
    using archive_latest [of L m ?s ?i ch st "published es" k] less_imp_le [OF k(1)] k(2)
    by (auto simp: conv_related_def)
  then have "blk_number q = k" by (auto simp: latest_def dest: find_SomeD)
  with q k(1) show thesis by (intro that) (auto simp: ledger_block_def)
qed

text \<open>The actions of a block determine its transactions.\<close>

lemma same_transactions:
  "list_all2 (tx_of L) as ts \<Longrightarrow> list_all2 (tx_of L) as ts' \<Longrightarrow> ts = ts'"
  by (erule list_all2_functional, assumption) (auto simp: tx_of_def)

text \<open>
  What is published does not depend on the forks on the way: after any two histories that lead the
  ledger to the same native chain, the last EVM blocks published for a number below its height
  hold the same transactions, and carry the same id when the number belongs to a native block
  other than the starting one.
\<close>

theorem published_blocks_forget_forks:
  assumes "load_head L db n a conv_init = Inr (st0, a')" "\<not> app_quitting a'"
    and "get_canonical_block_at_height db n = Some b0" "start_mapped L db b0" "lib_ok L" "cv_bm st0 = Some m"
    and "handled (conv_step L db1) (conv_ok L m) st0 bs1 es1 st1"
    and "handled (conv_step L db2) (conv_ok L m) st0 bs2 es2 st2"
    and "run_spec (\<lambda>(b, eng). ledger_step b) bs1 (cv_native_blocks st0) = Some ch"
    and "run_spec (\<lambda>(b, eng). ledger_step b) bs2 (cv_native_blocks st0) = Some ch"
    and "blk_number b0 < k" "k < ledger_height L m (blk_number b0) ch"
  shows "\<exists>q1 q2. latest (published es1) k = Some q1 \<and> latest (published es2) k = Some q2 \<and>
    blk_transactions q1 = blk_transactions q2 \<and>
    (let xs = natives_at L m k ch in
     xs \<noteq> [] \<and> nb_id (last xs) \<noteq> hd_prev_randao (blk_header b0) \<longrightarrow>
       hd_prev_randao (blk_header q1) = hd_prev_randao (blk_header q2))"
proof -
  obtain q1 where q1: "latest (published es1) k = Some q1" "blk_number q1 = k"
    "list_all2 (tx_of L) (actions_at L m k ch) (blk_transactions q1)"
    "bound_ok L m (hd_prev_randao (blk_header b0)) ch (view_of q1)"
    by (rule latest_of_history [OF assms(1-7,9,11,12)])
  obtain q2 where q2: "latest (published es2) k = Some q2" "blk_number q2 = k"
    "list_all2 (tx_of L) (actions_at L m k ch) (blk_transactions q2)"
    "bound_ok L m (hd_prev_randao (blk_header b0)) ch (view_of q2)"
    by (rule latest_of_history [OF assms(1-6,8,10-12)])
  have "blk_transactions q1 = blk_transactions q2" by (rule same_transactions [OF q1(3) q2(3)])
  with q1 q2 show ?thesis by (auto simp: bound_ok_def Let_def)
qed

text \<open>The sample chain with and without the fork that was abandoned.\<close>

definition sample_n3_direct :: "native_block list" where
  "sample_n3_direct = [sample_n1, sample_n2', sample_n3]"

theorem published_blocks_forget_forks_witness:
  "\<exists>st1 es1 st2 es2 q1 q2. sample_run [sample_n1, sample_n2, sample_n2', sample_n3] = Some (st1, es1) \<and>
     sample_run sample_n3_direct = Some (st2, es2) \<and>
     latest (published es1) 5 = Some q1 \<and> latest (published es2) 5 = Some q2 \<and>
     blk_transactions q1 = blk_transactions q2"
proof -
  let ?bs1 = "[sample_n1, sample_n2, sample_n2', sample_n3]" and ?bs2 = sample_n3_direct
  let ?led = "\<lambda>bs. run_spec (\<lambda>(b, eng). ledger_step b) (map (\<lambda>b. (b, True)) bs) (cv_native_blocks sample_conv)"
  have "(case sample_run ?bs1 of Some r \<Rightarrow> True | None \<Rightarrow> False)" by code_simp
  then obtain st1 es1 where run1: "sample_run ?bs1 = Some (st1, es1)" by (auto split: option.splits)
  have "(case sample_run ?bs2 of Some r \<Rightarrow> True | None \<Rightarrow> False)" by code_simp
  then obtain st2 es2 where run2: "sample_run ?bs2 = Some (st2, es2)" by (auto split: option.splits)
  have start: "get_canonical_block_at_height sample_chain_db None = Some sample_start_block" by code_simp
  have b0: "blk_number sample_start_block = 3" by code_simp
  have bm: "cv_bm sample_conv = Some sample_mapping" by code_simp
  have l: "(case (?led ?bs1, ?led ?bs2) of (Some ch, Some ch') \<Rightarrow>
      ch = ch' \<and> 5 < ledger_height sample_lib sample_mapping 3 ch | _ \<Rightarrow> False)" by code_simp
  then obtain ch where ch: "?led ?bs1 = Some ch" "?led ?bs2 = Some ch"
    "5 < ledger_height sample_lib sample_mapping 3 ch" by (auto split: option.splits)
  from published_blocks_forget_forks [OF sample_load_head _ start sample_start_mapped sample_lib_ok bm
      sample_run_handled [OF run1] sample_run_handled [OF run2] ch(1,2), unfolded b0, of 5] ch(3) run1 run2
  show ?thesis by auto
qed

end
