(* ===== verification/Conversion_Finality.thy ===== *)
theory Conversion_Finality
  imports Conversion_Refinement
begin

text \<open>
  Irreversible EVM blocks are final: as long as the EOS chain keeps to its irreversible blocks, no
  block up to the height that \<open>get_evm_lib\<close> reports is ever published again. This height is what
  the node stores and starts from the next time.
\<close>

section \<open>The chain keeps to its irreversible blocks\<close>

text \<open>
  Once a height is known, a block neither forks off at an EVM block up to this height nor reports an
  irreversible block that belongs to one.
\<close>

definition final_ok :: "'tx lib \<Rightarrow> block_mapping \<Rightarrow> 'tx conv \<Rightarrow> native_block \<times> bool \<Rightarrow> bool" where
  "final_ok L m st = (\<lambda>(b, eng). block_ok L m st b \<and>
     (case cv_evm_lib st of
        None \<Rightarrow> True
      | Some l \<Rightarrow>
          list_all (\<lambda>a. nb_id a = nb_prev b \<longrightarrow> l < evm_num_of L m a) (cv_native_blocks st) \<and>
          (case lib_block_of (path_to (cv_native_blocks st) (nb_prev b) @ [b]) (nb_lib b) of
             None \<Rightarrow> True
           | Some x \<Rightarrow> l < evm_num_of L m x)))"

lemma final_ok_conv_ok: "final_ok L m st e \<Longrightarrow> conv_ok L m st e"
  by (cases e) (simp add: final_ok_def conv_ok_def)

text \<open>The height lies before the EVM block that is open.\<close>

definition lib_below :: "'tx conv \<Rightarrow> bool" where
  "lib_below st \<longleftrightarrow> (\<forall>l. cv_evm_lib st = Some l \<longrightarrow> l < blk_number (last (cv_evm_blocks st)))"

section \<open>One step\<close>

lemma height_before:
  fixes l :: u64 and n :: u32
  assumes "l < ucast n"
  shows "l \<le> ucast (n - 1)"
proof -
  have "unat l < unat n" using assms by (simp add: word_less_nat_alt)
  then have "n \<noteq> 0" by auto
  with \<open>unat l < unat n\<close> show ?thesis by (simp add: word_le_nat_alt unat_minus_one)
qed

lemma lib_height_below:
  assumes "native_chain L m ns" "lib_block_of ns lib = Some x"
  shows "ucast (lib_evm_block_num L m (nb_timestamp x) - 1) < evm_num_of L m (last ns)"
proof -
  have x: "x \<in> set ns" using lib_block_of_in [OF assms(2)] by simp
  have "ucast (lib_evm_block_num L m (nb_timestamp x) - 1) < evm_num_of L m x"
    by (rule evm_lib_less [OF native_chain_ok [OF assms(1) x]])
  also have "\<dots> \<le> evm_num_of L m (last ns)"
    by (rule linked_le_last [where r = "child_of L m"]) (use assms(1) x in \<open>auto simp: native_chain_def child_evm_num\<close>)
  finally show ?thesis .
qed

lemma pruned_height:
  assumes "pruned L m lib ns es ns' es' (Some l) el'" "native_chain L m ns"
    and "\<forall>x. lib_block_of ns lib = Some x \<longrightarrow> l < evm_num_of L m x" "l < evm_num_of L m (last ns)"
  shows "\<exists>l'. el' = Some l' \<and> l \<le> l' \<and> l' < evm_num_of L m (last ns)"
proof (cases "lib_block_of ns lib")
  case None
  with assms show ?thesis by (simp add: pruned_def)
next
  case (Some x)
  have "l \<le> ucast (lib_evm_block_num L m (nb_timestamp x) - 1)"
    using assms(3) Some by (intro height_before) (simp add: evm_num_of_def)
  with assms(1) Some lib_height_below [OF assms(2) Some] show ?thesis by (auto simp: pruned_def Let_def)
qed

text \<open>The step on a new block, as far as the height is concerned.\<close>

lemma new_block_pruned:
  assumes wf: "conv_wf L m s i st" and b: "block_ok L m st b"
    and on: "on_native_block L db eng b st = Some (Inr (st', effs))"
    and new: "\<forall>a \<in> set (cv_native_blocks st). nb_id a \<noteq> nb_id b"
  obtains ns1 es1 es2 where
    "linked_to L m b (cv_native_blocks st) (cv_evm_blocks st) ns1 es1" "ns1 = path_to (cv_native_blocks st) (nb_prev b)"
    "native_chain L m (ns1 @ [b])" "\<forall>q \<in> set (published effs). blk_number (last es1) \<le> blk_number q"
    "pruned L m (nb_lib b) (ns1 @ [b]) es2 (cv_native_blocks st') (cv_evm_blocks st') (cv_evm_lib st) (cv_evm_lib st')"
    "blk_number (last (cv_evm_blocks st')) = evm_num_of L m b"
proof -
  obtain ns1 es1 ps ceffs es' c where link: "linked_to L m b (cv_native_blocks st) (cv_evm_blocks st) ns1 es1"
    and ns1: "ns1 = path_to (cv_native_blocks st) (nb_prev b)"
    and inv1: "view_inv L m s i ns1 (map view_of es1)" and app: "appended L m eng b ns1 es1 st st' ps ceffs es' c"
    and rest: "view_inv L m s i (ns1 @ [b]) (map view_of (butlast es' @ [c]))"
    and inv': "conv_inv L m s i st'" and ps: "published effs = ps"
    by (rule new_block_steps [OF wf b on new])
  have ne: "es1 \<noteq> []" "ns1 \<noteq> []" "cv_evm_blocks st' \<noteq> []"
    using inv1 inv' by (auto simp: view_inv_def core_inv_def conv_inv_def)
  have chain: "native_chain L m (ns1 @ [b])" using rest by (simp add: view_inv_def core_inv_def)
  have ext: "extended L (evm_num_of L m b) es1 es' ps" using app by (simp add: appended_def)
  have "evm_num_of L m (last ns1) \<le> evm_num_of L m b"
    using chain ne(2) by (auto simp: native_chain_append child_of_def)
  then have num: "blk_number (last es') = evm_num_of L m b" using extended_view(2) [OF ext inv1] by blast
  have pr: "pruned L m (nb_lib b) (ns1 @ [b]) (butlast es' @ [c]) (cv_native_blocks st') (cv_evm_blocks st')
      (cv_evm_lib st) (cv_evm_lib st')" using app by (simp add: appended_def)
  have "last (cv_evm_blocks st') = c" using pruned_suffix(2) [OF pr] ne(3) by (metis last_appendR last_snoc)
  moreover have "vw_number (view_of c) = blk_number (last es')"
    using app fill_evm_block_Inr [of L eng b "last es'" c ceffs] unfolding appended_def
    by (metis with_bound_simps(1) view_of_simps(1))
  ultimately have last: "blk_number (last (cv_evm_blocks st')) = evm_num_of L m b" using num by simp
  have "unat (blk_number (last es1)) \<le> unat (blk_number q)" if "q \<in> set ps" for q
  proof -
    have "unat (blk_number q) \<in> set (map (unat \<circ> blk_number) ps)" using that by simp
    then show ?thesis unfolding extended_published_numbers [OF ext ne(1)] by simp
  qed
  then have "\<forall>q \<in> set (published effs). blk_number (last es1) \<le> blk_number q"
    using ps by (simp add: word_le_nat_alt)
  with link ns1 chain pr last show thesis by (intro that)
qed

lemma final_new_block:
  assumes wf: "conv_wf L m s i st" and ok: "final_ok L m st (b, eng)"
    and on: "on_native_block L db eng b st = Some (Inr (st', effs))"
    and new: "\<forall>a \<in> set (cv_native_blocks st). nb_id a \<noteq> nb_id b" and below: "lib_below st"
  shows "lib_below st' \<and> (\<forall>l. cv_evm_lib st = Some l \<longrightarrow>
    (\<forall>q \<in> set (published effs). l < blk_number q) \<and> (\<exists>l'. cv_evm_lib st' = Some l' \<and> l \<le> l'))"
proof -
  have b: "block_ok L m st b" using ok by (simp add: final_ok_def)
  obtain ns1 es1 es2 where link: "linked_to L m b (cv_native_blocks st) (cv_evm_blocks st) ns1 es1"
    and ns1: "ns1 = path_to (cv_native_blocks st) (nb_prev b)"
    and chain: "native_chain L m (ns1 @ [b])" and pub: "\<forall>q \<in> set (published effs). blk_number (last es1) \<le> blk_number q"
    and pr: "pruned L m (nb_lib b) (ns1 @ [b]) es2 (cv_native_blocks st') (cv_evm_blocks st') (cv_evm_lib st) (cv_evm_lib st')"
    and last: "blk_number (last (cv_evm_blocks st')) = evm_num_of L m b"
    by (rule new_block_pruned [OF wf b on new])
  show ?thesis
  proof (cases "cv_evm_lib st")
    case None
    with pr last lib_height_below [OF chain] show ?thesis
      by (auto simp: lib_below_def pruned_def Let_def split: option.splits)
  next
    case (Some l)
    have parent: "l < evm_num_of L m (last ns1)"
    proof -
      have "last ns1 \<in> set (cv_native_blocks st)" "nb_id (last ns1) = nb_prev b"
        using link by (auto simp: linked_to_def)
      with ok Some show ?thesis by (auto simp: final_ok_def list_all_iff)
    qed
    have "l < blk_number (last es1)"
      using link below Some parent by (auto simp: linked_to_def set_upper_bound_def lib_below_def)
    with pub have "\<forall>q \<in> set (published effs). l < blk_number q" by (auto intro: less_le_trans)
    moreover have "l < evm_num_of L m b"
      using parent chain link by (auto simp: native_chain_append child_of_def linked_to_def intro: less_le_trans)
    moreover have "\<forall>x. lib_block_of (ns1 @ [b]) (nb_lib b) = Some x \<longrightarrow> l < evm_num_of L m x"
      using ok Some ns1 by (auto simp: final_ok_def)
    ultimately show ?thesis
      using pruned_height [OF pr [unfolded Some] chain] Some last by (auto simp: lib_below_def)
  qed
qed

text \<open>One step, in the form that histories need.\<close>

lemma final_step:
  assumes wf: "conv_wf L m s i st" and ok: "final_ok L m st e" and below: "lib_below st"
    and on: "conv_step L db e st = Some (Inr (st', effs))"
  shows "lib_below st' \<and> (\<forall>l. cv_evm_lib st = Some l \<longrightarrow>
    (\<forall>q \<in> set (published effs). l < blk_number q) \<and> (\<exists>l'. cv_evm_lib st' = Some l' \<and> l \<le> l'))"
proof -
  obtain b eng where e: "e = (b, eng)" by (cases e)
  have b: "block_ok L m st b" and ok': "final_ok L m st (b, eng)" using ok by (simp_all add: e final_ok_def)
  have on': "on_native_block L db eng b st = Some (Inr (st', effs))" using on by (simp add: e conv_step_def)
  show ?thesis
  proof (cases "\<exists>a \<in> set (cv_native_blocks st). nb_id a = nb_id b")
    case True
    then have "st' = st \<and> effs = []" using cached_id_ignored [OF wf b] on' by fastforce
    with below show ?thesis by simp
  next
    case False
    then show ?thesis by (intro final_new_block [OF wf ok' on' _ below]) blast
  qed
qed

section \<open>Histories\<close>

definition reaches_height :: "u64 option \<Rightarrow> 'tx conv \<Rightarrow> bool" where
  "reaches_height h st \<longleftrightarrow> lib_below st \<and>
     (case h of None \<Rightarrow> True | Some l \<Rightarrow> \<exists>l'. cv_evm_lib st = Some l' \<and> l \<le> l')"

definition stays_above :: "u64 option \<Rightarrow> 'tx conv_effect list \<Rightarrow> bool" where
  "stays_above h es \<longleftrightarrow> (case h of None \<Rightarrow> True | Some l \<Rightarrow> \<forall>q \<in> set (published es). l < blk_number q)"

interpretation finality: recording_handler "conv_step L db" "final_ok L m"
  "\<lambda>st. conv_wf L m s i st \<and> reaches_height h st" "\<lambda>_. stays_above h"
  for L :: "'tx lib" and db m s i h
proof
  fix st st' and e :: "native_block \<times> bool" and es es0
  show "conv_step L db e st \<noteq> None" if "conv_wf L m s i st \<and> reaches_height h st" "final_ok L m st e"
    using conversion.returns that final_ok_conv_ok by blast
  show "conv_wf L m s i st' \<and> reaches_height h st'" if "conv_wf L m s i st \<and> reaches_height h st"
    "final_ok L m st e" "conv_step L db e st = Some (Inr (st', es))"
  proof -
    have "conv_wf L m s i st'" using conversion.keeps that final_ok_conv_ok by blast
    moreover have "reaches_height h st'"
      using final_step [of L m s i st e db st' es] that
      by (auto simp: reaches_height_def split: option.splits intro: order_trans)
    ultimately show ?thesis by blast
  qed
  show "stays_above h (es0 @ es)" if "conv_wf L m s i st \<and> reaches_height h st" "stays_above h es0"
    "final_ok L m st e" "conv_step L db e st = Some (Inr (st', es))"
    using final_step [of L m s i st e db st' es] that
    by (auto simp: reaches_height_def stays_above_def split: option.splits intro: le_less_trans)
qed

section \<open>Properties\<close>

lemma handled_mono: "handled step ok s bs es s' \<Longrightarrow> (\<And>s b. ok s b \<Longrightarrow> ok' s b) \<Longrightarrow> handled step ok' s bs es s'"
  by (induction rule: handled.induct) (auto intro: handled.intros)

lemma latest_unchanged: "\<forall>q \<in> set h'. k < blk_number q \<Longrightarrow> latest (h @ h') k = latest h k"
  using latest_none [of h' k] by (fastforce simp: latest_append)

text \<open>
  C3: Irreversible EVM blocks are final. From the startup on, as long as the EOS chain does not go
  back behind its irreversible blocks: once the irreversible height is \<open>l\<close>, a block has been
  published for every number from the starting block up to \<open>l\<close>, and whatever comes after, it
  remains the last one published for its number.
\<close>

theorem irreversible_blocks_are_final:
  assumes "load_head L db n a conv_init = Inr (st0, a')" "\<not> app_quitting a'"
    and "get_canonical_block_at_height db n = Some b0" "start_mapped L db b0" "lib_ok L" "cv_bm st0 = Some m"
    and "handled (conv_step L db1) (final_ok L m) st0 bs1 es1 st1" "cv_evm_lib st1 = Some l"
    and "handled (conv_step L db2) (final_ok L m) st1 bs2 es2 st2"
    and "blk_number b0 \<le> k" "k \<le> l"
  shows "\<exists>q. latest (published es1) k = Some q \<and> latest (published (es1 @ es2)) k = Some q"
proof -
  note start = archive_start [OF assms(1-6)]
  let ?i = "hd_prev_randao (blk_header b0)" and ?s = "blk_number b0"
  have none: "cv_evm_lib st0 = None"
    by (rule load_head_started [OF assms(1,2)]) (simp add: conv_init_def)
  have "reaches_height None st0" using none by (simp add: reaches_height_def lib_below_def)
  then have wf1: "conv_wf L m ?s ?i st1" and "reaches_height None st1"
    using finality.handled_inv [OF assms(7), of ?s ?i None] start(1) by blast+
  then have below: "l < blk_number (last (cv_evm_blocks st1))" and "reaches_height (Some l) st1"
    using assms(8) by (simp_all add: reaches_height_def lib_below_def)
  have "handled (conv_step L db1) (conv_ok L m) st0 bs1 es1 st1"
    by (rule handled_mono [OF assms(7) final_ok_conv_ok])
  from ledger.handled_refines [OF this start] obtain ch where
    arch: "archive L m ?s ?i ch st1 (published es1)" by (auto simp: conv_related_def)
  then have "blk_number (last (cv_evm_blocks st1)) = ledger_height L m ?s ch" by (auto simp: archive_def)
  then have "k < ledger_height L m ?s ch" using assms(11) below by simp
  with archive_latest [OF arch _ assms(10)] wf1 obtain q where q: "latest (published es1) k = Some q"
    by (auto simp: conv_wf_def)
  have "stays_above (Some l) ([] @ es2)"
    by (rule finality.handled_recorded [OF assms(9)])
      (use wf1 \<open>reaches_height (Some l) st1\<close> in \<open>auto simp: stays_above_def\<close>)
  then have "\<forall>q \<in> set (published es2). k < blk_number q" using assms(11) by (auto simp: stays_above_def)
  with q show ?thesis by (simp add: latest_unchanged)
qed

text \<open>A block that makes the starting block irreversible, and a later one.\<close>

theorem irreversible_blocks_are_final_witness:
  "\<exists>st1 es1 st2 es2 q. run_handler (conv_step sample_lib sample_chain_db) (final_ok sample_lib sample_mapping)
       sample_conv [(sample_n1_lib, True)] = Some (st1, es1) \<and> cv_evm_lib st1 = Some 3 \<and>
     run_handler (conv_step sample_lib sample_chain_db) (final_ok sample_lib sample_mapping)
       st1 [(sample_n2, True)] = Some (st2, es2) \<and>
     latest (published (es1 @ es2)) 3 = Some q"
proof -
  let ?run = "run_handler (conv_step sample_lib sample_chain_db) (final_ok sample_lib sample_mapping)"
  have "(case ?run sample_conv [(sample_n1_lib, True)] of
      Some (st1, es1) \<Rightarrow> cv_evm_lib st1 = Some 3 \<and>
        (case ?run st1 [(sample_n2, True)] of Some r \<Rightarrow> True | None \<Rightarrow> False)
    | None \<Rightarrow> False)" by code_simp
  then obtain st1 es1 st2 es2 where run: "?run sample_conv [(sample_n1_lib, True)] = Some (st1, es1)"
    "cv_evm_lib st1 = Some 3" "?run st1 [(sample_n2, True)] = Some (st2, es2)"
    by (auto simp del: run_handler.simps split: option.splits)
  have start: "get_canonical_block_at_height sample_chain_db None = Some sample_start_block" by code_simp
  have b0: "blk_number sample_start_block \<le> 3" by code_simp
  have bm: "cv_bm sample_conv = Some sample_mapping" by code_simp
  from irreversible_blocks_are_final [OF sample_load_head _ start sample_start_mapped sample_lib_ok bm
      run_handler_handled [OF run(1)] run(2) run_handler_handled [OF run(3)] b0] run
  show ?thesis by fastforce
qed

end
