(* ===== verification/Conversion_Alike.thy ===== *)
theory Conversion_Alike
  imports Conversion_Finality
begin

text \<open>
  Two runs of the block conversion whose caches differ in what lies before a common starting
  block, and in the marks of that block itself: each phase of the handler does the same to both.
  This is the ground for the comparison of a restarted node with one that was not stopped.
\<close>

section \<open>Blocks and lists that agree\<close>

text \<open>
  A block with another transactions root and another irreversibility mark. The root is computed
  when the block is closed, so until then it says nothing.
\<close>

definition remark :: "bytes32 \<Rightarrow> bool \<Rightarrow> 'tx block \<Rightarrow> 'tx block" where
  "remark r i b = b\<lparr>blk_header := (blk_header b)\<lparr>hd_transactions_root := r\<rparr>, blk_irreversible := i\<rparr>"

lemma remark_simps [simp]:
  "blk_number (remark r i b) = blk_number b" "blk_transactions (remark r i b) = blk_transactions b"
  "hd_nonce (blk_header (remark r i b)) = hd_nonce (blk_header b)"
  "hd_parent_hash (blk_header (remark r i b)) = hd_parent_hash (blk_header b)"
  "hd_prev_randao (blk_header (remark r i b)) = hd_prev_randao (blk_header b)"
  "hd_timestamp (blk_header (remark r i b)) = hd_timestamp (blk_header b)"
  "hd_base_fee_per_gas (blk_header (remark r i b)) = hd_base_fee_per_gas (blk_header b)"
  "blk_gas_prices (remark r i b) = blk_gas_prices b"
  "blk_consensus_parameter_index (remark r i b) = blk_consensus_parameter_index b"
  "blk_irreversible (remark r i b) = i"
  by (simp_all add: remark_def)

text \<open>Only the block of the number \<open>s\<close> may carry other marks.\<close>

definition alike :: "u64 \<Rightarrow> 'tx block \<Rightarrow> 'tx block \<Rightarrow> bool" where
  "alike s a b \<longleftrightarrow> a = b \<or> blk_number b = s \<and> (\<exists>r i. a = remark r i b)"

lemma alike_refl [simp]: "alike s a a"
  by (simp add: alike_def)

lemma alike_remark [intro]: "blk_number b = s \<Longrightarrow> alike s (remark r i b) b"
  by (auto simp: alike_def)

lemma alikeE [consumes 1, case_names same marks]:
  assumes "alike s a b"
  obtains "a = b" | r i where "a = remark r i b" "blk_number b = s"
  using assms by (auto simp: alike_def)

lemma alike_remarked:
  assumes "alike s a b"
  obtains r i where "a = remark r i b"
proof (cases "a = b")
  case True
  then have "a = remark (hd_transactions_root (blk_header b)) (blk_irreversible b) b"
    by (simp add: remark_def)
  with that show thesis by blast
qed (use assms that in \<open>auto simp: alike_def\<close>)

lemma alike_simps:
  assumes "alike s a b"
  shows "blk_number a = blk_number b" "blk_transactions a = blk_transactions b"
  using assms by (auto elim: alikeE)

text \<open>Lists that agree except in their first elements, which are related.\<close>

definition heads :: "('a \<Rightarrow> 'a \<Rightarrow> bool) \<Rightarrow> 'a list \<Rightarrow> 'a list \<Rightarrow> bool" where
  "heads r xs ys \<longleftrightarrow> (\<exists>x y t. xs = x # t \<and> ys = y # t \<and> r x y)"

lemma heads_Cons [simp]: "heads r (x # t) (y # t') \<longleftrightarrow> t = t' \<and> r x y"
  by (auto simp: heads_def)

lemma heads_Nil [simp]: "\<not> heads r [] ys" "\<not> heads r xs []"
  by (simp_all add: heads_def)

lemma heads_nonempty: "heads r xs ys \<Longrightarrow> xs \<noteq> [] \<and> ys \<noteq> []"
  by (auto simp: heads_def)

lemma heads_hd: "heads r xs ys \<Longrightarrow> r (hd xs) (hd ys)"
  by (auto simp: heads_def)

lemma heads_last: "heads (alike s) xs ys \<Longrightarrow> alike s (last xs) (last ys)"
  by (auto simp: heads_def)

lemma heads_snoc: "heads (alike s) (xs @ [x]) (ys @ [x]) \<longleftrightarrow> xs = [] \<and> ys = [] \<or> heads (alike s) xs ys"
  by (cases xs; cases ys) auto

lemma heads_replace_last:
  assumes "heads (alike s) xs ys" "alike s a b" "tl xs \<noteq> [] \<longrightarrow> a = b"
  shows "heads (alike s) (butlast xs @ [a]) (butlast ys @ [b])"
  using assms by (auto simp: heads_def)

text \<open>A nonempty end of the second list is matched by an end of the first.\<close>

lemma heads_suffix:
  assumes "heads (alike s) xs (pre @ ys)" "ys \<noteq> []"
  shows "\<exists>pre' xs'. xs = pre' @ xs' \<and> heads (alike s) xs' ys"
proof (cases pre)
  case Nil
  with assms(1) show ?thesis by (intro exI [of _ "[]"] exI [of _ xs]) simp
next
  case (Cons p ps)
  with assms(1) obtain x where x: "xs = (x # ps) @ ys" by (auto simp: heads_def)
  obtain y t where y: "ys = y # t" using assms(2) by (cases ys) auto
  have "heads (alike s) ys ys" unfolding y by simp
  with x show ?thesis by blast
qed

section \<open>Extending the EVM chain\<close>

lemma close_remark:
  "close_evm_block L (remark r i b) = remark (lib_root_hash L (blk_transactions b)) i (close_evm_block L b)"
  by (simp add: remark_def close_evm_block_def compute_transaction_root_def)

lemma close_alike: "alike s a b \<Longrightarrow> alike s (close_evm_block L a) (close_evm_block L b)"
  by (erule alikeE) (auto simp: close_remark)

text \<open>The successor is made from the header of the closed block, its prices and its parameters.\<close>

lemma generate_alike:
  assumes "alike s a b" "get_chain_config db = get_chain_config db'"
  shows "generate_new_evm_block L db bm cname (close_evm_block L a) =
    generate_new_evm_block L db' bm cname (close_evm_block L b)"
proof -
  obtain r i where a: "a = remark r i b" using assms(1) by (rule alike_remarked)
  have "blk_header (close_evm_block L a) = blk_header (close_evm_block L b)"
    "blk_consensus_parameter_index (close_evm_block L a) = blk_consensus_parameter_index (close_evm_block L b)"
    "blk_gas_prices (close_evm_block L a) = blk_gas_prices (close_evm_block L b)"
    "blk_number a = blk_number b"
    by (simp_all add: a close_evm_block_def compute_transaction_root_def remark_def)
  then show ?thesis unfolding generate_new_evm_block_def Let_def by (simp only: assms(2))
qed

lemma extend_alike:
  assumes L: "header_prepared L" "default_block_empty L" and db: "get_chain_config db = get_chain_config db'"
    and "heads (alike s) ys zs"
  shows "\<exists>ys' zs' ps qs.
    extend_evm_chain L db (Some m) cname n (us @ ys) pub = Some (Inr (us @ ys', pub @ ps)) \<and>
    extend_evm_chain L db' (Some m) cname n zs pub' = Some (Inr (zs', pub' @ qs)) \<and>
    heads (alike s) ys' zs' \<and> blk_number (hd zs') = blk_number (hd zs) \<and> list_all2 (alike s) ps qs"
  using assms(4)
proof (induction "unat (ucast n :: u64) - unat (blk_number (last zs))" arbitrary: ys zs pub pub'
    rule: less_induct)
  case less
  note heads = less.prems
  have ne: "ys \<noteq> []" "zs \<noteq> []" using heads_nonempty [OF heads] by simp_all
  have last: "alike s (last ys) (last zs)" by (rule heads_last [OF heads])
  note num = alike_simps(1) [OF last]
  note unfold = extend_evm_chain.simps [of L db "Some m" cname n "us @ ys" pub]
    extend_evm_chain.simps [of L db' "Some m" cname n zs pub']
  show ?case
  proof (cases "blk_number (last zs) < ucast n")
    case True
    let ?a = "close_evm_block L (last ys)" and ?c = "close_evm_block L (last zs)"
    obtain b where b: "generate_new_evm_block L db' (Some m) cname ?c = Inr b"
      "blk_number b = blk_number (last zs) + 1"
      using generate_new_evm_block_spec [OF L, of db' m cname ?c] by auto
    have b': "generate_new_evm_block L db (Some m) cname ?a = Inr b"
      using generate_alike [OF last db] b(1) by simp
    have close: "alike s ?a ?c" by (rule close_alike [OF last])
    have "tl ys \<noteq> [] \<longrightarrow> ?a = ?c" using heads by (auto simp: heads_def)
    then have "heads (alike s) (butlast ys @ [?a]) (butlast zs @ [?c])"
      by (rule heads_replace_last [OF heads close])
    then have heads': "heads (alike s) (butlast ys @ [?a, b]) (butlast zs @ [?c, b])"
      using heads_snoc [of s "butlast ys @ [?a]" b "butlast zs @ [?c]"] by simp
    have "blk_number (last zs) < blk_number b" "blk_number b \<le> ucast n"
      using u64_less_succ [OF True] True b(2) by (simp_all add: inc_le)
    then have dec: "unat (ucast n :: u64) - unat (blk_number (last (butlast zs @ [?c, b]))) <
        unat (ucast n :: u64) - unat (blk_number (last zs))"
      using True by (simp add: word_less_nat_alt word_le_nat_alt)
    have hd: "blk_number (hd (butlast zs @ [?c, b])) = blk_number (hd zs)"
      using ne(2) by (cases zs) auto
    from less.hyps [OF dec heads', of "pub @ [?a]" "pub' @ [?c]"] obtain ys' zs' ps qs where
      "extend_evm_chain L db (Some m) cname n (us @ butlast ys @ [?a, b]) (pub @ [?a]) =
         Some (Inr (us @ ys', (pub @ [?a]) @ ps))"
      "extend_evm_chain L db' (Some m) cname n (butlast zs @ [?c, b]) (pub' @ [?c]) =
         Some (Inr (zs', (pub' @ [?c]) @ qs))"
      "heads (alike s) ys' zs'" "blk_number (hd zs') = blk_number (hd zs)" "list_all2 (alike s) ps qs"
      unfolding hd by blast
    then show ?thesis
      using True ne b b' close num
      by (intro exI [of _ ys'] exI [of _ zs'] exI [of _ "?a # ps"] exI [of _ "?c # qs"])
        (simp add: unfold Let_def butlast_append)
  next
    case False
    with heads ne num show ?thesis
      by (intro exI [of _ ys] exI [of _ zs] exI [of _ "[]"]) (simp add: unfold)
  qed
qed

section \<open>Filling the last block\<close>

text \<open>Nothing that is read to fill a block is a mark.\<close>

lemma check_version_remark:
  "check_version L dtx (c, v) = Inr (c', v') \<Longrightarrow> check_version L dtx (remark r i c, v) = Inr (remark r i c', v')"
  by (auto simp: check_version_def Let_def remark_def split: if_splits)

lemma set_block_gas_prices_remark:
  "set_block_gas_prices L dtx v c = Inr c' \<Longrightarrow> set_block_gas_prices L dtx v (remark r i c) = Inr (remark r i c')"
  by (auto simp: set_block_gas_prices_def Let_def remark_def split: if_splits evmtx_type.splits option.splits)

lemma set_block_base_fee_remark:
  "set_block_base_fee dtx v c = Inr c' \<Longrightarrow> set_block_base_fee dtx v (remark r i c) = Inr (remark r i c')"
  by (auto simp: set_block_base_fee_def Let_def remark_def split: if_splits evmtx_type.splits option.splits)

lemma add_transaction_remark:
  assumes "add_transaction L act (c, v) = Inr (c', v')"
  shows "add_transaction L act (remark r i c, v) = Inr (remark r i c', v')"
proof -
  from assms obtain dtx c1 v1 c2 t c3 where d: "deserialize_tx L act = Inr dtx"
    and 1: "check_version L dtx (c, v) = Inr (c1, v1)"
    and 2: "set_block_gas_prices L dtx v1 c1 = Inr c2" and t: "lib_rlp_decode L (dtx_rlpx dtx) = Some t"
    and 3: "set_block_base_fee dtx v1 c2 = Inr c3"
    and c': "c' = c3\<lparr>blk_transactions := blk_transactions c3 @ [t]\<rparr>" "v' = v1"
    by (auto simp: add_transaction_def res_simps split: option.splits)
  have "(remark r i c3)\<lparr>blk_transactions := blk_transactions c3 @ [t]\<rparr> = remark r i c'"
    unfolding c' by (simp add: remark_def)
  then show ?thesis
    using d t c' check_version_remark [OF 1] set_block_gas_prices_remark [OF 2] set_block_base_fee_remark [OF 3]
    by (simp add: add_transaction_def)
qed

lemma add_transactions_remark:
  "rfold (add_transaction L) acts (c, v) = Inr (c', v') \<Longrightarrow>
   rfold (add_transaction L) acts (remark r i c, v) = Inr (remark r i c', v')"
proof (induction acts arbitrary: c v)
  case (Cons a acts)
  from Cons.prems obtain c1 v1 where 1: "add_transaction L a (c, v) = Inr (c1, v1)"
    and 2: "rfold (add_transaction L) acts (c1, v1) = Inr (c', v')" by (auto simp: res_simps)
  from add_transaction_remark [OF 1] Cons.IH [OF 2] show ?case by simp
qed simp

lemma apply_new_config_remark:
  "apply_new_config L eng nb c = Inr (c', effs) \<Longrightarrow>
   apply_new_config L eng nb (remark r i c) = Inr (remark r i c', effs)"
  by (auto simp: apply_new_config_def Let_def res_simps remark_def split: option.splits if_splits)

lemma fill_alike:
  assumes "alike s a b" "fill_evm_block L eng nb b = Inr (c, effs)"
  obtains c' where "fill_evm_block L eng nb a = Inr (c', effs)" "alike s c' c" "a = b \<longrightarrow> c' = c"
    "blk_number c = blk_number b"
proof (cases "a = b")
  case True
  with assms(2) that [of c] show thesis by (auto elim!: fill_evm_block_Inr simp: view_of_def with_bound_def)
next
  case False
  with assms(1) obtain r i where a: "a = remark r i b" and s: "blk_number b = s" by (auto elim: alikeE)
  from assms(2) obtain c1 c2 v where 1: "apply_new_config L eng nb b = Inr (c1, effs)"
    and 2: "rfold (add_transaction L) (nb_actions nb)
      (c1, lib_nonce_to_version L (hd_nonce (blk_header b))) = Inr (c2, v)"
    and c: "c = set_upper_bound c2 nb"
    by (auto simp: fill_evm_block_def Let_def res_simps for_each_action_eq)
  have "fill_evm_block L eng nb a = Inr (set_upper_bound (remark r i c2) nb, effs)"
    using apply_new_config_remark [OF 1] add_transactions_remark [OF 2]
    by (simp add: fill_evm_block_def Let_def for_each_action_eq a)
  moreover have "set_upper_bound (remark r i c2) nb = remark r (blk_irreversible c) c"
    by (simp add: c set_upper_bound_def remark_def)
  moreover have num: "blk_number c = blk_number b"
    using assms(2) by (auto elim!: fill_evm_block_Inr simp: view_of_def with_bound_def)
  ultimately show thesis using s that [of "remark r (blk_irreversible c) c"] False by auto
qed

lemma set_upper_bound_remark:
  "set_upper_bound ((remark r i b)\<lparr>blk_transactions := txs\<rparr>) f =
   remark r (nb_block_num f \<le> nb_lib f) (set_upper_bound (b\<lparr>blk_transactions := txs\<rparr>) f)"
  by (simp add: remark_def set_upper_bound_def)

lemma set_upper_bound_alike:
  assumes "alike s a b"
  shows "alike s (set_upper_bound (a\<lparr>blk_transactions := txs\<rparr>) f) (set_upper_bound (b\<lparr>blk_transactions := txs\<rparr>) f)"
proof -
  have "blk_number (set_upper_bound (b\<lparr>blk_transactions := txs\<rparr>) f) = blk_number b"
    by (simp add: set_upper_bound_def)
  with assms show ?thesis by (cases rule: alikeE) (auto simp: set_upper_bound_remark)
qed

end
