(* ===== verification/Conversion_Restart.thy ===== *)
theory Conversion_Restart
  imports Conversion_Alike
begin

text \<open>
  A node that is stopped and started again from a block it had published goes on as if it had
  not been stopped: for the native blocks that come after the starting block, the restarted
  plugin publishes what the plugin that kept running publishes. The proof is a simulation of the
  restarted run by the other one, whose caches may reach further back.
\<close>

section \<open>The relation between the two caches\<close>

text \<open>
  The lists of the running plugin, \<open>nsA\<close> and \<open>esA\<close>, end with those of the restarted one, up to the
  starting block: the native block \<open>i\<close> made up by \<open>load_head\<close> stands for the last native block of
  the EVM block \<open>s\<close>, and the two EVM blocks of the number \<open>s\<close> may differ in their marks. Either
  side may have dropped its starting block already.
\<close>

definition trails ::
  "'tx lib \<Rightarrow> block_mapping \<Rightarrow> u64 \<Rightarrow> bytes32 \<Rightarrow> native_block list \<Rightarrow> 'tx block list \<Rightarrow>
   native_block list \<Rightarrow> 'tx block list \<Rightarrow> bool" where
  "trails L m s i nsA esA nsB esB \<longleftrightarrow>
     (\<exists>dn t. nsA = dn @ t \<and> (\<forall>d \<in> set dn. evm_num_of L m d \<le> s) \<and>
        (nsB = t \<or> (\<exists>f0. nsB = f0 # t \<and> nb_id f0 = i \<and> s \<le> evm_num_of L m f0 \<and>
           (dn \<noteq> [] \<longrightarrow> nb_id (last dn) = i)))) \<and>
     (\<exists>us ys. esA = us @ ys \<and> heads (alike s) ys esB) \<and> s \<le> blk_number (hd esB)"

lemma trails_last:
  assumes "trails L m s i nsA esA nsB esB" "nsA \<noteq> []" "nsB \<noteq> []"
  shows "nb_id (last nsA) = nb_id (last nsB)"
proof -
  from assms(1) obtain dn t where t: "nsA = dn @ t" "nsB = t \<or> (\<exists>f0. nsB = f0 # t \<and> nb_id f0 = i \<and>
      (dn \<noteq> [] \<longrightarrow> nb_id (last dn) = i))" unfolding trails_def by blast
  with assms(2,3) show ?thesis by (cases "t = []") auto
qed

text \<open>A native block that is not the starting one is cached by both, if by the restarted one.\<close>

lemma trails_cached:
  assumes "trails L m s i nsA esA nsB esB" "x \<in> set nsB" "nb_id x \<noteq> i"
  shows "x \<in> set nsA"
  using assms unfolding trails_def by auto

section \<open>Linking\<close>

lemma split_unique:
  assumes "linked succ_number (map view_of xs)" "xs = us @ e # d" "xs = us' @ e' # d'"
    and "blk_number e = blk_number e'"
  shows "us = us' \<and> e = e' \<and> d = d'"
proof -
  have "blk_number u < blk_number e" if "u \<in> set us" for u
    using that linked_succ_less [of "map view_of us" "view_of e" "map view_of d" "view_of u"]
      assms(1) unfolding assms(2) by simp
  moreover have "blk_number u < blk_number e'" if "u \<in> set us'" for u
    using that linked_succ_less [of "map view_of us'" "view_of e'" "map view_of d'" "view_of u"]
      assms(1) unfolding assms(3) by simp
  ultimately have less: "blk_number u < blk_number e" if "u \<in> set us \<or> u \<in> set us'" for u
    using that assms(4) by auto
  from assms(2,3) obtain w where "us = us' @ w \<and> w @ e # d = e' # d' \<or> us @ w = us' \<and> e # d = w @ e' # d'"
    using append_eq_append_conv2 [of us "e # d" us' "e' # d'"] by metis
  with less [of e] less [of e'] assms(4) show ?thesis by (cases w) auto
qed

lemma heads_split:
  assumes "heads (alike s) ys (us @ e # d)"
  obtains ps y where "ys = ps @ y # d" "alike s y e" "us \<noteq> [] \<longrightarrow> y = e"
    "us = [] \<and> ps = [] \<or> heads (alike s) ps us"
  using assms by (cases us) (auto simp: heads_def Cons_eq_append_conv)

text \<open>The EVM blocks after a rollback to the same native block.\<close>

lemma rollback_follows:
  assumes invA: "view_inv L m sA iA (pA @ f # r) (map view_of (us @ ys))"
    and invB: "view_inv L m sB iB (pB @ f # r) (map view_of esB)"
    and heads: "heads (alike s) ys esB" and r: "r \<noteq> []"
    and rb: "rollback L (Some m) f (pB @ f # r) esB = Inr (ns1, es1)"
  shows "ns1 = pB @ [f] \<and> (\<exists>ys1. rollback L (Some m) f (pA @ f # r) (us @ ys) = Inr (pA @ [f], us @ ys1) \<and>
    heads (alike s) ys1 es1 \<and> blk_number (hd es1) = blk_number (hd esB))"
proof -
  obtain usB eB dB txsB popB where B: "ns1 = pB @ [f]" "esB = usB @ eB # dB" "blk_number eB = evm_num_of L m f"
    "blk_transactions eB = txsB @ popB" "length popB = length (actions_at L m (evm_num_of L m f) r)"
    "es1 = usB @ [set_upper_bound (eB\<lparr>blk_transactions := txsB\<rparr>) f]"
    using rollback_Inr [OF invB rb] by metis
  obtain esA1 where rbA: "rollback L (Some m) f (pA @ f # r) (us @ ys) = Inr (pA @ [f], esA1)"
    using rollback_exact [OF invA r] rollback_exact [OF invB r] rb by (auto split: if_splits)
  obtain usA eA dA txsA popA where A: "us @ ys = usA @ eA # dA" "blk_number eA = evm_num_of L m f"
    "blk_transactions eA = txsA @ popA" "length popA = length (actions_at L m (evm_num_of L m f) r)"
    "esA1 = usA @ [set_upper_bound (eA\<lparr>blk_transactions := txsA\<rparr>) f]"
    using rollback_Inr [OF invA rbA] by metis
  obtain ps y where y: "ys = ps @ y # dB" "alike s y eB" "usB \<noteq> [] \<longrightarrow> y = eB"
    "usB = [] \<and> ps = [] \<or> heads (alike s) ps usB"
    using heads unfolding B(2) by (rule heads_split)
  note same = alike_simps [OF y(2)]
  have "linked succ_number (map view_of (us @ ys))" using invA by (simp add: view_inv_def core_inv_def)
  from split_unique [OF this A(1), of "us @ ps" y dB] have e: "usA = us @ ps" "eA = y"
    using y(1) same(1) A(2) B(3) by simp_all
  have "txsA = txsB" using A(3,4) B(4,5) same(2) e(2) by (metis append_eq_append_conv)
  then have esA1: "esA1 = us @ ps @ [set_upper_bound (y\<lparr>blk_transactions := txsB\<rparr>) f]"
    using A(5) e by simp
  have "heads (alike s) (ps @ [set_upper_bound (y\<lparr>blk_transactions := txsB\<rparr>) f]) es1"
    using y(3,4) set_upper_bound_alike [OF y(2)] unfolding B(6) by (cases usB) (auto simp: heads_def)
  moreover have "blk_number (hd es1) = blk_number (hd esB)"
    unfolding B(2,6) by (cases usB) (auto simp: set_upper_bound_def)
  ultimately show ?thesis using B(1) rbA esA1 by blast
qed

text \<open>
  The blocks that come after the starting block: not that block itself again, and no other
  successor of it once it has one.
\<close>

definition after_start :: "bytes32 \<Rightarrow> 'tx conv \<Rightarrow> native_block \<Rightarrow> bool" where
  "after_start i st b \<longleftrightarrow> nb_id b \<noteq> i \<and>
     (nb_prev b = i \<longrightarrow> nb_id (last (cv_native_blocks st)) = i \<or>
        list_ex (\<lambda>a. nb_id a = nb_id b) (cv_native_blocks st))"

lemma find_Some_unique:
  assumes "\<forall>x \<in> set xs. \<not> P x" "P y"
  shows "find P (xs @ y # ys) = Some y"
  using assms by (induction xs) auto

lemma find_fork_follows:
  assumes chain: "native_chain L m (p @ f # r)" and f: "child_of L m f b" "native_ok L m b"
    and new: "\<forall>a \<in> set r. nb_id a \<noteq> nb_id b"
  shows "find (\<lambda>nb. nb_id nb = nb_id b) (p @ f # r) = None"
    "find (\<lambda>nb. nb_id nb = nb_prev b) (p @ f # r) = Some f"
proof -
  have "nb_block_num x \<noteq> nb_block_num b" if "x \<in> set (p @ [f])" for x
  proof -
    have "nb_block_num x \<le> nb_block_num f"
      using chain_nums [OF chain, of x f] that by (auto intro: less_imp_le)
    then show ?thesis using f(1) by (auto simp: child_of_def word_le_nat_alt)
  qed
  moreover have "nb_block_num x = to_block_num (nb_id x)" if "x \<in> set (p @ [f])" for x
    using chain that by (auto simp: native_chain_def native_ok_def)
  ultimately have "\<forall>x \<in> set (p @ [f]). nb_id x \<noteq> nb_id b"
    using f(2) unfolding native_ok_def by metis
  with new show "find (\<lambda>nb. nb_id nb = nb_id b) (p @ f # r) = None" by (auto simp: find_None_iff)
  have "\<forall>x \<in> set p. nb_id x \<noteq> nb_prev b"
    using chain_ids [OF chain, of _ f] f(1) by (auto simp: child_of_def)
  then show "find (\<lambda>nb. nb_id nb = nb_prev b) (p @ f # r) = Some f"
    using f(1) by (intro find_Some_unique) (simp_all add: child_of_def)
qed

text \<open>Both plugins link the block to the same parent, or both ignore it.\<close>

lemma link_follows:
  assumes invA: "view_inv L m sA iA nsA (map view_of esA)" and invB: "view_inv L m sB iB nsB (map view_of esB)"
    and trails: "trails L m s i nsA esA nsB esB"
    and b: "native_ok L m b" "\<forall>a \<in> set nsB. nb_id a = nb_prev b \<longrightarrow> child_of L m a b"
    and after: "nb_id b \<noteq> i" "nb_prev b = i \<longrightarrow> nb_id (last nsB) = i \<or> list_ex (\<lambda>a. nb_id a = nb_id b) nsB"
    and link: "link_native_block L (Some m) b nsB esB = Inr res"
  shows "case res of None \<Rightarrow> link_native_block L (Some m) b nsA esA = Inr None
    | Some (ns1, es1) \<Rightarrow> \<exists>nsA1 esA1. link_native_block L (Some m) b nsA esA = Inr (Some (nsA1, esA1)) \<and>
        trails L m s i nsA1 esA1 ns1 es1"
proof -
  have ne: "nsA \<noteq> []" "nsB \<noteq> []" using invA invB by (simp_all add: view_inv_def core_inv_def)
  note last = trails_last [OF trails ne]
  show ?thesis
  proof (cases "nb_id (last nsB) = nb_prev b")
    case True
    with link last trails show ?thesis by (auto simp: link_native_block_def)
  next
    case new: False
    show ?thesis
    proof (cases "find (\<lambda>nb. nb_id nb = nb_id b) nsB")
      case (Some a)
      then have a: "a \<in> set nsB" "nb_id a = nb_id b" by (auto dest: find_SomeD)
      then have "a \<in> set nsA" using trails_cached [OF trails] after(1) by simp
      with a(2) have "find (\<lambda>nb. nb_id nb = nb_id b) nsA \<noteq> None" by (auto simp: find_None_iff)
      with Some link new last ne show ?thesis by (auto simp: link_native_block_def)
    next
      case nodup: None
      obtain f where f: "find (\<lambda>nb. nb_id nb = nb_prev b) nsB = Some f"
        using link new ne nodup by (cases "find (\<lambda>nb. nb_id nb = nb_prev b) nsB") (auto simp: link_native_block_def)
      then obtain ns1 es1 where rb: "rollback L (Some m) f nsB esB = Inr (ns1, es1)" "res = Some (ns1, es1)"
        using link new ne nodup by (auto simp: link_native_block_def res_simps)
      from f obtain p r where pr: "nsB = p @ f # r" "nb_id f = nb_prev b" by (auto dest: find_SomeD)
      have "nb_prev b \<noteq> i"
        using after(2) new nodup by (auto simp: find_None_iff list_ex_iff)
      obtain dn t us ys where t: "nsA = dn @ t" "\<forall>d \<in> set dn. evm_num_of L m d \<le> s"
        "nsB = t \<or> (\<exists>f0. nsB = f0 # t \<and> nb_id f0 = i \<and> s \<le> evm_num_of L m f0 \<and>
           (dn \<noteq> [] \<longrightarrow> nb_id (last dn) = i))"
        and ys: "esA = us @ ys" "heads (alike s) ys esB" and s: "s \<le> blk_number (hd esB)"
        using trails unfolding trails_def by blast
      obtain pt where pt: "t = pt @ f # r" "p = pt \<or> (\<exists>f0. p = f0 # pt)"
        using t(3) pr \<open>nb_prev b \<noteq> i\<close> by (cases p) auto
      have nsA: "nsA = (dn @ pt) @ f # r" using t(1) pt(1) by simp
      have r: "r \<noteq> []" using new pr by auto
      have "child_of L m f b" using b(2) pr by simp
      moreover have "native_chain L m ((dn @ pt) @ f # r)" using invA nsA by (simp add: view_inv_def core_inv_def)
      moreover have "\<forall>a \<in> set r. nb_id a \<noteq> nb_id b" using nodup pr(1) by (auto simp: find_None_iff)
      ultimately have find: "find (\<lambda>nb. nb_id nb = nb_id b) nsA = None" "find (\<lambda>nb. nb_id nb = nb_prev b) nsA = Some f"
        using find_fork_follows [of L m "dn @ pt" f r b] b(1) unfolding nsA by simp_all
      obtain ys1 where rbA: "ns1 = p @ [f]" "rollback L (Some m) f nsA esA = Inr ((dn @ pt) @ [f], us @ ys1)"
        "heads (alike s) ys1 es1" "blk_number (hd es1) = blk_number (hd esB)"
        using rollback_follows [OF _ _ ys(2) r] invA invB rb(1) unfolding nsA ys(1) pr(1) by blast
      have "ns1 = pt @ [f] \<or> (\<exists>f0. ns1 = f0 # (pt @ [f]) \<and> nb_id f0 = i \<and> s \<le> evm_num_of L m f0 \<and>
           (dn \<noteq> [] \<longrightarrow> nb_id (last dn) = i))" using t(3) pr(1) pt(1) rbA(1) by auto
      then have "trails L m s i (dn @ (pt @ [f])) (us @ ys1) ns1 es1"
        unfolding trails_def using t(2) s rbA(3,4) by metis
      with find rbA(2) rb(2) new last ne show ?thesis by (auto simp: link_native_block_def)
    qed
  qed
qed

section \<open>Dropping irreversible blocks\<close>

lemma dropWhile_append_keep: "ys \<noteq> [] \<Longrightarrow> \<not> P (hd ys) \<Longrightarrow> dropWhile P (xs @ ys) = dropWhile P xs @ ys"
  by (induction xs) (auto simp: neq_Nil_conv)

lemma last_dropWhile: "dropWhile P xs \<noteq> [] \<Longrightarrow> last (dropWhile P xs) = last xs"
  by (metis last_appendR takeWhile_dropWhile_id)

lemma lib_block_of_append:
  "\<forall>d \<in> set ds. nb_block_num d \<le> lib \<Longrightarrow> lib_block_of ns lib = Some x \<Longrightarrow> lib_block_of (ds @ ns) lib = Some x"
  by (auto simp: lib_block_of_def Let_def split: if_splits)

lemma lib_block_of_none_append:
  assumes "lib_block_of ns lib = None"
  shows "lib_block_of (ds @ ns) lib = lib_block_of ds lib"
proof -
  have "takeWhile (\<lambda>nb. nb_block_num nb \<le> lib) ns = []"
    using assms by (simp add: lib_block_of_def Let_def split: if_splits)
  then have "takeWhile (\<lambda>nb. nb_block_num nb \<le> lib) (ds @ ns) = takeWhile (\<lambda>nb. nb_block_num nb \<le> lib) ds"
    by (induction ds) auto
  then show ?thesis by (simp add: lib_block_of_def)
qed

lemma succ_hd_le:
  assumes "linked succ_number (map view_of (pre @ es))" "es \<noteq> []"
  shows "blk_number (hd (pre @ es)) \<le> blk_number (hd es)"
proof (cases pre)
  case (Cons p ps)
  then show ?thesis
    using linked_succ_less [of "map view_of pre" "view_of (hd es)" "map view_of (tl es)" "view_of p"] assms
    by (cases es) (auto intro: less_imp_le)
qed simp

lemma prune_evm_follows:
  assumes esA: "heads (alike s) ys esB" and B: "esB = pre @ esB'" "esB' \<noteq> []"
    and low: "\<not> blk_number (hd esB') < l"
  shows "\<exists>us' ys'. dropWhile (\<lambda>e. blk_number e < l) (us @ ys) = us' @ ys' \<and> heads (alike s) ys' esB'"
proof -
  obtain pre' ys' where y: "ys = pre' @ ys'" "heads (alike s) ys' esB'"
    using heads_suffix [of s ys pre esB'] esA B by blast
  have "ys' \<noteq> []" "\<not> blk_number (hd ys') < l"
    using heads_nonempty [OF y(2)] alike_simps(1) [OF heads_hd [OF y(2)]] low by simp_all
  then have "dropWhile (\<lambda>e. blk_number e < l) ((us @ pre') @ ys') = dropWhile (\<lambda>e. blk_number e < l) (us @ pre') @ ys'"
    by (rule dropWhile_append_keep)
  with y show ?thesis by auto
qed

text \<open>
  When both count from a block after the starting one, they count from the same; otherwise
  neither drops anything that the restarted plugin keeps.
\<close>

lemma prune_natives_same:
  assumes chain: "native_chain L m (dn @ t)" "native_chain L m nsB" and t: "t \<noteq> []"
    and dn: "\<forall>d \<in> set dn. evm_num_of L m d \<le> s"
    and B: "nsB = t \<or> (\<exists>f0. nsB = f0 # t \<and> nb_id f0 = i \<and> s \<le> evm_num_of L m f0 \<and> (dn \<noteq> [] \<longrightarrow> nb_id (last dn) = i))"
  shows "\<exists>dn' t'. dropWhile (\<lambda>nb. evm_num_of L m nb < l) (dn @ t) = dn' @ t' \<and> set dn' \<subseteq> set dn \<and>
    (dropWhile (\<lambda>nb. evm_num_of L m nb < l) nsB = t' \<or>
     (\<exists>f0. dropWhile (\<lambda>nb. evm_num_of L m nb < l) nsB = f0 # t' \<and> nb_id f0 = i \<and> s \<le> evm_num_of L m f0 \<and>
       (dn' \<noteq> [] \<longrightarrow> nb_id (last dn') = i)))"
proof -
  let ?P = "\<lambda>nb. evm_num_of L m nb < l"
  have sub: "set (dropWhile ?P dn) \<subseteq> set dn" by (auto dest: set_dropWhileD)
  have split: "dropWhile ?P (dn @ t) = (if dropWhile ?P dn = [] then dropWhile ?P t else dropWhile ?P dn @ t)"
    by (induction dn) auto
  have keep: "\<not> ?P (hd t)" if d: "d \<in> set dn" "\<not> ?P d" for d
    using chain_mono [OF chain(1) d(1), of "hd t"] d(2) t by (simp add: not_less order_trans)
  show ?thesis
  proof (cases "dropWhile ?P dn = []")
    case True
    then have P: "\<forall>d \<in> set dn. ?P d" by simp
    show ?thesis
    proof (cases "nsB = t")
      case False
      with B obtain f0 where f0: "nsB = f0 # t" "nb_id f0 = i" "s \<le> evm_num_of L m f0" by blast
      have "?P f0 \<or> \<not> ?P (hd t)"
        using chain_mono [of L m "[f0]" t f0 "hd t"] chain(2) f0(1) t by (auto simp: not_less intro: order_trans)
      with f0 True split t show ?thesis
        by (intro exI [of _ "[]"] exI [of _ "dropWhile ?P t"]) (cases t; auto)
    qed (use True split in \<open>auto intro: exI [of _ "[]"]\<close>)
  next
    case False
    then obtain d where d: "d \<in> set dn" "\<not> ?P d" by auto
    have t': "dropWhile ?P t = t" using keep [OF d] t by (cases t) auto
    note last = last_dropWhile [OF False]
    show ?thesis
    proof (cases "nsB = t")
      case True
      with False split t' sub show ?thesis by (intro exI [of _ "dropWhile ?P dn"] exI [of _ t]) simp
    next
      case neq: False
      with B obtain f0 where f0: "nsB = f0 # t" "nb_id f0 = i" "s \<le> evm_num_of L m f0" "nb_id (last dn) = i"
        using d by auto
      have "\<not> ?P f0" using d dn f0(3) by (auto simp: not_less intro: order_trans)
      with False split t' sub f0 last show ?thesis
        by (intro exI [of _ "dropWhile ?P dn"] exI [of _ t]) simp
    qed
  qed
qed

text \<open>The native blocks of the second plugin, beside those of the first after the starting block.\<close>

abbreviation shares ::
  "'tx lib \<Rightarrow> block_mapping \<Rightarrow> u64 \<Rightarrow> bytes32 \<Rightarrow> native_block list \<Rightarrow> native_block list \<Rightarrow> native_block list \<Rightarrow> bool" where
  "shares L m s i dn t nsB \<equiv> nsB = t \<or>
     (\<exists>f0. nsB = f0 # t \<and> nb_id f0 = i \<and> s \<le> evm_num_of L m f0 \<and> (dn \<noteq> [] \<longrightarrow> nb_id (last dn) = i))"

abbreviation evm_follows where
  "evm_follows s esA esB \<equiv> \<exists>us ys. esA = us @ ys \<and> heads (alike s) ys esB"

lemma prune_follows_tail:
  assumes chain: "native_chain L m (dn @ t)" "native_chain L m nsB"
    and t: "\<forall>d \<in> set dn. evm_num_of L m d \<le> s" "shares L m s i dn t nsB" and x: "lib_block_of t lib = Some x"
    and A: "pruned L m lib (dn @ t) esA nsA' esA' elA elA'" and B: "pruned L m lib nsB esB nsB' esB' elB elB'"
    and evm: "\<And>l. \<not> blk_number (hd esB') < l \<Longrightarrow> evm_follows s (dropWhile (\<lambda>e. blk_number e < l) esA) esB'"
    and ne: "esB' \<noteq> []" and s: "s \<le> blk_number (hd esB')"
  shows "trails L m s i nsA' esA' nsB' esB'"
proof -
  let ?l = "ucast (lib_evm_block_num L m (nb_timestamp x) - 1) :: u64"
  have in_t: "x \<in> set t" "nb_block_num x \<le> lib" using lib_block_of_in [OF x] by simp_all
  have "\<forall>d \<in> set dn. nb_block_num d \<le> lib"
    using chain_nums [OF chain(1) _ in_t(1)] in_t(2) by (auto intro: less_imp_le less_le_trans)
  then have libA: "lib_block_of (dn @ t) lib = Some x" by (rule lib_block_of_append) (rule x)
  have "nb_block_num f0 \<le> lib" if "nsB = f0 # t" for f0
    using chain_nums [of L m "[f0]" t f0 x] chain(2) in_t that by simp
  then have libB: "lib_block_of nsB lib = Some x"
    using t(2) x lib_block_of_append [of "[f0]" lib t x for f0] by fastforce
  have cut: "nsA' = dropWhile (\<lambda>nb. evm_num_of L m nb < ?l) (dn @ t)" "esA' = dropWhile (\<lambda>e. blk_number e < ?l) esA"
    "nsB' = dropWhile (\<lambda>nb. evm_num_of L m nb < ?l) nsB" "esB' = dropWhile (\<lambda>e. blk_number e < ?l) esB"
    using A B libA libB by (simp_all add: pruned_def Let_def)
  have "\<not> blk_number (hd esB') < ?l" using ne unfolding cut(4) by (rule hd_dropWhile)
  from evm [OF this] have "evm_follows s esA' esB'" unfolding cut(2) .
  moreover have "t \<noteq> []" using in_t by auto
  from prune_natives_same [OF chain this t, of ?l]
  obtain dn' t' where n: "nsA' = dn' @ t'" "set dn' \<subseteq> set dn" "shares L m s i dn' t' nsB'" unfolding cut by blast
  moreover have "\<forall>d \<in> set dn'. evm_num_of L m d \<le> s" using n(2) t(1) by blast
  ultimately show ?thesis unfolding trails_def using s by blast
qed

lemma prune_keeps_second:
  assumes chain: "native_chain L m nsB" and t: "shares L m s i dn t nsB" and none: "lib_block_of t lib = None"
    and B: "pruned L m lib nsB esB nsB' esB' elB elB'"
  shows "nsB' = nsB"
proof (cases "nsB = t")
  case True
  with none B show ?thesis by (simp add: pruned_def)
next
  case False
  with t obtain f0 where f0: "nsB = f0 # t" by blast
  have "lib_block_of nsB lib = lib_block_of [f0] lib"
    using lib_block_of_none_append [OF none, of "[f0]"] f0 by simp
  moreover have "ucast (lib_evm_block_num L m (nb_timestamp f0) - 1) < evm_num_of L m f0"
    using chain f0 by (intro evm_lib_less) (simp add: native_chain_def)
  ultimately show ?thesis
    using B f0 lib_block_of_in [of "[f0]" lib] by (auto simp: pruned_def Let_def split: option.splits)
qed

lemma prune_follows_front:
  assumes chain: "native_chain L m (dn @ t)"
    and t: "\<forall>d \<in> set dn. evm_num_of L m d \<le> s" "shares L m s i dn t nsB"
    and x: "lib_block_of (dn @ t) lib = Some x" "x \<in> set dn"
    and A: "pruned L m lib (dn @ t) esA nsA' esA' elA elA'"
    and evm: "\<And>l. \<not> blk_number (hd esB') < l \<Longrightarrow> evm_follows s (dropWhile (\<lambda>e. blk_number e < l) esA) esB'"
    and s: "s \<le> blk_number (hd esB')"
  shows "trails L m s i nsA' esA' nsB esB'"
proof -
  let ?l = "ucast (lib_evm_block_num L m (nb_timestamp x) - 1) :: u64"
  let ?dn = "dropWhile (\<lambda>nb. evm_num_of L m nb < ?l) dn"
  have less: "?l < evm_num_of L m x"
    using chain x(2) by (intro evm_lib_less) (simp add: native_chain_def)
  have cut: "nsA' = dropWhile (\<lambda>nb. evm_num_of L m nb < ?l) (dn @ t)" "esA' = dropWhile (\<lambda>e. blk_number e < ?l) esA"
    using A x(1) by (simp_all add: pruned_def Let_def)
  have dn: "?dn \<noteq> []" "dropWhile (\<lambda>nb. evm_num_of L m nb < ?l) (dn @ t) = ?dn @ t"
    using dropWhile_append1 [OF x(2), of "\<lambda>nb. evm_num_of L m nb < ?l" t] x(2) less less_not_sym
    unfolding dropWhile_eq_Nil_conv by blast+
  have "set ?dn \<subseteq> set dn" by (auto dest: set_dropWhileD)
  with dn t last_dropWhile [OF dn(1)] have "nsA' = ?dn @ t \<and> (\<forall>d \<in> set ?dn. evm_num_of L m d \<le> s) \<and> shares L m s i ?dn t nsB"
    unfolding cut by auto
  moreover have "?l < s" using less t(1) x(2) by (auto intro: less_le_trans)
  with s have "\<not> blk_number (hd esB') < ?l" by auto
  from evm [OF this] have "evm_follows s esA' esB'" unfolding cut(2) .
  ultimately show ?thesis unfolding trails_def using s by blast
qed

lemma prune_follows:
  assumes trails: "trails L m s i nsA esA nsB esB"
    and chain: "native_chain L m nsA" "native_chain L m nsB" and succ: "linked succ_number (map view_of esB)"
    and A: "pruned L m lib nsA esA nsA' esA' elA elA'" and B: "pruned L m lib nsB esB nsB' esB' elB elB'"
    and ne: "esB' \<noteq> []"
  shows "trails L m s i nsA' esA' nsB' esB'"
proof -
  from trails obtain dn t us ys where t: "nsA = dn @ t" "\<forall>d \<in> set dn. evm_num_of L m d \<le> s" "shares L m s i dn t nsB"
    and ys: "esA = us @ ys" "heads (alike s) ys esB" and s: "s \<le> blk_number (hd esB)"
    unfolding trails_def by blast
  obtain pre where pre: "esB = pre @ esB'" using pruned_suffix(2) [OF B] by blast
  have "blk_number (hd esB) \<le> blk_number (hd esB')"
    using succ_hd_le [of pre esB'] succ ne unfolding pre by blast
  with s have s': "s \<le> blk_number (hd esB')" by (rule order_trans)
  have evm: "evm_follows s (dropWhile (\<lambda>e. blk_number e < l) esA) esB'" if "\<not> blk_number (hd esB') < l" for l
    unfolding ys(1) by (rule prune_evm_follows [OF ys(2) pre ne that])
  show ?thesis
  proof (cases "lib_block_of t lib")
    case (Some x)
    show ?thesis
      by (rule prune_follows_tail [OF chain(1) [unfolded t(1)] chain(2) t(2,3) Some A [unfolded t(1)] B evm ne s'])
  next
    case None
    note nsB' = prune_keeps_second [OF chain(2) t(3) None B]
    have libA: "lib_block_of nsA lib = lib_block_of dn lib" unfolding t(1) by (rule lib_block_of_none_append [OF None])
    show ?thesis
    proof (cases "lib_block_of dn lib")
      case None
      have "evm_follows s esA esB'"
        using heads_suffix [of s ys pre esB'] ys ne unfolding pre by (metis append.assoc)
      with None libA A nsB' t s' show ?thesis unfolding trails_def pruned_def by auto
    next
      case (Some x)
      have "lib_block_of (dn @ t) lib = Some x" "x \<in> set dn" using Some libA t(1) lib_block_of_in [OF Some] by simp_all
      from prune_follows_front [OF chain(1) [unfolded t(1)] t(2,3) this A [unfolded t(1)] evm s']
      show ?thesis unfolding nsB' .
    qed
  qed
qed

section \<open>Appending\<close>

text \<open>One side: the chain is extended, then the last block is filled and irreversible blocks are dropped.\<close>

definition filled :: "native_block \<Rightarrow> 'tx conv \<Rightarrow> 'tx block list \<Rightarrow> 'tx block \<Rightarrow> 'tx conv" where
  "filled b st es' c = st\<lparr>cv_native_blocks := cv_native_blocks st @ [b], cv_evm_blocks := butlast es' @ [c]\<rparr>"

definition append_parts ::
  "'tx lib \<Rightarrow> 'tx chaindata \<Rightarrow> block_mapping \<Rightarrow> bool \<Rightarrow> native_block \<Rightarrow> 'tx conv \<Rightarrow> 'tx block list \<Rightarrow> 'tx block list \<Rightarrow> bool" where
  "append_parts L db m eng b st es' ps \<longleftrightarrow>
     extend_evm_chain L db (Some m) (cv_evm_contract_name st) (lib_evm_block_num L m (nb_timestamp b))
       (cv_evm_blocks st) [] = Some (Inr (es', ps)) \<and>
     append_native_block L db eng b st =
       Some (rbind (fill_evm_block L eng b (last es')) (\<lambda>(c, ceffs).
         rbind (update_irreversible L b (filled b st es' c)) (\<lambda>st'. Inr (st', map Publish ps @ ceffs)))) \<and>
     (\<forall>c ceffs. fill_evm_block L eng b (last es') = Inr (c, ceffs) \<longrightarrow>
       (\<exists>ns2 es2 el. update_irreversible L b (filled b st es' c) =
           Inr (st\<lparr>cv_native_blocks := ns2, cv_evm_blocks := es2, cv_evm_lib := el\<rparr>) \<and>
         pruned L m (nb_lib b) (cv_native_blocks st @ [b]) (butlast es' @ [c]) ns2 es2 (cv_evm_lib st) el \<and> es2 \<noteq> [] \<and>
         native_chain L m (cv_native_blocks st @ [b]) \<and> linked succ_number (map view_of (butlast es' @ [c]))))"

lemma append_native_block_parts:
  assumes L: "header_prepared L" "default_block_empty L" and bm: "cv_bm st = Some m"
    and inv: "view_inv L m s i (cv_native_blocks st) (map view_of (cv_evm_blocks st))"
    and b: "native_ok L m b" "child_of L m (last (cv_native_blocks st)) b"
  shows "\<exists>es' ps. append_parts L db m eng b st es' ps"
proof -
  let ?ns = "cv_native_blocks st" and ?es = "cv_evm_blocks st"
  obtain es' ps where x: "extend_evm_chain L db (Some m) (cv_evm_contract_name st)
      (lib_evm_block_num L m (nb_timestamp b)) ?es [] = Some (Inr (es', ps))"
    "extended L (evm_num_of L m b) ?es es' ps" "core_inv L m s i ?ns (map view_of es')"
    "blk_number (last es') = evm_num_of L m b" "es' \<noteq> []"
    by (rule extension_ready [OF L inv b(2)])
  have prunes: "\<exists>ns2 es2 el. update_irreversible L b (filled b st es' c) =
      Inr (st\<lparr>cv_native_blocks := ns2, cv_evm_blocks := es2, cv_evm_lib := el\<rparr>) \<and>
      pruned L m (nb_lib b) (?ns @ [b]) (butlast es' @ [c]) ns2 es2 (cv_evm_lib st) el \<and> es2 \<noteq> [] \<and>
      native_chain L m (?ns @ [b]) \<and> linked succ_number (map view_of (butlast es' @ [c]))"
    if fill: "fill_evm_block L eng b (last es') = Inr (c, ceffs)" for c ceffs
  proof -
    note f = filled_view [OF x(3,5) b x(4) fill]
    obtain ns2 es2 el where u: "update_irreversible L b (filled b st es' c) =
        Inr ((filled b st es' c)\<lparr>cv_native_blocks := ns2, cv_evm_blocks := es2, cv_evm_lib := el\<rparr>)"
      "pruned L m (nb_lib b) (?ns @ [b]) (butlast es' @ [c]) ns2 es2 (cv_evm_lib st) el"
      "view_inv L m s i ns2 (map view_of es2)"
      by (rule update_irreversible_spec [of "filled b st es' c" m L s i b]) (use bm f in \<open>auto simp: filled_def\<close>)
    moreover have "es2 \<noteq> []" using u(3) by (simp add: view_inv_def core_inv_def)
    moreover have "native_chain L m (?ns @ [b])" "linked succ_number (map view_of (butlast es' @ [c]))"
      using f(1) by (simp_all add: view_inv_def core_inv_def)
    moreover have "(filled b st es' c)\<lparr>cv_native_blocks := ns2, cv_evm_blocks := es2, cv_evm_lib := el\<rparr> =
      st\<lparr>cv_native_blocks := ns2, cv_evm_blocks := es2, cv_evm_lib := el\<rparr>" by (simp add: filled_def)
    ultimately show ?thesis by metis
  qed
  have "append_native_block L db eng b st =
       Some (rbind (fill_evm_block L eng b (last es')) (\<lambda>(c, ceffs).
         rbind (update_irreversible L b (filled b st es' c)) (\<lambda>st'. Inr (st', map Publish ps @ ceffs))))"
    using x(1,5) by (simp add: append_native_block_def bm timestamp_num [OF b(1)] back_of_nonempty filled_def)
  with x(1) prunes show ?thesis unfolding append_parts_def by blast
qed

text \<open>The parts of a step that gave a state.\<close>

lemma append_parts_Inr:
  assumes "append_parts L db m eng b st es' ps" "fill_evm_block L eng b (last es') = Inr (c, ceffs)"
  obtains ns2 es2 el where
    "append_native_block L db eng b st =
       Some (Inr (st\<lparr>cv_native_blocks := ns2, cv_evm_blocks := es2, cv_evm_lib := el\<rparr>, map Publish ps @ ceffs))"
    "pruned L m (nb_lib b) (cv_native_blocks st @ [b]) (butlast es' @ [c]) ns2 es2 (cv_evm_lib st) el" "es2 \<noteq> []"
    "native_chain L m (cv_native_blocks st @ [b])" "linked succ_number (map view_of (butlast es' @ [c]))"
proof -
  from assms obtain ns2 es2 el where "update_irreversible L b (filled b st es' c) =
      Inr (st\<lparr>cv_native_blocks := ns2, cv_evm_blocks := es2, cv_evm_lib := el\<rparr>)"
    "pruned L m (nb_lib b) (cv_native_blocks st @ [b]) (butlast es' @ [c]) ns2 es2 (cv_evm_lib st) el" "es2 \<noteq> []"
    "native_chain L m (cv_native_blocks st @ [b])" "linked succ_number (map view_of (butlast es' @ [c]))"
    unfolding append_parts_def by blast
  with assms show thesis by (intro that) (simp_all add: append_parts_def)
qed

lemma trails_replace:
  assumes "trails L m s i nsA (us @ ys) nsB esB" "heads (alike s) ys' esB'" "blk_number (hd esB') = blk_number (hd esB)"
  shows "trails L m s i (nsA @ [b]) (us @ ys') (nsB @ [b]) esB'"
proof -
  from assms(1) obtain dn t where t: "nsA = dn @ t" "\<forall>d \<in> set dn. evm_num_of L m d \<le> s"
      "nsB = t \<or> (\<exists>f0. nsB = f0 # t \<and> nb_id f0 = i \<and> s \<le> evm_num_of L m f0 \<and> (dn \<noteq> [] \<longrightarrow> nb_id (last dn) = i))"
    and s: "s \<le> blk_number (hd esB)" unfolding trails_def by blast
  have "nsA @ [b] = dn @ (t @ [b])"
    "nsB @ [b] = t @ [b] \<or> (\<exists>f0. nsB @ [b] = f0 # (t @ [b]) \<and> nb_id f0 = i \<and> s \<le> evm_num_of L m f0 \<and>
       (dn \<noteq> [] \<longrightarrow> nb_id (last dn) = i))" using t(1,3) by auto
  with t(2) s assms(2,3) show ?thesis unfolding trails_def by metis
qed

text \<open>What a step does, with the blocks it publishes compared.\<close>

definition same_effect :: "u64 \<Rightarrow> 'tx conv_effect \<Rightarrow> 'tx conv_effect \<Rightarrow> bool" where
  "same_effect s e f =
     (case (e, f) of (Publish a, Publish b) \<Rightarrow> alike s a b | _ \<Rightarrow> e = f)"

lemma same_effect_refl: "same_effect s e e"
  by (cases e) (simp_all add: same_effect_def)

lemma same_effects:
  assumes "list_all2 (alike s) ps qs"
  shows "list_all2 (same_effect s) (map Publish ps @ cs) (map Publish qs @ cs)"
proof (rule list_all2_appendI)
  show "list_all2 (same_effect s) (map Publish ps) (map Publish qs)"
    using assms by (simp add: list_all2_conv_all_nth same_effect_def)
  show "list_all2 (same_effect s) cs cs" by (simp add: list.rel_refl same_effect_refl)
qed

lemma append_follows:
  assumes L: "header_prepared L" "default_block_empty L" and db: "get_chain_config db = get_chain_config db'"
    and bm: "cv_bm stA = Some m" "cv_bm stB = Some m" and name: "cv_evm_contract_name stA = cv_evm_contract_name stB"
    and invA: "view_inv L m sA iA (cv_native_blocks stA) (map view_of (cv_evm_blocks stA))"
    and invB: "view_inv L m sB iB (cv_native_blocks stB) (map view_of (cv_evm_blocks stB))"
    and b: "native_ok L m b" "child_of L m (last (cv_native_blocks stA)) b" "child_of L m (last (cv_native_blocks stB)) b"
    and trails: "trails L m s i (cv_native_blocks stA) (cv_evm_blocks stA) (cv_native_blocks stB) (cv_evm_blocks stB)"
    and on: "append_native_block L db' eng b stB = Some (Inr (stB', effB))"
  shows "\<exists>stA' effA. append_native_block L db eng b stA = Some (Inr (stA', effA)) \<and>
    trails L m s i (cv_native_blocks stA') (cv_evm_blocks stA') (cv_native_blocks stB') (cv_evm_blocks stB') \<and>
    list_all2 (same_effect s) effA effB \<and> cv_bm stA' = cv_bm stA \<and> cv_bm stB' = cv_bm stB \<and>
    cv_evm_contract_name stA' = cv_evm_contract_name stB'"
proof -
  let ?n = "lib_evm_block_num L m (nb_timestamp b)" and ?name = "cv_evm_contract_name stB"
  obtain esB1 psB where B: "append_parts L db' m eng b stB esB1 psB"
    using append_native_block_parts [OF L bm(2) invB b(1,3)] by blast
  obtain esA1 psA where A: "append_parts L db m eng b stA esA1 psA"
    using append_native_block_parts [OF L bm(1) invA b(1,2)] by blast
  from trails obtain us ys where ys: "cv_evm_blocks stA = us @ ys" "heads (alike s) ys (cv_evm_blocks stB)"
    unfolding trails_def by blast
  from extend_alike [OF L db ys(2), of m ?name ?n us "[]" "[]"] A B ys(1) name obtain ys1 where
    x: "esA1 = us @ ys1" "heads (alike s) ys1 esB1" "blk_number (hd esB1) = blk_number (hd (cv_evm_blocks stB))"
      "list_all2 (alike s) psA psB" unfolding append_parts_def by fastforce
  have ne: "ys1 \<noteq> []" "esB1 \<noteq> []" using heads_nonempty [OF x(2)] by simp_all
  obtain c ceffs where fillB: "fill_evm_block L eng b (last esB1) = Inr (c, ceffs)"
    using on B by (cases "fill_evm_block L eng b (last esB1)") (auto simp: append_parts_def)
  have last: "alike s (last esA1) (last esB1)" using heads_last [OF x(2)] x(1) ne(1) by simp
  obtain c' where fillA: "fill_evm_block L eng b (last esA1) = Inr (c', ceffs)" and c': "alike s c' c"
    "last esA1 = last esB1 \<longrightarrow> c' = c" "blk_number c = blk_number (last esB1)"
    by (rule fill_alike [OF last fillB])
  obtain nsA2 esA2 elA where A2: "append_native_block L db eng b stA =
      Some (Inr (stA\<lparr>cv_native_blocks := nsA2, cv_evm_blocks := esA2, cv_evm_lib := elA\<rparr>, map Publish psA @ ceffs))"
    "pruned L m (nb_lib b) (cv_native_blocks stA @ [b]) (butlast esA1 @ [c']) nsA2 esA2 (cv_evm_lib stA) elA"
    "native_chain L m (cv_native_blocks stA @ [b])"
    by (rule append_parts_Inr [OF A fillA])
  obtain nsB2 esB2 elB where B2: "append_native_block L db' eng b stB =
      Some (Inr (stB\<lparr>cv_native_blocks := nsB2, cv_evm_blocks := esB2, cv_evm_lib := elB\<rparr>, map Publish psB @ ceffs))"
    "pruned L m (nb_lib b) (cv_native_blocks stB @ [b]) (butlast esB1 @ [c]) nsB2 esB2 (cv_evm_lib stB) elB" "esB2 \<noteq> []"
    "native_chain L m (cv_native_blocks stB @ [b])" "linked succ_number (map view_of (butlast esB1 @ [c]))"
    by (rule append_parts_Inr [OF B fillB])
  have "tl ys1 \<noteq> [] \<longrightarrow> c' = c"
    using x(1,2) c'(2) ne by (auto simp: heads_def)
  then have "heads (alike s) (butlast ys1 @ [c']) (butlast esB1 @ [c])"
    by (rule heads_replace_last [OF x(2) c'(1)])
  moreover have "blk_number (hd (butlast esB1 @ [c])) = blk_number (hd (cv_evm_blocks stB))"
    using x(3) c'(3) ne(2) by (cases esB1) (auto split: if_splits)
  ultimately have "trails L m s i (cv_native_blocks stA @ [b]) (butlast esA1 @ [c']) (cv_native_blocks stB @ [b]) (butlast esB1 @ [c])"
    using trails_replace [OF trails [unfolded ys(1)]] x(1) ne(1) by (simp add: butlast_append)
  from prune_follows [OF this A2(3) B2(4,5) A2(2) B2(2,3)]
  show ?thesis using A2(1) B2(1) on same_effects [OF x(4), of ceffs] name by auto
qed

section \<open>One step of both\<close>

definition caught_up :: "'tx lib \<Rightarrow> block_mapping \<Rightarrow> u64 \<Rightarrow> bytes32 \<Rightarrow> 'tx conv \<Rightarrow> 'tx conv \<Rightarrow> bool" where
  "caught_up L m s i stA stB \<longleftrightarrow>
     cv_bm stA = Some m \<and> cv_bm stB = Some m \<and> cv_evm_contract_name stA = cv_evm_contract_name stB \<and>
     trails L m s i (cv_native_blocks stA) (cv_evm_blocks stA) (cv_native_blocks stB) (cv_evm_blocks stB)"

lemma chain_id_unique:
  assumes "native_chain L m ns" "x \<in> set ns" "y \<in> set ns" "nb_id x = nb_id y"
  shows "x = y"
proof -
  obtain p r where s: "ns = p @ x # r" using assms(2) by (meson split_list)
  have "native_chain L m (p @ (x # r))" "native_chain L m ((p @ [x]) @ r)" using assms(1) s by simp_all
  from chain_ids [OF this(1), of y x] chain_ids [OF this(2), of x y] assms(3,4) s show ?thesis by auto
qed

text \<open>The last native block of the one is the parent of a block, if that of the other is.\<close>

lemma trails_child:
  assumes trails: "trails L m s i nsA esA nsB esB" and ne: "nsA \<noteq> []" "nsB \<noteq> []"
    and chain: "native_chain L m nsA" "native_chain L m nsB" and b: "child_of L m (last nsB) b"
  shows "child_of L m (last nsA) b"
proof -
  from trails obtain dn t where t: "nsA = dn @ t" "\<forall>d \<in> set dn. evm_num_of L m d \<le> s"
      "nsB = t \<or> (\<exists>f0. nsB = f0 # t \<and> nb_id f0 = i \<and> s \<le> evm_num_of L m f0 \<and> (dn \<noteq> [] \<longrightarrow> nb_id (last dn) = i))"
    unfolding trails_def by blast
  show ?thesis
  proof (cases "t = []")
    case True
    with t ne obtain f0 where f0: "nsB = [f0]" "nb_id f0 = i" "s \<le> evm_num_of L m f0" "nb_id (last dn) = i"
      "dn \<noteq> []" "nsA = dn" by auto
    have "native_ok L m (last dn)" "native_ok L m f0" using chain f0 by (simp_all add: native_chain_def)
    then have "nb_block_num (last dn) = nb_block_num f0" using f0(2,4) by (simp add: native_ok_def)
    moreover have "evm_num_of L m (last dn) \<le> evm_num_of L m f0"
      using t(2) f0(3,5) by (auto intro: order_trans)
    ultimately show ?thesis using b f0 by (auto simp: child_of_def intro: order_trans)
  next
    case False
    with t b show ?thesis by auto
  qed
qed

lemma link_native_block_Some:
  assumes "view_inv L m s i ns (map view_of es)"
    and "link_native_block L (Some m) b ns es = Inr (Some (ns1, es1))"
  shows "view_inv L m s i ns1 (map view_of es1)" "last ns1 \<in> set ns" "nb_id (last ns1) = nb_prev b"
    "native_chain L m ns1 \<and> ns1 \<noteq> []"
proof -
  from assms(1) have "view_inv L m s i ns1 (map view_of es1) \<and> last ns1 \<in> set ns \<and> nb_id (last ns1) = nb_prev b"
    by (cases rule: link_native_block_cases [where b = b]) (use assms(2) in \<open>auto simp: linked_to_def\<close>)
  then show "view_inv L m s i ns1 (map view_of es1)" "last ns1 \<in> set ns" "nb_id (last ns1) = nb_prev b"
    "native_chain L m ns1 \<and> ns1 \<noteq> []" by (simp_all add: view_inv_def core_inv_def)
qed

lemma step_follows:
  assumes wfA: "conv_wf L m sA iA stA" and wfB: "conv_wf L m sB iB stB" and up: "caught_up L m s i stA stB"
    and db: "get_chain_config db = get_chain_config db'"
    and b: "block_ok L m stB b" "after_start i stB b"
    and on: "on_native_block L db' eng b stB = Some (Inr (stB', effB))"
  shows "\<exists>stA' effA. on_native_block L db eng b stA = Some (Inr (stA', effA)) \<and> conv_wf L m sA iA stA' \<and>
    caught_up L m s i stA' stB' \<and> list_all2 (same_effect s) effA effB"
proof -
  let ?nsA = "cv_native_blocks stA" and ?esA = "cv_evm_blocks stA"
  let ?nsB = "cv_native_blocks stB" and ?esB = "cv_evm_blocks stB"
  have L: "header_prepared L" "default_block_empty L"
    using wfB by (simp_all add: conv_wf_def lib_ok_def)
  have invA: "view_inv L m sA iA ?nsA (map view_of ?esA)" and invB: "view_inv L m sB iB ?nsB (map view_of ?esB)"
    using wfA wfB by (simp_all add: conv_wf_def conv_inv_def)
  have bm: "cv_bm stA = Some m" "cv_bm stB = Some m" and name: "cv_evm_contract_name stA = cv_evm_contract_name stB"
    and trails: "trails L m s i ?nsA ?esA ?nsB ?esB" using up by (simp_all add: caught_up_def)
  have post: "\<not> nb_timestamp b \<le> genesis_timestamp m" and ok: "native_ok L m b"
    and parent: "\<forall>a \<in> set ?nsB. nb_id a = nb_prev b \<longrightarrow> child_of L m a b" using b(1) by (auto simp: block_ok_def)
  from on post bm obtain res where linkB: "link_native_block L (Some m) b ?nsB ?esB = Inr res"
    by (cases "link_native_block L (Some m) b ?nsB ?esB") (auto simp: on_native_block_def)
  note follows = link_follows [OF invA invB trails ok parent _ _ linkB] b(2) [unfolded after_start_def]
  show ?thesis
  proof (cases res)
    case None
    then have "link_native_block L (Some m) b ?nsA ?esA = Inr None" using follows by simp
    with None linkB on post bm wfA up show ?thesis by (auto simp: on_native_block_def)
  next
    case (Some r)
    then obtain ns1 es1 where res: "res = Some (ns1, es1)" by (cases r) auto
    then obtain nsA1 esA1 where linkA: "link_native_block L (Some m) b ?nsA ?esA = Inr (Some (nsA1, esA1))"
      and trails1: "trails L m s i nsA1 esA1 ns1 es1" using follows by auto
    note A = link_native_block_Some [OF invA linkA]
      and B = link_native_block_Some [OF invB linkB [unfolded res]]
    have childB: "child_of L m (last ns1) b" using parent B(2,3) by blast
    have childA: "child_of L m (last nsA1) b"
      using A(4) B(4) by (intro trails_child [OF trails1 _ _ _ _ childB]) simp_all
    have chainA: "native_chain L m ?nsA" using invA by (simp add: view_inv_def core_inv_def)
    have "child_of L m a b" if a: "a \<in> set ?nsA" "nb_id a = nb_prev b" for a
      using chain_id_unique [OF chainA a(1) A(2)] a(2) A(3) childA by simp
    then have okA: "block_ok L m stA b" using b(1) unfolding block_ok_def by blast
    let ?stA = "stA\<lparr>cv_native_blocks := nsA1, cv_evm_blocks := esA1\<rparr>"
    let ?stB = "stB\<lparr>cv_native_blocks := ns1, cv_evm_blocks := es1\<rparr>"
    have onA: "on_native_block L db eng b stA = append_native_block L db eng b ?stA"
      using bm post linkA by (simp add: on_native_block_def)
    have "append_native_block L db' eng b ?stB = Some (Inr (stB', effB))"
      using on bm post linkB res by (simp add: on_native_block_def)
    then obtain stA' effA where st: "append_native_block L db eng b ?stA = Some (Inr (stA', effA))"
      "trails L m s i (cv_native_blocks stA') (cv_evm_blocks stA') (cv_native_blocks stB') (cv_evm_blocks stB')"
      "list_all2 (same_effect s) effA effB" "cv_bm stA' = cv_bm stA" "cv_bm stB' = cv_bm stB"
      "cv_evm_contract_name stA' = cv_evm_contract_name stB'"
      using append_follows [OF L db, of ?stA m ?stB sA iA sB iB b s i eng stB' effB] bm name A(1) B(1) ok childA childB trails1
      by auto
    have "on_native_block L db eng b stA = Some (Inr (stA', effA))" using onA st(1) by simp
    with on_native_block_keeps [OF wfA okA this] st bm show ?thesis by (auto simp: caught_up_def)
  qed
qed

section \<open>Histories\<close>

lemma handled_append:
  "handled step ok s bs es s1 \<Longrightarrow> handled step ok s1 bs' es' s2 \<Longrightarrow> handled step ok s (bs @ bs') (es @ es') s2"
proof (induction bs arbitrary: s es)
  case (Cons b bs)
  from Cons.prems(1) obtain s' e1 e2 where "ok s b" "step b s = Some (Inr (s', e1))"
    "handled step ok s' bs e2 s1" "es = e1 @ e2"
    unfolding handled_iff_run by (auto split: if_splits option.splits sum.splits)
  with handled_Cons [OF this(1,2) Cons.IH [OF this(3) Cons.prems(2)]] show ?case by simp
qed simp

text \<open>The plugin that kept running, as the specification: its state and what it has done so far.\<close>

definition running_step ::
  "'tx lib \<Rightarrow> 'tx chaindata \<Rightarrow> native_block \<times> bool \<Rightarrow> 'tx conv \<times> 'tx conv_effect list \<Rightarrow>
   ('tx conv \<times> 'tx conv_effect list) option" where
  "running_step L db e = (\<lambda>(st, h).
     case conv_step L db e st of Some (Inr (st', es)) \<Rightarrow> Some (st', h @ es) | _ \<Rightarrow> None)"

lemma run_running_step:
  "run_spec (running_step L db) bs (st, h) = Some (st', h') \<Longrightarrow>
   \<exists>es. h' = h @ es \<and> handled (conv_step L db) (\<lambda>_ _. True) st bs es st'"
proof (induction bs arbitrary: st h)
  case (Cons b bs)
  from Cons.prems obtain a where a: "running_step L db b (st, h) = Some a"
    "run_spec (running_step L db) bs a = Some (st', h')" by (auto split: option.splits)
  from a(1) obtain st1 es1 where "conv_step L db b st = Some (Inr (st1, es1))" "a = (st1, h @ es1)"
    by (auto simp: running_step_def split: option.splits sum.splits)
  with a(2) have 1: "conv_step L db b st = Some (Inr (st1, es1))"
    "run_spec (running_step L db) bs (st1, h @ es1) = Some (st', h')" by simp_all
  from Cons.IH [OF 1(2)] obtain es where "h' = (h @ es1) @ es"
    "handled (conv_step L db) (\<lambda>_ _. True) st1 bs es st'" by blast
  with handled_Cons [of "\<lambda>_ _. True" st b "conv_step L db", OF _ 1(1)] show ?case by auto
qed simp

definition resume_ok :: "'tx lib \<Rightarrow> block_mapping \<Rightarrow> bytes32 \<Rightarrow> 'tx conv \<Rightarrow> native_block \<times> bool \<Rightarrow> bool" where
  "resume_ok L m i st e \<longleftrightarrow> conv_ok L m st e \<and> after_start i st (fst e)"

text \<open>\<open>sA\<close> and \<open>iA\<close> are the number and the id that the running plugin once started from.\<close>

definition matches ::
  "'tx lib \<Rightarrow> 'tx chaindata \<Rightarrow> 'tx chaindata \<Rightarrow> block_mapping \<Rightarrow> u64 \<Rightarrow> bytes32 \<Rightarrow> u64 \<Rightarrow> bytes32 \<Rightarrow>
   'tx conv \<times> 'tx conv_effect list \<Rightarrow> 'tx conv \<Rightarrow> 'tx conv_effect list \<Rightarrow> bool" where
  "matches L db db' m s i sA iA = (\<lambda>(stA, hA) stB h.
     get_chain_config db = get_chain_config db' \<and> conv_wf L m sA iA stA \<and>
     caught_up L m s i stA stB \<and> list_all2 (same_effect s) hA h)"

interpretation restart: refining_handler "conv_step L db'" "resume_ok L m i" "conv_wf L m s i"
  "running_step L db" "matches L db db' m s i sA iA"
  for L :: "'tx lib" and db db' m s i sA iA
proof
  fix st st' and e :: "native_block \<times> bool" and es h a
  show "conv_wf L m s i st'" if "conv_wf L m s i st" "resume_ok L m i st e" "conv_step L db' e st = Some (Inr (st', es))"
    using conversion.keeps that unfolding resume_ok_def by blast
  show "conv_step L db' e st \<noteq> None" if "conv_wf L m s i st" "resume_ok L m i st e"
    using conversion.returns that unfolding resume_ok_def by blast
  show "\<exists>a'. running_step L db e a = Some a' \<and> matches L db db' m s i sA iA a' st' (h @ es)"
    if "conv_wf L m s i st" "matches L db db' m s i sA iA a st h" "resume_ok L m i st e"
      "conv_step L db' e st = Some (Inr (st', es))"
  proof -
    note wf = that(1) and step = that(3,4)
    obtain b eng stA hA where e: "e = (b, eng)" "a = (stA, hA)" by (cases e; cases a)
    from that(2) e(2) have m: "get_chain_config db = get_chain_config db'" "conv_wf L m sA iA stA"
      "caught_up L m s i stA st" "list_all2 (same_effect s) hA h" by (simp_all add: matches_def)
    obtain stA' effA where "on_native_block L db eng b stA = Some (Inr (stA', effA))" "conv_wf L m sA iA stA'"
      "caught_up L m s i stA' st'" "list_all2 (same_effect s) effA es"
      using step_follows [OF m(2) wf m(3,1), of b eng st' es] step e(1)
      by (auto simp: resume_ok_def conv_ok_def conv_step_def)
    with m e show ?thesis by (simp add: running_step_def conv_step_def matches_def list_all2_appendI)
  qed
qed

section \<open>The restart\<close>

text \<open>
  What the database holds of a block: the block as it was closed. Whether it was irreversible when
  it was published is not kept.
\<close>

definition stored_as :: "'tx lib \<Rightarrow> 'tx block \<Rightarrow> 'tx block \<Rightarrow> bool" where
  "stored_as L e b \<longleftrightarrow> b\<lparr>blk_irreversible := blk_irreversible e\<rparr> = close_evm_block L e"

lemma stored_as_alike:
  assumes "stored_as L e b"
  shows "alike (blk_number b) e b" "blk_number b = blk_number e"
    "hd_prev_randao (blk_header b) = hd_prev_randao (blk_header e)"
proof -
  have b: "b = (close_evm_block L e)\<lparr>blk_irreversible := blk_irreversible b\<rparr>"
    using assms unfolding stored_as_def by (metis block.surjective block.update_convs(3))
  have "e = remark (hd_transactions_root (blk_header e)) (blk_irreversible e) b"
    by (subst b) (simp add: remark_def close_evm_block_def)
  then show "alike (blk_number b) e b" unfolding alike_def by blast
  show "blk_number b = blk_number e" "hd_prev_randao (blk_header b) = hd_prev_randao (blk_header e)"
    by (subst b, simp add: close_evm_block_def)+
qed

lemma run_ledger_hd:
  "run_spec (\<lambda>(b, eng). ledger_step b) bs ch = Some ch' \<Longrightarrow> ch \<noteq> [] \<Longrightarrow> ch' \<noteq> [] \<and> hd ch' = hd ch"
proof (induction bs arbitrary: ch)
  case (Cons e bs)
  obtain b eng where e: "e = (b, eng)" by (cases e)
  from Cons.prems(1) obtain ch1 where 1: "ledger_step b ch = Some ch1"
    "run_spec (\<lambda>(b, eng). ledger_step b) bs ch1 = Some ch'" by (auto simp: e split: option.splits)
  have "ch1 \<noteq> [] \<and> hd ch1 = hd ch"
    using 1(1) Cons.prems(2) by (cases ch) (auto simp: ledger_step_def split: if_splits)
  with Cons.IH [OF 1(2)] show ?case by simp
qed simp

text \<open>
  After a run that went beyond its starting block, the last EVM block is that of the last
  native block, and carries its id.
\<close>

lemma run_ends_at_head:
  assumes "load_head L db n a conv_init = Inr (st0, a')" "\<not> app_quitting a'"
    and "get_canonical_block_at_height db n = Some b0" "start_mapped L db b0" "lib_ok L" "cv_bm st0 = Some m"
    and "handled (conv_step L db1) (conv_ok L m) st0 bs1 es1 st1"
    and "nb_id (last (cv_native_blocks st1)) \<noteq> hd_prev_randao (blk_header b0)"
  shows "conv_wf L m (blk_number b0) (hd_prev_randao (blk_header b0)) st1"
    "blk_number (last (cv_evm_blocks st1)) = evm_num_of L m (last (cv_native_blocks st1))"
    "hd_prev_randao (blk_header (last (cv_evm_blocks st1))) = nb_id (last (cv_native_blocks st1))"
proof -
  let ?i = "hd_prev_randao (blk_header b0)" and ?s = "blk_number b0"
  let ?ns = "cv_native_blocks st1" and ?es = "cv_evm_blocks st1"
  note start = archive_start [OF assms(1-6)]
  show wf: "conv_wf L m ?s ?i st1" by (rule conversion.handled_inv [OF assms(7) start(1)])
  then have core: "core_inv L m ?s ?i ?ns (map view_of ?es)" by (simp add: conv_wf_def conv_inv_def view_inv_def)
  then have ne: "?ns \<noteq> []" "?es \<noteq> []" by (auto simp: core_inv_def)
  from ledger.handled_refines [OF assms(7) start] obtain ch where
    ch: "run_spec (\<lambda>(b, eng). ledger_step b) bs1 (cv_native_blocks st0) = Some ch"
    "conv_related L m ?s ?i ch st1 ([] @ es1)" by blast
  obtain nb where nb: "start_native_of L b0 = Inr nb" "cv_native_blocks st0 = [nb]"
    by (rule load_head_started [OF assms(1,2)]) (use assms(3) in simp)
  then have "nb_id nb = ?i" by (auto simp: start_native_of_def res_simps)
  with run_ledger_hd [OF ch(1)] nb(2) have hd: "ch \<noteq> []" "nb_id (hd ch) = ?i" by simp_all
  from ch(2) obtain dn where dn: "ch = dn @ ?ns" and height: "blk_number (last ?es) = ledger_height L m ?s ch"
    by (auto simp: conv_related_def archive_def)
  have last: "last ch = last ?ns" using dn ne by simp
  with hd assms(8) have "tl ch \<noteq> []" by (cases ch) auto
  with height last show num: "blk_number (last ?es) = evm_num_of L m (last ?ns)" by (simp add: ledger_height_def)
  have "natives_at L m (blk_number (last ?es)) [last ?ns] = [last ?ns]" by (simp add: natives_at_def num)
  with natives_at_append [of L m "blk_number (last ?es)" "butlast ?ns" "[last ?ns]"]
  have "natives_at L m (blk_number (last ?es)) ?ns = natives_at L m (blk_number (last ?es)) (butlast ?ns) @ [last ?ns]"
    unfolding append_butlast_last_id [OF ne(1)] by simp
  moreover have "bound_ok L m ?i ?ns (view_of (last ?es))" using core ne by (simp add: core_inv_def)
  ultimately show "hd_prev_randao (blk_header (last ?es)) = nb_id (last ?ns)"
    using assms(8) by (auto simp: bound_ok_def)
qed

text \<open>The restarted plugin, with one native and one EVM block, trails the one that stays.\<close>

lemma restart_trails:
  assumes run: "conv_wf L m sA iA st1" "blk_number (last (cv_evm_blocks st1)) = evm_num_of L m (last (cv_native_blocks st1))"
    "hd_prev_randao (blk_header (last (cv_evm_blocks st1))) = nb_id (last (cv_native_blocks st1))"
    and load: "load_head L db2 n2 a2 conv_init = Inr (r0, a2')" "\<not> app_quitting a2'"
    "get_canonical_block_at_height db2 n2 = Some b1" "start_mapped L db2 b1" "lib_ok L" "cv_bm r0 = Some m"
    and stored: "stored_as L (last (cv_evm_blocks st1)) b1"
    and name: "cv_evm_contract_name st1 = cv_evm_contract_name r0"
  shows "conv_wf L m (blk_number b1) (hd_prev_randao (blk_header b1)) r0"
    "caught_up L m (blk_number b1) (hd_prev_randao (blk_header b1)) st1 r0"
proof -
  let ?ns = "cv_native_blocks st1" and ?es = "cv_evm_blocks st1" and ?s = "blk_number b1"
  show wf0: "conv_wf L m ?s (hd_prev_randao (blk_header b1)) r0" by (rule archive_start [OF load])
  have core: "core_inv L m sA iA ?ns (map view_of ?es)" and bm: "cv_bm st1 = Some m"
    using run(1) by (simp_all add: conv_wf_def conv_inv_def view_inv_def)
  then have ne: "?ns \<noteq> []" "?es \<noteq> []" and chain: "native_chain L m ?ns" by (auto simp: core_inv_def)
  note b1 = stored_as_alike [OF stored]
  obtain b nb g where raw: "get_canonical_block_at_height db2 n2 = Some b" "start_native_of L b = Inr nb"
    "get_genesis_header db2 = Some g"
    "r0 = conv_init\<lparr>cv_evm_blocks := [b], cv_native_blocks := [nb],
      cv_bm := Some \<lparr>genesis_timestamp = hd_timestamp g, block_interval = 1\<rparr>,
      cv_evm_contract_name := lib_load_big_u64 L (hd_nonce g)\<rparr>"
    by (rule load_head_started [OF load(1,2)])
  have nb: "start_native_of L b1 = Inr nb" "cv_native_blocks r0 = [nb]" "cv_evm_blocks r0 = [b1]"
    using raw load(3) by simp_all
  have m: "m = \<lparr>genesis_timestamp = hd_timestamp g, block_interval = 1\<rparr>" using raw(4) load(6) by simp
  from nb(1) obtain us where us: "s_to_us (hd_timestamp (blk_header b1)) = Inr us" "nb_timestamp nb = us"
    "nb_id nb = hd_prev_randao (blk_header b1)" by (auto simp: start_native_of_def res_simps)
  then have num: "?s \<le> evm_num_of L m nb"
    using load(4) raw(3) unfolding start_mapped_def m evm_num_of_def by (simp add: Let_def)
  note id = us(3)
  have dn: "\<forall>d \<in> set ?ns. evm_num_of L m d \<le> ?s"
    using linked_le_last [of "child_of L m" ?ns "evm_num_of L m"] chain run(2) b1(2)
    by (simp add: native_chain_def child_evm_num)
  have "heads (alike ?s) [last ?es] [b1]" using b1(1) by simp
  then have us: "\<exists>us ys. ?es = us @ ys \<and> heads (alike ?s) ys [b1]"
    using append_butlast_last_id [OF ne(2)] by metis
  have "trails L m ?s (hd_prev_randao (blk_header b1)) ?ns ?es [nb] [b1]"
    unfolding trails_def
  proof (intro conjI us)
    show "\<exists>dn t. ?ns = dn @ t \<and> (\<forall>d \<in> set dn. evm_num_of L m d \<le> ?s) \<and>
      ([nb] = t \<or> (\<exists>f0. [nb] = f0 # t \<and> nb_id f0 = hd_prev_randao (blk_header b1) \<and> ?s \<le> evm_num_of L m f0 \<and>
         (dn \<noteq> [] \<longrightarrow> nb_id (last dn) = hd_prev_randao (blk_header b1))))"
      using dn id num b1(3) run(3) by (intro exI [of _ ?ns] exI [of _ "[]"]) simp
  qed simp
  with bm load(6) name nb(2,3) show "caught_up L m ?s (hd_prev_randao (blk_header b1)) st1 r0"
    by (simp add: caught_up_def)
qed

text \<open>The name of the contract is read at the start, and stays.\<close>

lemma same_genesis_same_name:
  assumes "load_head L db n a conv_init = Inr (st0, a')" "\<not> app_quitting a'"
    "load_head L db2 n2 a2 conv_init = Inr (r0, a2')" "\<not> app_quitting a2'"
    "get_genesis_header db = get_genesis_header db2"
  shows "cv_bm r0 = cv_bm st0" "cv_evm_contract_name r0 = cv_evm_contract_name st0"
proof -
  obtain g nb b where A: "get_genesis_header db = Some g"
    "st0 = conv_init\<lparr>cv_evm_blocks := [b], cv_native_blocks := [nb],
      cv_bm := Some \<lparr>genesis_timestamp = hd_timestamp g, block_interval = 1\<rparr>,
      cv_evm_contract_name := lib_load_big_u64 L (hd_nonce g)\<rparr>"
    by (rule load_head_started [OF assms(1,2)])
  obtain g' nb' b' where B: "get_genesis_header db2 = Some g'"
    "r0 = conv_init\<lparr>cv_evm_blocks := [b'], cv_native_blocks := [nb'],
      cv_bm := Some \<lparr>genesis_timestamp = hd_timestamp g', block_interval = 1\<rparr>,
      cv_evm_contract_name := lib_load_big_u64 L (hd_nonce g')\<rparr>"
    by (rule load_head_started [OF assms(3,4)])
  show "cv_bm r0 = cv_bm st0" "cv_evm_contract_name r0 = cv_evm_contract_name st0"
    using A B assms(5) by simp_all
qed

lemma handled_keeps_name:
  assumes "handled (conv_step L db) (conv_ok L m) st0 bs es st" "conv_wf L m s i st0"
  shows "cv_evm_contract_name st = cv_evm_contract_name st0"
  using assms
proof (induction rule: handled.induct)
  case (handled_step bs es st1 e st2 es')
  obtain b eng where e: "e = (b, eng)" by (cases e)
  have wf: "conv_wf L m s i st1" by (rule conversion.handled_inv [OF handled_step.hyps(1) handled_step.prems])
  then have "header_prepared L" "default_block_empty L" "conv_inv L m s i st1"
    by (simp_all add: conv_wf_def lib_ok_def)
  moreover have "block_ok L m st1 b" using handled_step.hyps(2) by (simp add: e conv_ok_def)
  ultimately have "cv_evm_contract_name st2 = cv_evm_contract_name st1"
    by (cases rule: on_native_block_cases [where db = db and eng = eng])
      (use handled_step.hyps(3) in \<open>auto simp: e conv_step_def appended_def\<close>)
  with handled_step.IH [OF handled_step.prems] show ?case by simp
qed simp

section \<open>Properties\<close>

text \<open>
  C5: A restart goes unnoticed. Let a run of the node have gone beyond its starting block when the
  node is stopped, and let the node start again from the block that was last then, as it was
  stored when it was closed. Whatever the restarted node makes of the native blocks after that
  block, with their forks, a node that was not stopped makes the same of them: it handles each of
  them too, writes the same consensus parameters, and publishes the same EVM blocks, equal in
  every field of header and body; only in the starting block itself may the mark of
  irreversibility differ.
\<close>

theorem restart_goes_on:
  assumes "load_head L db n a conv_init = Inr (st0, a')" "\<not> app_quitting a'"
    and "get_canonical_block_at_height db n = Some b0" "start_mapped L db b0" "lib_ok L" "cv_bm st0 = Some m"
    and "handled (conv_step L db1) (conv_ok L m) st0 bs1 es1 st1"
    and "nb_id (last (cv_native_blocks st1)) \<noteq> hd_prev_randao (blk_header b0)"
    and "load_head L db2 n2 a2 conv_init = Inr (r0, a2')" "\<not> app_quitting a2'"
    and "get_canonical_block_at_height db2 n2 = Some b1" "start_mapped L db2 b1"
    and "stored_as L (last (cv_evm_blocks st1)) b1"
    and "get_genesis_header db = get_genesis_header db2" "get_chain_config db1 = get_chain_config db2"
    and "handled (conv_step L db2) (resume_ok L m (hd_prev_randao (blk_header b1))) r0 bs es r"
  shows "\<exists>st es'. handled (conv_step L db1) (\<lambda>_ _. True) st0 (bs1 @ bs) (es1 @ es') st \<and>
    list_all2 (same_effect (blk_number b1)) es' es"
proof -
  note stop = run_ends_at_head [OF assms(1-8)]
  note same = same_genesis_same_name [OF assms(1,2,9,10,14)]
  have "cv_evm_contract_name st1 = cv_evm_contract_name r0"
    using handled_keeps_name [OF assms(7) archive_start(1) [OF assms(1-6)]] same(2) by simp
  with restart_trails [OF stop assms(9-12,5) _ assms(13)] same(1) assms(6)
  have wf: "conv_wf L m (blk_number b1) (hd_prev_randao (blk_header b1)) r0"
    and up: "caught_up L m (blk_number b1) (hd_prev_randao (blk_header b1)) st1 r0" by simp_all
  have "matches L db1 db2 m (blk_number b1) (hd_prev_randao (blk_header b1)) (blk_number b0)
      (hd_prev_randao (blk_header b0)) (st1, []) r0 []"
    using stop(1) up assms(15) by (simp add: matches_def)
  from restart.handled_refines [OF assms(16) wf this] obtain st h where
    run: "run_spec (running_step L db1) bs (st1, []) = Some (st, h)" and eq: "list_all2 (same_effect (blk_number b1)) h es"
    by (auto simp: matches_def)
  have "handled (conv_step L db1) (\<lambda>_ _. True) st0 bs1 es1 st1"
    by (rule handled_mono [OF assms(7)]) simp
  moreover have "handled (conv_step L db1) (\<lambda>_ _. True) st1 bs h st" using run_running_step [OF run] by simp
  ultimately have "handled (conv_step L db1) (\<lambda>_ _. True) st0 (bs1 @ bs) (es1 @ h) st" by (rule handled_append)
  with eq show ?thesis by blast
qed

text \<open>The sample chain, stopped after its first native block.\<close>

definition sample_stopped :: "bytes conv" where
  "sample_stopped = (case on_native_block sample_lib sample_chain_db True sample_n1 sample_conv of
     Some (Inr (st, es)) \<Rightarrow> st | _ \<Rightarrow> sample_conv)"

definition sample_stored :: "bytes block" where
  "sample_stored = close_evm_block sample_lib (last (cv_evm_blocks sample_stopped))"

definition sample_resume_db :: "bytes chaindata" where
  "sample_resume_db = sample_chain_db
     \<lparr>db_canonical_header := (\<lambda>n. if n = 4 then Some (blk_header sample_stored) else db_canonical_header sample_chain_db n),
      db_block_by_number := (\<lambda>n. if n = 4 then Some sample_stored else db_block_by_number sample_chain_db n),
      db_headers_progress := 4, db_lib_processed := Some 4\<rparr>"

definition sample_resumed :: "bytes conv" where
  "sample_resumed = (case load_head sample_lib sample_resume_db None \<lparr>app_quitting = False\<rparr> conv_init of
     Inr (st, a) \<Rightarrow> st | _ \<Rightarrow> conv_init)"

lemma resume_ok_code: "resume_ok L m i st e \<longleftrightarrow> conv_ok L m st e \<and> nb_id (fst e) \<noteq> i \<and>
  (nb_prev (fst e) = i \<longrightarrow> nb_id (last (cv_native_blocks st)) = i \<or>
     list_ex (\<lambda>a. nb_id a = nb_id (fst e)) (cv_native_blocks st))"
  by (simp add: resume_ok_def after_start_def)

theorem restart_goes_on_witness:
  "\<exists>st es es' r. handled (conv_step sample_lib sample_chain_db) (\<lambda>_ _. True) sample_conv
       [(sample_n1, True), (sample_n2', True), (sample_n3, True)] es' st \<and>
     run_handler (conv_step sample_lib sample_resume_db) (resume_ok sample_lib sample_mapping (sample_id 11 0))
       sample_resumed [(sample_n2', True), (sample_n3, True)] = Some (r, es) \<and> length es = 5"
proof -
  let ?run = "run_handler (conv_step sample_lib sample_resume_db) (resume_ok sample_lib sample_mapping (sample_id 11 0))
      sample_resumed [(sample_n2', True), (sample_n3, True)]"
  have "(case ?run of Some (r, es) \<Rightarrow> length es = 5 | None \<Rightarrow> False)" by code_simp
  then obtain r es where run: "?run = Some (r, es)" "length es = 5"
    by (auto simp del: run_handler.simps split: option.splits)
  have start: "get_canonical_block_at_height sample_chain_db None = Some sample_start_block" by code_simp
  have bm: "cv_bm sample_conv = Some sample_mapping" by code_simp
  have "(case run_handler (conv_step sample_lib sample_chain_db) (conv_ok sample_lib sample_mapping) sample_conv [(sample_n1, True)]
      of Some (st, es1) \<Rightarrow> st = sample_stopped | None \<Rightarrow> False)" by code_simp
  then obtain es1 where first: "run_handler (conv_step sample_lib sample_chain_db) (conv_ok sample_lib sample_mapping)
      sample_conv [(sample_n1, True)] = Some (sample_stopped, es1)"
    by (auto simp del: run_handler.simps split: option.splits)
  have stop: "nb_id (last (cv_native_blocks sample_stopped)) \<noteq> hd_prev_randao (blk_header sample_start_block)"
    "stored_as sample_lib (last (cv_evm_blocks sample_stopped)) sample_stored"
    "hd_prev_randao (blk_header sample_stored) = sample_id 11 0" by code_simp+
  have "(case load_head sample_lib sample_resume_db None \<lparr>app_quitting = False\<rparr> conv_init of
      Inr (st, a) \<Rightarrow> st = sample_resumed \<and> \<not> app_quitting a | _ \<Rightarrow> False)" by code_simp
  then obtain a2 where load: "load_head sample_lib sample_resume_db None \<lparr>app_quitting = False\<rparr> conv_init = Inr (sample_resumed, a2)"
    "\<not> app_quitting a2" by (auto split: sum.splits)
  have db: "get_canonical_block_at_height sample_resume_db None = Some sample_stored"
    "start_mapped sample_lib sample_resume_db sample_stored"
    "get_genesis_header sample_chain_db = get_genesis_header sample_resume_db"
    "get_chain_config sample_chain_db = get_chain_config sample_resume_db" by code_simp+
  from restart_goes_on [OF sample_load_head _ start sample_start_mapped sample_lib_ok bm run_handler_handled [OF first]
      stop(1) load db(1,2) stop(2) db(3,4)] run_handler_handled [OF run(1)] stop(3)
  obtain st es' where "handled (conv_step sample_lib sample_chain_db) (\<lambda>_ _. True) sample_conv
      ([(sample_n1, True)] @ [(sample_n2', True), (sample_n3, True)]) (es1 @ es') st" by fastforce
  with run show ?thesis by auto
qed

text \<open>
  The condition that no fork branches off at the starting block is needed: the native block made
  up for it is given the time of the header, which lies in the next EVM block already, so after
  a fork there the restarted plugin keeps the next EVM block and gives it the id of the starting
  block, where the other plugin makes a new one. Here the fork leaves that block without native
  blocks, and the two publish different ones.
\<close>

definition sample_late_fork :: native_block where
  "sample_late_fork = sample_native 12 2 0 1006500000 10 []"

lemma fork_at_start_diverges:
  "\<exists>stA esA stB esB qA qB.
     run_handler (conv_step sample_lib sample_chain_db) (conv_ok sample_lib sample_mapping)
       sample_stopped [(sample_n2, True), (sample_late_fork, True)] = Some (stA, esA) \<and>
     run_handler (conv_step sample_lib sample_resume_db) (conv_ok sample_lib sample_mapping)
       sample_resumed [(sample_n2, True), (sample_late_fork, True)] = Some (stB, esB) \<and>
     latest (published esA) 5 = Some qA \<and> latest (published esB) 5 = Some qB \<and>
     hd_prev_randao (blk_header qA) \<noteq> hd_prev_randao (blk_header qB)"
proof -
  let ?bs = "[(sample_n2, True), (sample_late_fork, True)]"
  have "(case (run_handler (conv_step sample_lib sample_chain_db) (conv_ok sample_lib sample_mapping) sample_stopped ?bs,
      run_handler (conv_step sample_lib sample_resume_db) (conv_ok sample_lib sample_mapping) sample_resumed ?bs) of
    (Some (stA, esA), Some (stB, esB)) \<Rightarrow>
      (case (latest (published esA) 5, latest (published esB) 5) of
         (Some qA, Some qB) \<Rightarrow> hd_prev_randao (blk_header qA) \<noteq> hd_prev_randao (blk_header qB) | _ \<Rightarrow> False)
    | _ \<Rightarrow> False)" by code_simp
  then show ?thesis
    by (simp del: run_handler.simps split: option.split_asm prod.split_asm) blast
qed

end
