(* ===== verification/Conversion_Starts.thy ===== *)
theory Conversion_Starts
  imports Conversion_Restart
begin

text \<open>
  Nodes that start at different heights, from databases of their own, publish the same chain above
  both of their starting blocks.
\<close>

text \<open>
  The native block that stands for the start has no actions, and its id is not used again: what the
  ledger has after it decides.
\<close>

lemma ledger_start:
  assumes start: "load_head L db n a conv_init = Inr (st0, a')" "\<not> app_quitting a'"
    "get_canonical_block_at_height db n = Some b0" "start_mapped L db b0" "lib_ok L" "cv_bm st0 = Some m"
    and h: "handled (conv_step L db1) (conv_ok L m) st0 bs es st"
    and ch: "run_spec (\<lambda>(b, eng). ledger_step b) bs (cv_native_blocks st0) = Some ch"
  obtains nb where "ch = nb # tl ch" "nb_actions nb = []" "nb_id nb = hd_prev_randao (blk_header b0)"
    "native_chain L m ch"
proof -
  obtain b nb g where b: "get_canonical_block_at_height db n = Some b" "start_native_of L b = Inr nb"
    "get_genesis_header db = Some g" "st0 = conv_init\<lparr>cv_evm_blocks := [b], cv_native_blocks := [nb],
      cv_bm := Some \<lparr>genesis_timestamp = hd_timestamp g, block_interval = 1\<rparr>,
      cv_evm_contract_name := lib_load_big_u64 L (hd_nonce g)\<rparr>"
    by (rule load_head_started [OF start(1,2)])
  have "ch \<noteq> [] \<and> hd ch = nb" using run_ledger_hd [OF ch] b(4) by simp
  then have "ch = nb # tl ch" by (cases ch) simp_all
  moreover have "nb_actions nb = []" "nb_id nb = hd_prev_randao (blk_header b0)"
    using b(1,2) start(3) by (auto simp: start_native_of_def res_simps nb_actions_def default_native_block_def)
  moreover have "native_chain L m ch"
    using ledger.handled_refines [OF h archive_start [OF start]] ch by (auto simp: conv_related_def archive_def)
  ultimately show thesis by (rule that)
qed

lemma latest_of_received:
  assumes start: "load_head L db n a conv_init = Inr (st0, a')" "\<not> app_quitting a'"
    "get_canonical_block_at_height db n = Some b0" "start_mapped L db b0" "lib_ok L" "cv_bm st0 = Some m"
    and h: "handled (conv_step L db1) (conv_ok L m) st0 bs es st"
    and ch: "run_spec (\<lambda>(b, eng). ledger_step b) bs (cv_native_blocks st0) = Some ch"
    and k: "blk_number b0 < k" "k < ledger_height L m (blk_number b0) ch"
  obtains q where "latest (published es) k = Some q"
    "list_all2 (tx_of L) (actions_at L m k (tl ch)) (blk_transactions q)"
    "natives_at L m k (tl ch) \<noteq> [] \<longrightarrow> hd_prev_randao (blk_header q) = nb_id (last (natives_at L m k (tl ch)))"
proof -
  obtain nb where nb: "ch = nb # tl ch" "nb_actions nb = []" "nb_id nb = hd_prev_randao (blk_header b0)"
    "native_chain L m ch" by (rule ledger_start [OF start h ch])
  let ?xs = "natives_at L m k (tl ch)"
  have at: "natives_at L m k ch = natives_at L m k [nb] @ ?xs"
    using natives_at_append [of L m k "[nb]" "tl ch"] nb(1) by simp
  then have "actions_at L m k ch = actions_at L m k (tl ch)"
    using nb(2) by (simp add: actions_at_def natives_at_def)
  moreover have "nb_id (last ?xs) \<noteq> hd_prev_randao (blk_header b0)" "last (natives_at L m k ch) = last ?xs" if "?xs \<noteq> []"
  proof -
    have "last ?xs \<in> set (tl ch)" using last_in_set [OF that] by (auto simp: natives_at_def)
    then show "nb_id (last ?xs) \<noteq> hd_prev_randao (blk_header b0)"
      using chain_ids [of L m "[nb]" "tl ch" nb "last ?xs"] nb by auto
    show "last (natives_at L m k ch) = last ?xs" using that at by simp
  qed
  moreover obtain q where "latest (published es) k = Some q" "blk_number q = k"
    "list_all2 (tx_of L) (actions_at L m k ch) (blk_transactions q)"
    "bound_ok L m (hd_prev_randao (blk_header b0)) ch (view_of q)"
    by (rule latest_of_history [OF assms])
  ultimately show thesis using at by (intro that) (auto simp: bound_ok_def Let_def)
qed

text \<open>
  C4: What is published depends neither on where the node started nor on the forks on the way. Take
  two nodes of one EVM chain, started from blocks of their own, and any two histories that lead
  their ledgers to the same received native blocks of a number above both starting blocks and
  below both heights: the last EVM blocks published for this number hold the same transactions
  in the same order, and carry the id of the last of these native blocks.
\<close>

theorem published_blocks_forget_starts:
  assumes "load_head L db1 n1 a1 conv_init = Inr (st1, a1')" "\<not> app_quitting a1'"
    and "get_canonical_block_at_height db1 n1 = Some b1" "start_mapped L db1 b1" "lib_ok L" "cv_bm st1 = Some m"
    and "load_head L db2 n2 a2 conv_init = Inr (st2, a2')" "\<not> app_quitting a2'"
    and "get_canonical_block_at_height db2 n2 = Some b2" "start_mapped L db2 b2" "cv_bm st2 = Some m"
    and "handled (conv_step L db1') (conv_ok L m) st1 bs1 es1 st1'"
    and "handled (conv_step L db2') (conv_ok L m) st2 bs2 es2 st2'"
    and "run_spec (\<lambda>(b, eng). ledger_step b) bs1 (cv_native_blocks st1) = Some ch1"
    and "run_spec (\<lambda>(b, eng). ledger_step b) bs2 (cv_native_blocks st2) = Some ch2"
    and "natives_at L m k (tl ch1) = natives_at L m k (tl ch2)"
    and "blk_number b1 < k" "k < ledger_height L m (blk_number b1) ch1"
    and "blk_number b2 < k" "k < ledger_height L m (blk_number b2) ch2"
  shows "\<exists>q1 q2. latest (published es1) k = Some q1 \<and> latest (published es2) k = Some q2 \<and>
    blk_transactions q1 = blk_transactions q2 \<and>
    (natives_at L m k (tl ch1) \<noteq> [] \<longrightarrow>
       hd_prev_randao (blk_header q1) = nb_id (last (natives_at L m k (tl ch1))) \<and>
       hd_prev_randao (blk_header q2) = nb_id (last (natives_at L m k (tl ch1))))"
proof -
  obtain q1 where q1: "latest (published es1) k = Some q1"
    "list_all2 (tx_of L) (actions_at L m k (tl ch1)) (blk_transactions q1)"
    "natives_at L m k (tl ch1) \<noteq> [] \<longrightarrow> hd_prev_randao (blk_header q1) = nb_id (last (natives_at L m k (tl ch1)))"
    by (rule latest_of_received [OF assms(1-6,12,14,17,18)])
  obtain q2 where q2: "latest (published es2) k = Some q2"
    "list_all2 (tx_of L) (actions_at L m k (tl ch2)) (blk_transactions q2)"
    "natives_at L m k (tl ch2) \<noteq> [] \<longrightarrow> hd_prev_randao (blk_header q2) = nb_id (last (natives_at L m k (tl ch2)))"
    by (rule latest_of_received [OF assms(7-10,5,11,13,15,19,20)])
  have "actions_at L m k (tl ch1) = actions_at L m k (tl ch2)" using assms(16) by (simp add: actions_at_def)
  then have "blk_transactions q1 = blk_transactions q2" using same_transactions q1(2) q2(2) by metis
  with q1 q2 assms(16) show ?thesis by auto
qed

text \<open>The sample node from its database, with a fork, and one that starts a block later.\<close>

lemma sample_resumed_load:
  obtains a2 where
    "load_head sample_lib sample_resume_db None \<lparr>app_quitting = False\<rparr> conv_init = Inr (sample_resumed, a2)"
    "\<not> app_quitting a2"
proof -
  have "(case load_head sample_lib sample_resume_db None \<lparr>app_quitting = False\<rparr> conv_init of
      Inr (st, a) \<Rightarrow> st = sample_resumed \<and> \<not> app_quitting a | _ \<Rightarrow> False)" by code_simp
  with that show thesis by (auto split: sum.splits)
qed

theorem published_blocks_forget_starts_witness:
  "\<exists>st1 es1 st2 es2 q1 q2. sample_run [sample_n1, sample_n2, sample_n2', sample_n3] = Some (st1, es1) \<and>
     run_handler (conv_step sample_lib sample_resume_db) (conv_ok sample_lib sample_mapping) sample_resumed
       [(sample_n2', True), (sample_n3, True)] = Some (st2, es2) \<and>
     latest (published es1) 5 = Some q1 \<and> latest (published es2) 5 = Some q2 \<and>
     blk_transactions q1 = blk_transactions q2"
proof -
  let ?bs1 = "[sample_n1, sample_n2, sample_n2', sample_n3]" and ?bs2 = "[(sample_n2', True), (sample_n3, True)]"
  let ?run2 = "run_handler (conv_step sample_lib sample_resume_db) (conv_ok sample_lib sample_mapping) sample_resumed ?bs2"
  let ?led = "run_spec (\<lambda>(b, eng). ledger_step b)"
  have "(case sample_run ?bs1 of Some r \<Rightarrow> True | None \<Rightarrow> False)" by code_simp
  then obtain st1 es1 where run1: "sample_run ?bs1 = Some (st1, es1)" by (auto split: option.splits)
  have "(case ?run2 of Some r \<Rightarrow> True | None \<Rightarrow> False)" by code_simp
  then obtain st2 es2 where run2: "?run2 = Some (st2, es2)"
    by (auto simp del: run_handler.simps split: option.splits)
  obtain a2 where load: "load_head sample_lib sample_resume_db None \<lparr>app_quitting = False\<rparr> conv_init = Inr (sample_resumed, a2)"
    "\<not> app_quitting a2" by (rule sample_resumed_load)
  have start: "get_canonical_block_at_height sample_chain_db None = Some sample_start_block"
    "get_canonical_block_at_height sample_resume_db None = Some sample_stored"
    "start_mapped sample_lib sample_resume_db sample_stored"
    "cv_bm sample_conv = Some sample_mapping" "cv_bm sample_resumed = Some sample_mapping"
    "blk_number sample_start_block = 3" "blk_number sample_stored = 4" by code_simp+
  have "(case (?led (map (\<lambda>b. (b, True)) ?bs1) (cv_native_blocks sample_conv), ?led ?bs2 (cv_native_blocks sample_resumed)) of
      (Some ch1, Some ch2) \<Rightarrow> natives_at sample_lib sample_mapping 5 (tl ch1) = natives_at sample_lib sample_mapping 5 (tl ch2) \<and>
        5 < ledger_height sample_lib sample_mapping 3 ch1 \<and> 5 < ledger_height sample_lib sample_mapping 4 ch2
    | _ \<Rightarrow> False)" by code_simp
  then obtain ch1 ch2 where ch: "?led (map (\<lambda>b. (b, True)) ?bs1) (cv_native_blocks sample_conv) = Some ch1"
    "?led ?bs2 (cv_native_blocks sample_resumed) = Some ch2"
    "natives_at sample_lib sample_mapping 5 (tl ch1) = natives_at sample_lib sample_mapping 5 (tl ch2)"
    "5 < ledger_height sample_lib sample_mapping 3 ch1" "5 < ledger_height sample_lib sample_mapping 4 ch2"
    by (auto simp del: run_spec.simps split: option.splits)
  from published_blocks_forget_starts [OF sample_load_head _ start(1) sample_start_mapped sample_lib_ok start(4)
      load start(2,3,5) sample_run_handled [OF run1] run_handler_handled [OF run2] ch(1-3), unfolded start(6,7)]
    ch(4,5) run1 run2 show ?thesis by auto
qed

end
