(* ===== verification/Conversion_Sessions.thy ===== *)
theory Conversion_Sessions
  imports Conversion_Starts
begin

text \<open>
  The chain across a restart: what a node published before it was stopped, followed by what it
  published after it was started again from one of these blocks, is one EVM chain.
\<close>

section \<open>The starting block stays as it is\<close>

text \<open>
  The native blocks that come after the start of a session belong to later EVM blocks, as they do
  when the starting block was complete and is not forked away.
\<close>

definition later_ok :: "'tx lib \<Rightarrow> block_mapping \<Rightarrow> u64 \<Rightarrow> 'tx conv \<Rightarrow> native_block \<times> bool \<Rightarrow> bool" where
  "later_ok L m s st e \<longleftrightarrow> conv_ok L m st e \<and> s < evm_num_of L m (fst e)"

text \<open>What of the starting block is not changed when it is published again.\<close>

definition kept :: "'tx block \<Rightarrow> 'tx block \<Rightarrow> bool" where
  "kept b0 e \<longleftrightarrow> blk_transactions e = blk_transactions b0 \<and>
     hd_prev_randao (blk_header e) = hd_prev_randao (blk_header b0) \<and>
     hd_parent_hash (blk_header e) = hd_parent_hash (blk_header b0)"

definition from_start :: "'tx block \<Rightarrow> 'tx block \<Rightarrow> bool" where
  "from_start b0 e \<longleftrightarrow> blk_number b0 \<le> blk_number e \<and> (blk_number e = blk_number b0 \<longrightarrow> kept b0 e)"

definition start_untouched :: "'tx lib \<Rightarrow> block_mapping \<Rightarrow> 'tx block \<Rightarrow> native_block list \<Rightarrow> 'tx block list \<Rightarrow> bool" where
  "start_untouched L m b0 ns es \<longleftrightarrow> from_start b0 (hd es) \<and>
     (\<forall>x \<in> set ns. evm_num_of L m x = blk_number b0 \<longrightarrow>
        nb_actions x = [] \<and> nb_id x = hd_prev_randao (blk_header b0))"

lemma no_actions_at:
  "\<forall>x \<in> set ns. evm_num_of L m x = k \<longrightarrow> nb_actions x = [] \<Longrightarrow> actions_at L m k ns = []"
  by (auto simp: actions_at_def natives_at_def)

text \<open>A rollback to a native block of the starting block takes nothing from it.\<close>

lemma linked_to_untouched:
  assumes link: "linked_to L m b ns es ns1 es1" and es: "es \<noteq> []" and start: "start_untouched L m b0 ns es"
  shows "start_untouched L m b0 ns1 es1"
proof -
  obtain r where r: "ns = ns1 @ r" and ne: "ns1 \<noteq> []" using link by (auto simp: linked_to_def)
  have "from_start b0 (hd es1)"
  proof (cases "es1 = es")
    case True
    with start show ?thesis by (simp add: start_untouched_def)
  next
    case False
    with link obtain us e d txs popped where e: "es = us @ e # d" "blk_number e = evm_num_of L m (last ns1)"
      "blk_transactions e = txs @ popped"
      "length popped = length (actions_at L m (evm_num_of L m (last ns1)) (drop (length ns1) ns))"
      "es1 = us @ [set_upper_bound (e\<lparr>blk_transactions := txs\<rparr>) (last ns1)]"
      unfolding linked_to_def by blast
    show ?thesis
    proof (cases us)
      case (Cons u us')
      with e start show ?thesis by (simp add: start_untouched_def)
    next
      case Nil
      have start_e: "from_start b0 e" using start e(1) Nil by (simp add: start_untouched_def)
      have hd: "hd es1 = set_upper_bound (e\<lparr>blk_transactions := txs\<rparr>) (last ns1)" using e(5) Nil by simp
      show ?thesis
      proof (cases "blk_number e = blk_number b0")
        case True
        then have at: "evm_num_of L m (last ns1) = blk_number b0" using e(2) by simp
        have "last ns1 \<in> set ns" using ne r by simp
        with start at have id: "nb_id (last ns1) = hd_prev_randao (blk_header b0)" by (simp add: start_untouched_def)
        have "actions_at L m (blk_number b0) r = []"
          using start r by (intro no_actions_at) (simp add: start_untouched_def)
        with e(3,4) r at have "txs = blk_transactions e" by simp
        with start_e id True show ?thesis
          unfolding hd by (simp add: from_start_def kept_def set_upper_bound_def extract_as_byte_array_def)
      qed (use start_e hd in \<open>simp add: from_start_def set_upper_bound_def\<close>)
    qed
  qed
  with start r show ?thesis by (auto simp: start_untouched_def)
qed

text \<open>One step: what is published is from the start on, and the starting block is as it was.\<close>

lemma view_txs: "view_of a = view_of b \<Longrightarrow> blk_transactions a = blk_transactions b \<and>
    hd_prev_randao (blk_header a) = hd_prev_randao (blk_header b) \<and> blk_number a = blk_number b"
  by (simp add: view_of_def)

lemma session_new_block:
  assumes wf: "conv_wf L m s i st" and b: "block_ok L m st b" "blk_number b0 < evm_num_of L m b"
    and on: "on_native_block L db eng b st = Some (Inr (st', effs))"
    and new: "\<forall>a \<in> set (cv_native_blocks st). nb_id a \<noteq> nb_id b"
    and start: "start_untouched L m b0 (cv_native_blocks st) (cv_evm_blocks st)"
  shows "start_untouched L m b0 (cv_native_blocks st') (cv_evm_blocks st')"
    "\<forall>q \<in> set (published effs). from_start b0 q"
proof -
  let ?ns = "cv_native_blocks st" and ?es = "cv_evm_blocks st"
  have hash: "hash_linked L ?es" and es: "?es \<noteq> []"
    using wf by (auto simp: conv_wf_def conv_inv_def view_inv_def core_inv_def)
  obtain ns1 es1 ps ceffs es' c where link: "linked_to L m b ?ns ?es ns1 es1"
    and inv1: "view_inv L m s i ns1 (map view_of es1)" and app: "appended L m eng b ns1 es1 st st' ps ceffs es' c"
    and rest: "view_inv L m s i (ns1 @ [b]) (map view_of (butlast es' @ [c]))"
    and inv': "conv_inv L m s i st'" and ps: "published effs = ps"
    by (rule new_block_steps [OF wf b(1) on new])
  note front = linked_to_front [OF link es]
  have start1: "start_untouched L m b0 ns1 es1" by (rule linked_to_untouched [OF link es start])
  let ?F = "butlast es' @ [c]"
  have "linked succ_number (map view_of ?F)" using rest by (simp add: view_inv_def core_inv_def)
  note F = appended_front [OF app front(1) linked_to_hash_linked [OF link hash] this]
  have ext: "extended L (evm_num_of L m b) es1 es' ps" using app by (simp add: appended_def)
  have es': "es' \<noteq> []" using ext by (simp add: extended_def)
  have "hd (map view_of es') = hd (map view_of es1)" using ext front(1) by (auto simp: extended_def)
  then have view: "view_of (hd es') = view_of (hd es1)" using es' front(1) by (simp add: hd_map)
  have hd': "from_start b0 (hd es')"
    using start1 view_txs [OF view] extended_hd(1) [OF ext front(1)]
    by (simp add: start_untouched_def from_start_def kept_def)
  have "evm_num_of L m (last ns1) \<le> evm_num_of L m b"
    using rest link by (auto simp: view_inv_def core_inv_def native_chain_append child_of_def linked_to_def)
  then have num: "blk_number c = evm_num_of L m b" using extended_view(2) [OF ext inv1] F(5) by simp
  have hdF: "from_start b0 (hd ?F)"
  proof (cases "butlast es' = []")
    case True
    with num b(2) show ?thesis by (auto simp: from_start_def)
  next
    case False
    then have "hd ?F = hd es'" by (cases es') auto
    with hd' show ?thesis by simp
  qed
  have all: "from_start b0 e" if "e \<in> set ?F" for e
  proof (cases "e = hd ?F")
    case False
    with that have "e \<in> set (tl ?F)" by (metis hd_Cons_tl list.distinct(1) list.set_cases set_ConsD)
    moreover have "?F = [hd ?F] @ tl ?F" by (cases ?F) simp_all
    ultimately have "blk_number (hd ?F) < blk_number e"
      using grows_less [of L "[hd ?F]" "tl ?F" "hd ?F" e] F(3) by simp
    with hdF show ?thesis by (auto simp: from_start_def)
  qed (use hdF in simp)
  show "\<forall>q \<in> set (published effs). from_start b0 q" using all F(4) by (simp add: ps)
  have pr: "pruned L m (nb_lib b) (ns1 @ [b]) ?F (cv_native_blocks st') (cv_evm_blocks st') (cv_evm_lib st) (cv_evm_lib st')"
    using app by (simp add: appended_def)
  have "cv_evm_blocks st' \<noteq> []" using inv' by (auto simp: conv_inv_def view_inv_def core_inv_def)
  then have "hd (cv_evm_blocks st') \<in> set ?F" using pruned_suffix(2) [OF pr] by (metis Un_iff hd_in_set set_append)
  moreover have "set (cv_native_blocks st') \<subseteq> set ns1 \<union> {b}" using pruned_suffix(1) [OF pr] by (metis Un_iff list.set(1,2) set_append subsetI)
  ultimately show "start_untouched L m b0 (cv_native_blocks st') (cv_evm_blocks st')"
    using all start1 b(2) unfolding start_untouched_def by fastforce
qed

interpretation second_session: recording_handler "conv_step L db" "later_ok L m (blk_number b0)"
  "\<lambda>st. conv_wf L m s i st \<and> start_untouched L m b0 (cv_native_blocks st) (cv_evm_blocks st)"
  "\<lambda>st es. \<forall>q \<in> set (published es). from_start b0 q"
  for L :: "'tx lib" and db m s i b0
proof
  fix st st' and e :: "native_block \<times> bool" and es h
  assume inv: "conv_wf L m s i st \<and> start_untouched L m b0 (cv_native_blocks st) (cv_evm_blocks st)"
    and ok: "later_ok L m (blk_number b0) st e"
  show "conv_step L db e st \<noteq> None" using conversion.returns inv ok unfolding later_ok_def by blast
  assume step: "conv_step L db e st = Some (Inr (st', es))"
  have b: "block_ok L m st (fst e)" "blk_number b0 < evm_num_of L m (fst e)"
    and on: "on_native_block L db (snd e) (fst e) st = Some (Inr (st', es))"
    using ok step by (auto simp: later_ok_def conv_ok_def conv_step_def split: prod.splits)
  have new: "start_untouched L m b0 (cv_native_blocks st') (cv_evm_blocks st') \<and> (\<forall>q \<in> set (published es). from_start b0 q)"
  proof (cases "\<exists>a \<in> set (cv_native_blocks st). nb_id a = nb_id (fst e)")
    case True
    then have "st' = st \<and> es = []" using cached_id_ignored [OF conjunct1 [OF inv] b(1)] on by fastforce
    with inv show ?thesis by simp
  next
    case False
    then show ?thesis using session_new_block [OF conjunct1 [OF inv] b on] inv by blast
  qed
  moreover have "conv_wf L m s i st'" by (rule on_native_block_keeps [OF conjunct1 [OF inv] b(1) on])
  ultimately show "conv_wf L m s i st' \<and> start_untouched L m b0 (cv_native_blocks st') (cv_evm_blocks st')" by blast
  show "\<forall>q \<in> set (published (h @ es)). from_start b0 q" if "\<forall>q \<in> set (published h). from_start b0 q"
    using new that by auto
qed

section \<open>The second session\<close>

text \<open>What a session publishes lies from its starting block on, and the ledger gets later blocks only.\<close>

lemma session_published:
  assumes start: "load_head L db n a conv_init = Inr (st0, a')" "\<not> app_quitting a'"
    "get_canonical_block_at_height db n = Some b0" "start_mapped L db b0" "lib_ok L" "cv_bm st0 = Some m"
    and h: "handled (conv_step L db1) (later_ok L m (blk_number b0)) st0 bs es st"
  shows "\<forall>q \<in> set (published es). from_start b0 q"
proof -
  have ledger: "cv_evm_blocks st0 = [b0]" using start_recorded(3) [OF start] .
  obtain b nb g where b: "get_canonical_block_at_height db n = Some b" "start_native_of L b = Inr nb"
    "get_genesis_header db = Some g"
    "st0 = conv_init\<lparr>cv_evm_blocks := [b], cv_native_blocks := [nb],
      cv_bm := Some \<lparr>genesis_timestamp = hd_timestamp g, block_interval = 1\<rparr>,
      cv_evm_contract_name := lib_load_big_u64 L (hd_nonce g)\<rparr>"
    by (rule load_head_started [OF start(1,2)])
  have "start_untouched L m b0 (cv_native_blocks st0) (cv_evm_blocks st0)"
    using b start(3) by (auto simp: start_untouched_def from_start_def kept_def start_native_of_def res_simps
        nb_actions_def default_native_block_def)
  with archive_start(1) [OF start] second_session.handled_recorded [OF h, of _ _ "[]"] show ?thesis by auto
qed

lemma path_to_subset: "set (path_to ch i) \<subseteq> set ch"
  by (induction ch) auto

lemma ledger_step_blocks: "ledger_step b ch = Some ch' \<Longrightarrow> ch \<noteq> [] \<Longrightarrow> set (tl ch') \<subseteq> set (tl ch) \<union> {b}"
  using path_to_subset [of "tl ch" "nb_prev b"] by (cases ch) (auto simp: ledger_step_def split: if_splits)

lemma session_ledger:
  assumes "handled (conv_step L db1) (later_ok L m s) st0 bs es st"
    and "run_spec (\<lambda>(b, eng). ledger_step b) bs ch0 = Some ch" "ch0 \<noteq> []" "\<forall>x \<in> set (tl ch0). s < evm_num_of L m x"
  shows "\<forall>x \<in> set (tl ch). s < evm_num_of L m x"
proof -
  have later: "\<forall>e \<in> set bs. s < evm_num_of L m (fst e)"
    using assms(1) by (induction rule: handled.induct) (auto simp: later_ok_def)
  from assms(2-4) later show ?thesis
  proof (induction bs arbitrary: ch0)
    case (Cons e bs)
    obtain b eng where e: "e = (b, eng)" by (cases e)
    from Cons.prems(1) obtain ch1 where 1: "ledger_step b ch0 = Some ch1"
      "run_spec (\<lambda>(b, eng). ledger_step b) bs ch1 = Some ch" by (auto simp: e split: option.splits)
    have "ch1 \<noteq> []" using 1(1) Cons.prems(2) by (cases ch0) (auto simp: ledger_step_def split: if_splits)
    moreover have "\<forall>x \<in> set (tl ch1). s < evm_num_of L m x"
      using ledger_step_blocks [OF 1(1) Cons.prems(2)] Cons.prems(3,4) e by auto
    ultimately show ?case using Cons.IH [OF 1(2)] Cons.prems(4) by simp
  qed simp
qed

section \<open>Two chains joined at an EVM block\<close>

lemma chain_monotone:
  assumes "native_chain L m (p @ x # r)"
  shows "\<forall>y \<in> set p. evm_num_of L m y \<le> evm_num_of L m x" "\<forall>y \<in> set r. evm_num_of L m x \<le> evm_num_of L m y"
proof -
  have l: "linked (child_of L m) (p @ [x])" "linked (child_of L m) (x # r)"
    using assms by (auto simp: native_chain_def linked_append)
  show "\<forall>y \<in> set p. evm_num_of L m y \<le> evm_num_of L m x"
    using linked_le_last [OF l(1), of "evm_num_of L m"] child_evm_num by fastforce
  show "\<forall>y \<in> set r. evm_num_of L m x \<le> evm_num_of L m y"
    using linked_hd_le [OF l(2), of "evm_num_of L m"] child_evm_num by fastforce
qed

lemma join_chains:
  assumes c1: "native_chain L m ch1" and at: "natives_at L m h (tl ch1) \<noteq> []"
    and c2: "native_chain L m (nb # T)" and id: "nb_id nb = nb_id (last (natives_at L m h (tl ch1)))"
    and T: "\<forall>y \<in> set T. h < evm_num_of L m y"
  obtains P R where "ch1 = P @ R" "path_to ch1 (nb_id nb) = P" "\<forall>y \<in> set P. evm_num_of L m y \<le> h"
    "\<forall>y \<in> set R. h < evm_num_of L m y" "native_chain L m (P @ T)"
proof -
  let ?x = "last (natives_at L m h (tl ch1))"
  have x: "?x \<in> set (tl ch1)" "evm_num_of L m ?x = h"
    using last_in_set [OF at] by (auto simp: natives_at_def)
  then have "?x \<in> set ch1" by (cases ch1) auto
  then obtain p R where s: "ch1 = p @ ?x # R" by (meson split_list)
  have chain: "native_chain L m (p @ ?x # R)" using c1 s by simp
  have "native_chain L m ((p @ [?x]) @ R)" using chain by simp
  then have ids: "\<forall>y \<in> set R. nb_id ?x \<noteq> nb_id y" using chain_ids [of L m "p @ [?x]" R ?x] by simp
  have "natives_at L m h R = []"
  proof (rule ccontr)
    assume R: "natives_at L m h R \<noteq> []"
    have "ch1 = hd ch1 # tl ch1" using x(1) by (cases ch1) auto
    then have "natives_at L m h ch1 = natives_at L m h [hd ch1] @ natives_at L m h (tl ch1)"
      using natives_at_append [of L m h "[hd ch1]" "tl ch1"] by simp
    then have "last (natives_at L m h ch1) = ?x" using at by simp
    moreover have "natives_at L m h ch1 = natives_at L m h (p @ [?x]) @ natives_at L m h R"
      using natives_at_append [of L m h "p @ [?x]" R] s by simp
    then have "last (natives_at L m h ch1) \<in> set R"
      using R last_in_set [OF R] by (auto simp: natives_at_def)
    ultimately show False using ids by metis
  qed
  then have R: "\<forall>y \<in> set R. h < evm_num_of L m y"
    using chain_monotone(2) [OF chain] x(2) by (fastforce simp: natives_at_def filter_empty_conv)
  have P: "\<forall>y \<in> set (p @ [?x]). evm_num_of L m y \<le> h" using chain_monotone(1) [OF chain] x(2) by auto
  have path: "path_to ch1 (nb_id nb) = p @ [?x]"
    using path_to_append [of ?x "nb_id nb" p R] id s chain_ids [of L m p "?x # R" _ ?x] chain by auto
  have "native_chain L m ((p @ [?x]) @ T)"
  proof (cases "T = []")
    case False
    have "child_of L m nb (hd T)" "native_chain L m T" "native_ok L m nb"
      using c2 False native_chain_append [of L m "[nb]" T] by (auto simp: native_chain_def)
    moreover have "native_ok L m ?x" using native_chain_after(1) [OF chain] .
    moreover have "h < evm_num_of L m (hd T)" using T False by simp
    ultimately have "child_of L m ?x (hd T)" using id x(2) by (simp add: child_of_def native_ok_def)
    moreover have "native_chain L m (p @ [?x])" using chain native_chain_append [of L m "p @ [?x]" R] by simp
    ultimately show ?thesis
      using \<open>native_chain L m T\<close> native_chain_append [of L m "p @ [?x]" T] by auto
  next
    case True
    then show ?thesis using chain native_chain_append [of L m "p @ [?x]" R] by simp
  qed
  with s path P R show thesis by (intro that [of "p @ [?x]" R]) simp_all
qed

section \<open>Properties\<close>

text \<open>
  What a block holds by the ledger, without the mark of irreversibility, which the database does
  not keep.
\<close>

definition ledger_contents ::
  "'tx lib \<Rightarrow> block_mapping \<Rightarrow> u64 \<Rightarrow> bytes32 \<Rightarrow> native_block list \<Rightarrow> 'tx block \<Rightarrow> bool" where
  "ledger_contents L m s i ch q \<longleftrightarrow>
     (\<exists>pre txs. blk_transactions q = pre @ txs \<and> list_all2 (tx_of L) (actions_at L m (blk_number q) ch) txs \<and>
        (blk_number q \<noteq> s \<longrightarrow> pre = [])) \<and>
     (let xs = natives_at L m (blk_number q) ch in
      xs = [] \<or> nb_id (last xs) = i \<or> hd_prev_randao (blk_header q) = nb_id (last xs))"

lemma ledger_block_contents: "ledger_block L m s i ch q \<Longrightarrow> ledger_contents L m s i ch q"
  by (auto simp: ledger_block_def ledger_contents_def bound_ok_def Let_def)

lemma ledger_contents_cong:
  "natives_at L m (blk_number q) ch = natives_at L m (blk_number q) ch' \<Longrightarrow>
   ledger_contents L m s i ch q \<longleftrightarrow> ledger_contents L m s i ch' q"
  by (simp add: ledger_contents_def actions_at_def)

lemma latest_number:
  assumes "latest h k = Some q"
  shows "blk_number q = k" "q \<in> set h"
proof -
  obtain p r where "blk_number q = k" "rev h = p @ q # r"
    using find_SomeD [of "\<lambda>b. blk_number b = k" "rev h" q] assms by (auto simp: latest_def)
  then show "blk_number q = k" "q \<in> set h" by (auto simp flip: set_rev [of h])
qed

lemma history_archive:
  assumes start: "load_head L db n a conv_init = Inr (st0, a')" "\<not> app_quitting a'"
    "get_canonical_block_at_height db n = Some b0" "start_mapped L db b0" "lib_ok L" "cv_bm st0 = Some m"
    and h: "handled (conv_step L db1) (conv_ok L m) st0 bs es st"
    and ch: "run_spec (\<lambda>(b, eng). ledger_step b) bs (cv_native_blocks st0) = Some ch"
  shows "native_chain L m ch"
    "blk_number b0 \<le> k \<Longrightarrow> k < ledger_height L m (blk_number b0) ch \<Longrightarrow>
      \<exists>q. latest (published es) k = Some q \<and> ledger_block L m (blk_number b0) (hd_prev_randao (blk_header b0)) ch q \<and>
        (k \<noteq> blk_number b0 \<longrightarrow> (\<exists>p. latest (published es) (k - 1) = Some p \<and>
          hd_parent_hash (blk_header q) = lib_header_hash L (blk_header p)))"
proof -
  note s = archive_start [OF start]
  from ledger.handled_refines [OF h s] ch have
    arch: "archive L m (blk_number b0) (hd_prev_randao (blk_header b0)) ch st (published es)"
    by (auto simp: conv_related_def)
  then show "native_chain L m ch" by (auto simp: archive_def)
  have "conv_inv L m (blk_number b0) (hd_prev_randao (blk_header b0)) st"
    using conversion.handled_inv [OF h s(1)] by (simp add: conv_wf_def)
  then show "blk_number b0 \<le> k \<Longrightarrow> k < ledger_height L m (blk_number b0) ch \<Longrightarrow>
      \<exists>q. latest (published es) k = Some q \<and> ledger_block L m (blk_number b0) (hd_prev_randao (blk_header b0)) ch q \<and>
        (k \<noteq> blk_number b0 \<longrightarrow> (\<exists>p. latest (published es) (k - 1) = Some p \<and>
          hd_parent_hash (blk_header q) = lib_header_hash L (blk_header p)))"
    by (rule archive_latest [OF arch])
qed

text \<open>
  What is to be shown of a number: the last block published for it, and the one before it. Each of the
  three lemmas is for the numbers below, at and above that of the stored block.
\<close>

definition good_at ::
  "'tx lib \<Rightarrow> block_mapping \<Rightarrow> u64 \<Rightarrow> bytes32 \<Rightarrow> native_block list \<Rightarrow> 'tx block list \<Rightarrow> u64 \<Rightarrow> bool" where
  "good_at L m s i ch h k \<longleftrightarrow>
     (\<exists>q. latest h k = Some q \<and> ledger_contents L m s i ch q \<and>
        (k \<noteq> s \<longrightarrow> (\<exists>p. latest h (k - 1) = Some p \<and> hd_parent_hash (blk_header q) = lib_header_hash L (blk_header p))))"

lemma minus_one_less: "(k::u64) \<noteq> 0 \<Longrightarrow> k - 1 < k"
  by (simp add: word_less_nat_alt unat_minus_one unat_gt_0)

lemma good_before:
  assumes q: "latest h1 k = Some q" "ledger_block L m s i ch1 q"
    "k \<noteq> s \<longrightarrow> (\<exists>p. latest h1 (k - 1) = Some p \<and> hd_parent_hash (blk_header q) = lib_header_hash L (blk_header p))"
    and below: "natives_at L m k whole = natives_at L m k ch1"
    and first: "\<And>j. j \<le> k \<Longrightarrow> latest h j = latest h1 j" and k: "s \<le> k"
  shows "good_at L m s i whole h k"
proof -
  have "ledger_contents L m s i whole q"
    using ledger_block_contents [OF q(2)] ledger_contents_cong [of L m q whole ch1] below latest_number(1) [OF q(1)] by simp
  moreover have "k - 1 \<le> k" if "k \<noteq> s"
  proof -
    have "k \<noteq> 0" using that k by (auto simp: word_le_nat_alt unat_eq_zero)
    from minus_one_less [OF this] show ?thesis by simp
  qed
  ultimately show ?thesis using q first by (auto simp: good_at_def)
qed

lemma good_stored:
  assumes q1: "latest h1 k = Some q1" "ledger_block L m s i ch1 q1" "blk_header q1 = blk_header b1"
    "blk_transactions q1 = blk_transactions b1"
    and p: "latest h1 (k - 1) = Some p" "hd_parent_hash (blk_header q1) = lib_header_hash L (blk_header p)"
    and q: "latest h2 k = Some q" "kept b1 q"
    and below: "natives_at L m k whole = natives_at L m k ch1" and first: "latest (h1 @ h2) (k - 1) = latest h1 (k - 1)"
  shows "good_at L m s i whole (h1 @ h2) k"
proof -
  have same: "blk_transactions q = blk_transactions q1" "hd_prev_randao (blk_header q) = hd_prev_randao (blk_header q1)"
    "blk_number q = blk_number q1" "hd_parent_hash (blk_header q) = hd_parent_hash (blk_header q1)"
    using q(2) q1(3,4) latest_number(1) [OF q(1)] latest_number(1) [OF q1(1)] by (simp_all add: kept_def)
  have "ledger_contents L m s i ch1 q" using ledger_block_contents [OF q1(2)] by (simp add: ledger_contents_def same)
  then have "ledger_contents L m s i whole q"
    using ledger_contents_cong [of L m q whole ch1] below latest_number(1) [OF q(1)] by simp
  moreover have "latest (h1 @ h2) k = Some q" using q(1) by (simp add: latest_append)
  ultimately show ?thesis using p first same(4) by (simp add: good_at_def)
qed

lemma good_after:
  assumes q: "latest h2 k = Some q" "latest h2 (k - 1) = Some p"
    "hd_parent_hash (blk_header q) = lib_header_hash L (blk_header p)"
    and txs: "list_all2 (tx_of L) (actions_at L m k T) (blk_transactions q)"
    "natives_at L m k T \<noteq> [] \<longrightarrow> hd_prev_randao (blk_header q) = nb_id (last (natives_at L m k T))"
    and above: "natives_at L m k whole = natives_at L m k T"
  shows "good_at L m s i whole (h1 @ h2) k"
  using assms latest_number(1) [OF q(1)]
  by (auto simp: good_at_def latest_append ledger_contents_def actions_at_def Let_def)

lemma joined_natives:
  assumes "\<forall>y \<in> set P. evm_num_of L m y \<le> h" "\<forall>y \<in> set R. h < evm_num_of L m y" "\<forall>y \<in> set T. h < evm_num_of L m y"
  shows "k \<le> h \<Longrightarrow> natives_at L m k (P @ T) = natives_at L m k (P @ R)"
    "h < k \<Longrightarrow> natives_at L m k (P @ T) = natives_at L m k T"
proof -
  assume "k \<le> h"
  then have "natives_at L m k T = []" "natives_at L m k R = []"
    using assms(2,3) by (auto intro!: natives_at_below intro: le_less_trans)
  then show "natives_at L m k (P @ T) = natives_at L m k (P @ R)" by simp
next
  assume "h < k"
  then have "natives_at L m k P = []" using assms(1) by (auto intro!: natives_at_above intro: le_less_trans)
  then show "natives_at L m k (P @ T) = natives_at L m k T" by simp
qed

text \<open>
  C6: The chain goes on across a restart. Let a node have published, for a number above its starting
  block, a block with native blocks of its own; let it be started again from this block, as it
  was stored, and receive native blocks of later EVM blocks, with any forks among them. Then
  the native blocks up to those of the stored block, followed by those of the ledger of the
  second session, are one chain; and for every number from the first starting block up to the
  height of the second ledger, the last EVM block published in either session holds exactly the
  transactions of the native blocks of this chain, carries the id of the last of them, and has
  the hash of the last block published for the number before as its parent.
\<close>

theorem sessions_make_one_chain:
  assumes "load_head L db n a conv_init = Inr (st0, a')" "\<not> app_quitting a'"
    and "get_canonical_block_at_height db n = Some b0" "start_mapped L db b0" "lib_ok L" "cv_bm st0 = Some m"
    and "handled (conv_step L db1) (conv_ok L m) st0 bs1 es1 st1"
    and "run_spec (\<lambda>(b, eng). ledger_step b) bs1 (cv_native_blocks st0) = Some ch1"
    and "load_head L db2 n2 a2 conv_init = Inr (r0, a2')" "\<not> app_quitting a2'"
    and "get_canonical_block_at_height db2 n2 = Some b1" "start_mapped L db2 b1" "cv_bm r0 = Some m"
    and "latest (published es1) (blk_number b1) = Some q1" "b1\<lparr>blk_irreversible := blk_irreversible q1\<rparr> = q1"
    and "blk_number b0 < blk_number b1" "blk_number b1 < ledger_height L m (blk_number b0) ch1"
    and "natives_at L m (blk_number b1) (tl ch1) \<noteq> []"
    and "handled (conv_step L db3) (later_ok L m (blk_number b1)) r0 bs2 es2 r"
    and "run_spec (\<lambda>(b, eng). ledger_step b) bs2 (cv_native_blocks r0) = Some ch2"
  shows "let whole = path_to ch1 (hd_prev_randao (blk_header b1)) @ tl ch2; all = published es1 @ published es2 in
    native_chain L m whole \<and>
    (\<forall>k. blk_number b0 \<le> k \<longrightarrow> k < ledger_height L m (blk_number b1) ch2 \<longrightarrow>
      (\<exists>q. latest all k = Some q \<and> ledger_contents L m (blk_number b0) (hd_prev_randao (blk_header b0)) whole q \<and>
        (k \<noteq> blk_number b0 \<longrightarrow> (\<exists>p. latest all (k - 1) = Some p \<and>
          hd_parent_hash (blk_header q) = lib_header_hash L (blk_header p)))))"
proof -
  let ?h = "blk_number b1" and ?s = "blk_number b0" and ?i = "hd_prev_randao (blk_header b0)" and ?T = "tl ch2"
  let ?all = "published es1 @ published es2"
  note one = assms(1-6) and two = assms(9-12,5,13)
  note h1 = history_archive [OF one assms(7,8)]
  have ok2: "handled (conv_step L db3) (conv_ok L m) r0 bs2 es2 r"
    by (rule handled_mono [OF assms(19)]) (simp add: later_ok_def)
  note h2 = history_archive [OF two ok2 assms(20)]
  obtain nb where nb: "ch2 = nb # ?T" "nb_id nb = hd_prev_randao (blk_header b1)"
    by (rule ledger_start [OF two ok2 assms(20)])
  have q1: "blk_transactions q1 = blk_transactions b1" "blk_header q1 = blk_header b1"
    using arg_cong [OF assms(15), of blk_transactions] arg_cong [OF assms(15), of blk_header] by simp_all
  have last1: "hd_prev_randao (blk_header b1) = nb_id (last (natives_at L m ?h (tl ch1)))"
    using latest_of_received [OF one assms(7,8,16,17)] assms(14,18) q1(2) by (metis option.inject)
  have T: "\<forall>y \<in> set ?T. ?h < evm_num_of L m y"
    using session_ledger [OF assms(19,20)] start_recorded(4) [OF two] by auto
  obtain P R where P: "ch1 = P @ R" "path_to ch1 (hd_prev_randao (blk_header b1)) = P"
    "\<forall>y \<in> set P. evm_num_of L m y \<le> ?h" "\<forall>y \<in> set R. ?h < evm_num_of L m y" "native_chain L m (P @ ?T)"
    using join_chains [OF h1(1) assms(18) _ _ T, of nb] h2(1) nb last1 by metis
  note below = joined_natives(1) [OF P(3,4) T, folded P(1)] and above = joined_natives(2) [OF P(3,4) T]
  have from_h: "\<forall>q \<in> set (published es2). from_start b1 q" by (rule session_published [OF two assms(19)])
  have first: "latest ?all k = latest (published es1) k" if "k < ?h" for k
    using that from_h latest_none [of "published es2" k] by (fastforce simp: latest_append from_start_def)
  have "good_at L m ?s ?i (P @ ?T) ?all k" if k: "?s \<le> k" "k < ledger_height L m ?h ch2" for k
  proof -
    consider "k < ?h" | "k = ?h" | "?h < k" by fastforce
    then show ?thesis
    proof cases
      case 1
      have "k < ledger_height L m ?s ch1" using 1 assms(17) by simp
      from h1(2) [OF k(1) this] obtain q where "latest (published es1) k = Some q" "ledger_block L m ?s ?i ch1 q"
        "k \<noteq> ?s \<longrightarrow> (\<exists>p. latest (published es1) (k - 1) = Some p \<and> hd_parent_hash (blk_header q) = lib_header_hash L (blk_header p))"
        by blast
      from good_before [OF this below first k(1)] show ?thesis using 1 by (simp add: le_less_trans)
    next
      case 2
      from h2(2) [of k] k 2 obtain q where q: "latest (published es2) k = Some q" by blast
      have "kept b1 q" using from_h latest_number [OF q] 2 by (simp add: from_start_def)
      moreover from h1(2) [OF less_imp_le [OF assms(16)] assms(17)] assms(14,16) obtain p where
        "ledger_block L m ?s ?i ch1 q1" "latest (published es1) (?h - 1) = Some p"
        "hd_parent_hash (blk_header q1) = lib_header_hash L (blk_header p)" by auto
      moreover have "?h \<noteq> 0" using assms(16) by auto
      ultimately show ?thesis
        using good_stored [OF assms(14) _ q1(2,1)] q 2 below first [OF minus_one_less] by simp
    next
      case 3
      from h2(2) [OF less_imp_le [OF 3] k(2)] 3 obtain q p where q: "latest (published es2) k = Some q" "latest (published es2) (k - 1) = Some p"
        "hd_parent_hash (blk_header q) = lib_header_hash L (blk_header p)" by auto
      from latest_of_received [OF two ok2 assms(20) 3 k(2)] q(1) have
        "list_all2 (tx_of L) (actions_at L m k ?T) (blk_transactions q)"
        "natives_at L m k ?T \<noteq> [] \<longrightarrow> hd_prev_randao (blk_header q) = nb_id (last (natives_at L m k ?T))"
        by (metis option.inject)+
      from good_after [OF q this above [OF 3]] show ?thesis .
    qed
  qed
  with P(2,5) show ?thesis by (simp add: Let_def good_at_def)
qed

text \<open>The sample node, stopped after a fork and started again from the block numbered 4, with the fork gone.\<close>

theorem sessions_make_one_chain_witness:
  "\<exists>st1 es1 r es2 q. sample_run [sample_n1, sample_n2, sample_n2', sample_n3] = Some (st1, es1) \<and>
     run_handler (conv_step sample_lib sample_resume_db) (later_ok sample_lib sample_mapping 4) sample_resumed
       [(sample_n2', True), (sample_n3, True)] = Some (r, es2) \<and>
     latest (published es1 @ published es2) 5 = Some q \<and>
     ledger_contents sample_lib sample_mapping 3 (sample_id 10 0)
       [hd (cv_native_blocks sample_conv), sample_n1, sample_n2', sample_n3] q"
proof -
  let ?bs1 = "[sample_n1, sample_n2, sample_n2', sample_n3]" and ?bs2 = "[(sample_n2', True), (sample_n3, True)]"
  let ?run2 = "run_handler (conv_step sample_lib sample_resume_db) (later_ok sample_lib sample_mapping 4) sample_resumed ?bs2"
  let ?led = "run_spec (\<lambda>(b, eng). ledger_step b)"
  let ?ch1 = "?led (map (\<lambda>b. (b, True)) ?bs1) (cv_native_blocks sample_conv)"
    and ?ch2 = "?led ?bs2 (cv_native_blocks sample_resumed)"
  have "(case sample_run ?bs1 of
      Some (st, es) \<Rightarrow> (case latest (published es) 4 of
        Some q \<Rightarrow> sample_stored\<lparr>blk_irreversible := blk_irreversible q\<rparr> = q | None \<Rightarrow> False)
    | None \<Rightarrow> False)" by code_simp
  then obtain st1 es1 q1 where run1: "sample_run ?bs1 = Some (st1, es1)" "latest (published es1) 4 = Some q1"
    "sample_stored\<lparr>blk_irreversible := blk_irreversible q1\<rparr> = q1" by (auto split: option.splits)
  have "(case ?run2 of Some r \<Rightarrow> True | None \<Rightarrow> False)" by code_simp
  then obtain r es2 where run2: "?run2 = Some (r, es2)"
    by (auto simp del: run_handler.simps split: option.splits)
  obtain a2 where load: "load_head sample_lib sample_resume_db None \<lparr>app_quitting = False\<rparr> conv_init = Inr (sample_resumed, a2)"
    "\<not> app_quitting a2" by (rule sample_resumed_load)
  have start: "get_canonical_block_at_height sample_chain_db None = Some sample_start_block"
    "get_canonical_block_at_height sample_resume_db None = Some sample_stored"
    "start_mapped sample_lib sample_resume_db sample_stored"
    "cv_bm sample_conv = Some sample_mapping" "cv_bm sample_resumed = Some sample_mapping"
    "blk_number sample_start_block = 3" "blk_number sample_stored = 4"
    "hd_prev_randao (blk_header sample_start_block) = sample_id 10 0" "(3::u64) < 4" by code_simp+
  have "(case (?ch1, ?ch2) of
      (Some ch1, Some ch2) \<Rightarrow> natives_at sample_lib sample_mapping 4 (tl ch1) \<noteq> [] \<and>
        4 < ledger_height sample_lib sample_mapping 3 ch1 \<and> 5 < ledger_height sample_lib sample_mapping 4 ch2 \<and>
        path_to ch1 (hd_prev_randao (blk_header sample_stored)) @ tl ch2 =
          [hd (cv_native_blocks sample_conv), sample_n1, sample_n2', sample_n3]
    | _ \<Rightarrow> False)" by code_simp
  then obtain ch1 ch2 where ch: "?ch1 = Some ch1" "?ch2 = Some ch2" "natives_at sample_lib sample_mapping 4 (tl ch1) \<noteq> []"
    "4 < ledger_height sample_lib sample_mapping 3 ch1" "5 < ledger_height sample_lib sample_mapping 4 ch2"
    "path_to ch1 (hd_prev_randao (blk_header sample_stored)) @ tl ch2 =
      [hd (cv_native_blocks sample_conv), sample_n1, sample_n2', sample_n3]"
    by (auto simp del: run_spec.simps split: option.splits)
  from sessions_make_one_chain [OF sample_load_head _ start(1) sample_start_mapped sample_lib_ok start(4)
      sample_run_handled [OF run1(1)] ch(1) load start(2,3,5), unfolded start(6-8), OF _ run1(2,3) start(9) ch(4,3)
      run_handler_handled [OF run2] ch(2), unfolded Let_def ch(6)] ch(5)
  have "\<exists>q. latest (published es1 @ published es2) 5 = Some q \<and>
     ledger_contents sample_lib sample_mapping 3 (sample_id 10 0)
       [hd (cv_native_blocks sample_conv), sample_n1, sample_n2', sample_n3] q" by (auto dest!: spec [where x = 5])
  with run1(1) run2 show ?thesis by blast
qed

end
