(* ===== verification/Engine_Sentry.thy ===== *)
theory Engine_Sentry
  imports Engine
begin

text \<open>
  The sentry that \<open>src/src/engine_plugin.cpp\<close> gives to its back end. The node takes its blocks
  from the state history and not from peers, so the service answers every call at once with a
  default value, keeps nothing, and never calls a consumer or a callback.
\<close>

section \<open>The service\<close>

text \<open>The calls with their arguments; messages, keys and filters are types of the library.\<close>

datatype ('status, 'msg, 'key, 'filter) sentry_call =
    Set_status 'status
  | Handshake
  | Node_infos
  | Send_message_by_id 'msg 'key
  | Send_message_to_random_peers 'msg u64
  | Send_message_to_all 'msg
  | Send_message_by_min_block 'msg u64
  | Peer_min_block 'key
  | Messages 'filter
  | Peers
  | Peer_count
  | Peer_by_id 'key
  | Penalize_peer 'key
  | Peer_events

datatype ('infos, 'keys, 'peers, 'peer) sentry_reply =
    No_value
  | Protocol_version u8
  | Node_infos_reply 'infos
  | Peer_keys_reply 'keys
  | Peer_infos_reply 'peers
  | Peer_count_reply u64
  | Peer_reply "'peer option"

text \<open>The values of the library's types when they are value-initialised.\<close>

record ('infos, 'keys, 'peers) sentry_defaults =
  sd_node_infos :: 'infos
  sd_peer_keys :: 'keys
  sd_peer_infos :: 'peers

text \<open>The consumers that are passed to the two subscriptions are not called.\<close>

fun nopservice ::
  "('infos, 'keys, 'peers) sentry_defaults \<Rightarrow> ('status, 'msg, 'key, 'filter) sentry_call \<Rightarrow>
   ('infos, 'keys, 'peers, 'peer) sentry_reply" where
  "nopservice D (Set_status s) = No_value"
| "nopservice D Handshake = Protocol_version 0"
| "nopservice D Node_infos = Node_infos_reply (sd_node_infos D)"
| "nopservice D (Send_message_by_id m k) = Peer_keys_reply (sd_peer_keys D)"
| "nopservice D (Send_message_to_random_peers m n) = Peer_keys_reply (sd_peer_keys D)"
| "nopservice D (Send_message_to_all m) = Peer_keys_reply (sd_peer_keys D)"
| "nopservice D (Send_message_by_min_block m n) = Peer_keys_reply (sd_peer_keys D)"
| "nopservice D (Peer_min_block k) = No_value"
| "nopservice D (Messages f) = No_value"
| "nopservice D Peers = Peer_infos_reply (sd_peer_infos D)"
| "nopservice D Peer_count = Peer_count_reply 0"
| "nopservice D (Peer_by_id k) = Peer_reply None"
| "nopservice D (Penalize_peer k) = No_value"
| "nopservice D Peer_events = No_value"

section \<open>The client\<close>

text \<open>\<open>service()\<close> makes a new service each time; the client is never ready, and ignores the callback.\<close>

datatype sentry_client_call = Service | Is_ready | On_disconnect | Reconnect

datatype ('status, 'msg, 'key, 'filter, 'infos, 'keys, 'peers, 'peer) sentry_client_reply =
    Service_reply "('status, 'msg, 'key, 'filter) sentry_call \<Rightarrow> ('infos, 'keys, 'peers, 'peer) sentry_reply"
  | Ready bool
  | No_client_value

fun nopsentry ::
  "('infos, 'keys, 'peers) sentry_defaults \<Rightarrow> sentry_client_call \<Rightarrow>
   ('status, 'msg, 'key, 'filter, 'infos, 'keys, 'peers, 'peer) sentry_client_reply" where
  "nopsentry D Service = Service_reply (nopservice D)"
| "nopsentry D Is_ready = Ready False"
| "nopsentry D On_disconnect = No_client_value"
| "nopsentry D Reconnect = No_client_value"

text \<open>No call of the client makes it ready, and no call of its service returns a peer.\<close>

lemma nopsentry_has_no_peers:
  "nopsentry D c = Service_reply s \<Longrightarrow> s call = Peer_reply p \<Longrightarrow> p = None"
  "nopsentry D c = Service_reply s \<Longrightarrow> s call = Peer_count_reply n \<Longrightarrow> n = 0"
  "nopsentry D c \<noteq> Ready True"
  by (cases c; cases call; auto)+

end
