(* ===== verification/Ship_Blocks.thy ===== *)
theory Ship_Blocks
  imports Node_Utils Node_Channels
begin

text \<open>
  The part of \<open>src/src/ship_receiver_plugin.cpp\<close> that turns a result of the state history plugin
  into a native block: the selection, ordering and checking of the contract's actions. The
  structures of the protocol are reduced to the fields the code reads; their binary form is a
  parameter.
\<close>

section \<open>What the state history plugin sends\<close>

text \<open>An action trace; the receipt is an optional variant, read for its global sequence only.\<close>

record action_trace =
  at_action_ordinal :: u32
  at_creator_action_ordinal :: u32
  at_receiver :: u64
  at_account :: u64
  at_name :: u64
  at_data :: bytes
  at_receipt :: "u64 option"

text \<open>A transaction trace; \<open>tt_executed\<close> is the comparison of its status with \<open>executed\<close>.\<close>

record transaction_trace =
  tt_id :: bytes32
  tt_executed :: bool
  tt_cpu_usage_us :: u32
  tt_elapsed :: i64
  tt_action_traces :: "action_trace list"

record block_position =
  bp_block_num :: u32
  bp_block_id :: bytes32

record get_blocks_result =
  br_last_irreversible :: block_position
  br_this_block :: "block_position option"
  br_prev_block :: "block_position option"
  br_block :: "bytes option"
  br_traces :: "bytes option"

text \<open>
  The decoders: a length, a trace (\<open>None\<close> for an alternative of the variant other than version
  0) and a signed block, of which the code reads the time in microseconds. The first two
  return the rest of the stream.
\<close>

record ship_lib =
  sl_eosio_name :: namer
  sl_default_checksum :: bytes32
  sl_varuint32 :: "bytes \<Rightarrow> (u32 \<times> bytes) res"
  sl_trace :: "bytes \<Rightarrow> (transaction_trace option \<times> bytes) res"
  sl_signed_block_time :: "bytes \<Rightarrow> i64 res"

section \<open>Appending a transaction\<close>

abbreviation "cfg_n S \<equiv> configchange_n (sl_eosio_name S)"
abbreviation "push_n S \<equiv> pushtx_n (sl_eosio_name S)"
abbreviation "evm_n S \<equiv> evmtx_n (sl_eosio_name S)"

text \<open>\<open>std::map\<close>, as the list of its entries in the order of the keys; \<open>m[k] = v\<close>.\<close>

fun std_map_put :: "'k :: linorder \<Rightarrow> 'v \<Rightarrow> ('k \<times> 'v) list \<Rightarrow> ('k \<times> 'v) list" where
  "std_map_put k v [] = [(k, v)]"
| "std_map_put k v ((k', v') # m) =
     (if k < k' then (k, v) # (k', v') # m
      else if k = k' then (k, v) # m
      else (k', v') # std_map_put k v m)"

definition action_to_search :: "ship_lib \<Rightarrow> u64 \<Rightarrow> action_trace list \<Rightarrow> u64" where
  "action_to_search S core actions =
     (if list_ex (\<lambda>a. at_receiver a = core \<and> at_name a = evm_n S) actions then evm_n S else push_n S)"

definition wanted :: "ship_lib \<Rightarrow> u64 \<Rightarrow> u64 \<Rightarrow> action_trace \<Rightarrow> bool" where
  "wanted S core search act \<longleftrightarrow>
     (at_name act = search \<or> at_name act = cfg_n S) \<and> core = at_receiver act"

text \<open>The position of an action in the order: the sequence number of the action that caused it.\<close>

definition global_sequence_of ::
  "ship_lib \<Rightarrow> action_trace list \<Rightarrow> nat \<Rightarrow> action_trace \<Rightarrow> u64 res" where
  "global_sequence_of S actions j act =
     (case at_receipt act of
        None \<Rightarrow> Inl (Runtime_error ''action_trace does not have receipt'')
      | Some receipt \<Rightarrow>
          if at_name act = evm_n S
          then (if at_creator_action_ordinal act = 0
                then Inl (Runtime_error ''creator_action_ordinal can't be zero in evmtx'')
                else let parent_act_index = at_creator_action_ordinal act - 1 in
                     if j \<le> unat parent_act_index
                     then Inl (Runtime_error ''parent action index must be less than current action index'')
                     else (case at_receipt (actions ! unat parent_act_index) of
                             None \<Rightarrow> Inl (Runtime_error ''parent action does not have receipt'')
                           | Some parent_receipt \<Rightarrow> Inr parent_receipt))
          else if at_name act = cfg_n S then Inr 0
          else Inr receipt)"

text \<open>The loop that fills the ordered map; \<open>j\<close> is the index of the first remaining action.\<close>

fun order_actions ::
  "ship_lib \<Rightarrow> u64 \<Rightarrow> u64 \<Rightarrow> action_trace list \<Rightarrow> nat \<Rightarrow> action_trace list
     \<Rightarrow> (u64 \<times> action_trace) list \<Rightarrow> (u64 \<times> action_trace) list res" where
  "order_actions S core search actions j [] m = Inr m"
| "order_actions S core search actions j (act # acts) m =
     (if wanted S core search act
      then rbind (global_sequence_of S actions j act) (\<lambda>k.
             order_actions S core search actions (Suc j) acts (std_map_put k act m))
      else order_actions S core search actions (Suc j) acts m)"

definition native_action_of :: "action_trace \<Rightarrow> native_action" where
  "native_action_of act =
     \<lparr>na_ordinal = at_action_ordinal act, na_receiver = at_receiver act,
      na_account = at_account act, na_name = at_name act, na_data = at_data act\<rparr>"

text \<open>The body of the loop over the ordered map.\<close>

definition append_action ::
  "ship_lib \<Rightarrow> action_trace \<Rightarrow> native_block \<times> native_trx \<Rightarrow> (native_block \<times> native_trx) res" where
  "append_action S act = (\<lambda>(block, native_trx).
     let action = native_action_of act in
     if na_name action = cfg_n S
     then (if nb_new_config block \<noteq> None
           then Inl (Runtime_error ''multiple configchange in one block'')
           else if nt_actions native_trx \<noteq> [] \<or> nb_transactions block \<noteq> []
           then Inl (Runtime_error ''configchange can only be the first action'')
           else Inr (block\<lparr>nb_new_config := Some action\<rparr>, native_trx))
     else (if nb_new_config block \<noteq> None \<and> na_name action = push_n S
           then Inl (Runtime_error ''pushtx and configchange found on the same transaction'')
           else if nt_actions native_trx \<noteq> [] \<and> na_name (last (nt_actions native_trx)) \<noteq> na_name action
           then Inl (Runtime_error ''pushtx and evmtx found on the same transaction'')
           else Inr (block, native_trx\<lparr>nt_actions := nt_actions native_trx @ [action]\<rparr>)))"

text \<open>
  The check before the transaction is added: it reads the last action of the last transaction, and
  of the new one, which need not have any.
\<close>

definition same_kind :: "native_block \<Rightarrow> native_trx \<Rightarrow> unit res" where
  "same_kind block native_trx =
     (if nb_transactions block = [] then Inr ()
      else rbind (back_of ''block.transactions.back().actions.back()''
                    (nt_actions (last (nb_transactions block)))) (\<lambda>a.
           rbind (back_of ''native_trx.actions.back()'' (nt_actions native_trx)) (\<lambda>b.
             rguard (na_name a = na_name b) (Runtime_error ''pushtx and evmtx found on the same block''))))"

definition append_to_block ::
  "ship_lib \<Rightarrow> u64 \<Rightarrow> native_block \<Rightarrow> transaction_trace \<Rightarrow> native_block res" where
  "append_to_block S core block trace =
     (let actions = tt_action_traces trace;
          search = action_to_search S core actions in
      rbind (order_actions S core search actions 0 actions []) (\<lambda>ordered.
        if ordered = [] then Inr block
        else rbind (rfold (\<lambda>pair. append_action S (snd pair)) ordered
                      (block, new_native_trx (tt_id trace) (tt_cpu_usage_us trace) (tt_elapsed trace)))
               (\<lambda>(block, native_trx).
                  rbind (same_kind block native_trx) (\<lambda>_.
                    Inr (block\<lparr>nb_transactions := nb_transactions block @ [native_trx]\<rparr>)))))"

section \<open>Building a native block\<close>

definition start_native_block :: "ship_lib \<Rightarrow> get_blocks_result \<Rightarrow> native_block res" where
  "start_native_block S res =
     rbind (deref ''*res.block'' (br_block res)) (\<lambda>bin.
     rbind (sl_signed_block_time S bin) (\<lambda>timestamp.
     rbind (deref ''res.this_block->'' (br_this_block res)) (\<lambda>this_block.
     rbind (deref ''res.prev_block->'' (br_prev_block res)) (\<lambda>prev_block.
       Inr ((default_native_block (sl_default_checksum S))
              \<lparr>nb_block_num := bp_block_num this_block, nb_id := bp_block_id this_block,
               nb_prev := bp_block_id prev_block, nb_timestamp := timestamp\<rparr>)))))"

text \<open>The loop over the traces, which reads them one by one from the stream.\<close>

fun append_traces :: "ship_lib \<Rightarrow> u64 \<Rightarrow> nat \<Rightarrow> bytes \<Rightarrow> native_block \<Rightarrow> native_block res" where
  "append_traces S core 0 bin block = Inr block"
| "append_traces S core (Suc n) bin block =
     rbind (sl_trace S bin) (\<lambda>(tt, bin').
       case tt of
         None \<Rightarrow> Inl Bad_variant_access
       | Some trace \<Rightarrow>
           if \<not> tt_executed trace then append_traces S core n bin' block
           else rbind (append_to_block S core block trace) (append_traces S core n bin'))"

definition to_native :: "ship_lib \<Rightarrow> u64 \<Rightarrow> get_blocks_result \<Rightarrow> native_block option res" where
  "to_native S core block =
     (case br_this_block block of
        None \<Rightarrow> Inr None
      | Some _ \<Rightarrow>
          rbind (start_native_block S block) (\<lambda>current_block.
          rbind (case br_traces block of
                   None \<Rightarrow> Inr current_block
                 | Some traces \<Rightarrow>
                     rbind (sl_varuint32 S traces) (\<lambda>(num, bin).
                       append_traces S core (unat num) bin current_block)) (\<lambda>current_block.
            Inr (Some (current_block\<lparr>nb_lib := bp_block_num (br_last_irreversible block)\<rparr>)))))"

end
