(* ===== verification/Ship_Order.thy ===== *)
theory Ship_Order
  imports Ship_Blocks
begin

text \<open>
  The order of the contract's actions in a transaction, and what a native block made from the
  state history holds.
\<close>

section \<open>The ordered map\<close>

lemma std_map_put_keys: "set (map fst (std_map_put k v m)) = insert k (set (map fst m))"
  by (induction m rule: std_map_put.induct) auto

lemma std_map_put_sorted:
  "sorted_wrt (<) (map fst m) \<Longrightarrow> sorted_wrt (<) (map fst (std_map_put k v m))"
proof (induction k v m rule: std_map_put.induct)
  case (2 k v k' v' m)
  then show ?case using std_map_put_keys [of k v m] by (auto simp: image_iff)
qed simp

lemma std_map_put_map_of:
  "sorted_wrt (<) (map fst m) \<Longrightarrow> map_of (std_map_put k v m) = (map_of m)(k \<mapsto> v)"
proof (induction k v m rule: std_map_put.induct)
  case (2 k v k' v' m)
  then show ?case by (auto simp: fun_eq_iff)
qed simp

lemma std_map_put_values: "snd ` set (std_map_put k v m) \<subseteq> insert v (snd ` set m)"
  by (induction k v m rule: std_map_put.induct) auto

text \<open>All puts of a list of entries, one after the other.\<close>

definition std_map_puts :: "('k :: linorder \<times> 'v) list \<Rightarrow> ('k \<times> 'v) list \<Rightarrow> ('k \<times> 'v) list" where
  "std_map_puts ks m = fold (\<lambda>(k, v). std_map_put k v) ks m"

lemma std_map_puts_simps [simp]:
  "std_map_puts [] m = m" "std_map_puts ((k, v) # ks) m = std_map_puts ks (std_map_put k v m)"
  by (simp_all add: std_map_puts_def)

lemma std_map_puts_sorted: "sorted_wrt (<) (map fst m) \<Longrightarrow> sorted_wrt (<) (map fst (std_map_puts ks m))"
  by (induction ks arbitrary: m) (auto simp: std_map_put_sorted)

lemma std_map_puts_map_of:
  "sorted_wrt (<) (map fst m) \<Longrightarrow> map_of (std_map_puts ks m) = map_of m ++ map_of (rev ks)"
  by (induction ks arbitrary: m) (auto simp: std_map_put_sorted std_map_put_map_of)

lemma std_map_puts_values: "snd ` set (std_map_puts ks m) \<subseteq> snd ` set ks \<union> snd ` set m"
proof (induction ks arbitrary: m)
  case (Cons x ks)
  obtain k v where x: "x = (k, v)" by (cases x)
  show ?case using Cons.IH [of "std_map_put k v m"] std_map_put_values [of k v m] by (auto simp: x)
qed simp

lemma std_map_puts_empty: "std_map_puts ks m = [] \<longleftrightarrow> ks = [] \<and> m = []"
proof (induction ks arbitrary: m)
  case (Cons x ks)
  obtain k v where x: "x = (k, v)" by (cases x)
  have "std_map_put k v m \<noteq> []" by (cases "(k, v, m)" rule: std_map_put.cases) auto
  with Cons show ?case by (simp add: x)
qed simp

text \<open>With different keys, the entries come out sorted by key, and none is lost.\<close>

lemma std_map_puts_sort:
  assumes "distinct (map fst ks)"
  shows "std_map_puts ks [] = sort_key fst ks"
proof -
  let ?m = "std_map_puts ks []"
  have m: "sorted_wrt (<) (map fst ?m)" by (rule std_map_puts_sorted) simp
  then have d: "sorted (map fst ?m)" "distinct (map fst ?m)" by (simp_all add: strict_sorted_iff)
  have "map_of ?m = map_of (rev ks)" using std_map_puts_map_of [of "[]" ks] by simp
  then have "set ?m = set ks"
    using d(2) assms map_of_inject_set [of ?m "rev ks"] by (simp flip: rev_map)
  moreover have "inj_on fst (set ks)" using assms by (simp add: distinct_map)
  ultimately show ?thesis
    using d assms by (intro map_sorted_distinct_set_unique [of fst]) (simp_all add: distinct_map)
qed

text \<open>Whatever the keys: there is one entry for each, in increasing order, with the value that came last.\<close>

definition last_values :: "('k :: linorder \<times> 'v) list \<Rightarrow> 'v list" where
  "last_values ks = map (\<lambda>k. the (map_of (rev ks) k)) (sorted_list_of_set (fst ` set ks))"

lemma std_map_puts_last: "map snd (std_map_puts ks []) = last_values ks"
proof -
  let ?m = "std_map_puts ks []"
  have m: "sorted_wrt (<) (map fst ?m)" by (rule std_map_puts_sorted) simp
  then have d: "sorted (map fst ?m)" "distinct (map fst ?m)" by (simp_all add: strict_sorted_iff)
  have of: "map_of ?m = map_of (rev ks)" using std_map_puts_map_of [of "[]" ks] by simp
  have "fst ` set ?m = fst ` set ks" using arg_cong [OF of, of dom] by (simp add: dom_map_of_conv_image_fst)
  then have "sorted_list_of_set (fst ` set ks) = map fst ?m"
    using sorted_list_of_set.idem_if_sorted_distinct [OF d] by simp
  moreover have "the (map_of (rev ks) (fst x)) = snd x" if "x \<in> set ?m" for x
    using map_of_is_SomeI [OF d(2), of "fst x" "snd x"] that of by simp
  ultimately show ?thesis by (simp add: last_values_def)
qed

lemma last_values_distinct: "distinct (map fst ks) \<Longrightarrow> last_values ks = map snd (sort_key fst ks)"
  using std_map_puts_last [of ks] by (simp add: std_map_puts_sort)

section \<open>Keys\<close>

text \<open>The wanted actions with their keys, in the order they are executed.\<close>

fun keyed ::
  "ship_lib \<Rightarrow> u64 \<Rightarrow> u64 \<Rightarrow> action_trace list \<Rightarrow> nat \<Rightarrow> action_trace list \<Rightarrow> (u64 \<times> action_trace) list res" where
  "keyed S core search actions j [] = Inr []"
| "keyed S core search actions j (act # acts) =
     (if wanted S core search act
      then rbind (global_sequence_of S actions j act) (\<lambda>k.
           rbind (keyed S core search actions (Suc j) acts) (\<lambda>ks. Inr ((k, act) # ks)))
      else keyed S core search actions (Suc j) acts)"

lemma order_actions_keyed:
  "order_actions S core search actions j acts m =
     rbind (keyed S core search actions j acts) (\<lambda>ks. Inr (std_map_puts ks m))"
proof (induction acts arbitrary: j m)
  case (Cons act acts)
  then have "order_actions S core search actions (Suc j) acts =
      (\<lambda>m. rbind (keyed S core search actions (Suc j) acts) (\<lambda>ks. Inr (std_map_puts ks m)))" by auto
  then show ?case by (simp add: rbind_assoc)
qed simp

lemma keyed_wanted:
  "keyed S core search actions j acts = Inr ks \<Longrightarrow> map snd ks = filter (wanted S core search) acts"
  by (induction acts arbitrary: j ks) (auto simp: res_simps)

text \<open>
  The number that an action is ordered by: for an event transaction that of the action that created
  it, which is an earlier one of the transaction; 0 for a configuration change; its own otherwise.
\<close>

definition caused_at :: "ship_lib \<Rightarrow> action_trace list \<Rightarrow> action_trace \<Rightarrow> u64 \<Rightarrow> bool" where
  "caused_at S actions act k \<longleftrightarrow>
     (if at_name act = evm_n S
      then \<exists>p < length actions. at_creator_action_ordinal act \<noteq> 0 \<and> p = unat (at_creator_action_ordinal act - 1) \<and>
        at_receipt (actions ! p) = Some k
      else if at_name act = cfg_n S then k = 0
      else at_receipt act = Some k)"

lemma global_sequence_caused:
  "global_sequence_of S actions j act = Inr k \<Longrightarrow> j < length actions \<Longrightarrow> caused_at S actions act k"
  by (auto simp: global_sequence_of_def caused_at_def Let_def split: option.splits if_splits)

lemma keyed_caused:
  assumes "keyed S core search actions j acts = Inr ks" "acts = drop j actions"
  shows "\<forall>(k, a) \<in> set ks. caused_at S actions a k"
  using assms
proof (induction acts arbitrary: j ks)
  case (Cons act acts)
  have "j < length actions" using Cons.prems(2) by (metis drop_eq_Nil list.distinct(1) not_less)
  moreover have "acts = drop (Suc j) actions" using Cons.prems(2) by (metis drop_Suc list.sel(3) tl_drop)
  ultimately show ?case using Cons.prems(1) Cons.IH [of "Suc j"] global_sequence_caused [of S actions j act]
    by (auto simp: res_simps split: if_splits)
qed simp

lemma order_actions_wanted:
  assumes "order_actions S core search actions j acts [] = Inr m"
  shows "\<forall>(k, a) \<in> set m. wanted S core search a" "m = [] \<longleftrightarrow> filter (wanted S core search) acts = []"
proof -
  from assms obtain ks where ks: "keyed S core search actions j acts = Inr ks" "m = std_map_puts ks []"
    by (auto simp: order_actions_keyed res_simps)
  note w = keyed_wanted [OF ks(1)]
  have "snd ` set m \<subseteq> set (map snd ks)" using std_map_puts_values [of ks "[]"] ks(2) by simp
  then have "snd ` set m \<subseteq> {a. wanted S core search a}" unfolding w by auto
  then show "\<forall>(k, a) \<in> set m. wanted S core search a" by auto
  show "m = [] \<longleftrightarrow> filter (wanted S core search) acts = []"
    using w ks(2) std_map_puts_empty [of ks "[]"] by (metis map_is_Nil_conv)
qed

end
