(* ===== verification/Ship_Theorems.thy ===== *)
theory Ship_Theorems
  imports Ship_Order Node_Handlers
begin

text \<open>
  The properties of the native blocks that the receiver builds: the order and kind of their
  actions, the errors, and the two cases in which a configuration change is mishandled.
\<close>

section \<open>What appending a transaction does\<close>

definition selected :: "ship_lib \<Rightarrow> u64 \<Rightarrow> transaction_trace \<Rightarrow> action_trace list" where
  "selected S core trace =
     (let actions = tt_action_traces trace in
      filter (wanted S core (action_to_search S core actions)) actions)"

definition trace_keys :: "ship_lib \<Rightarrow> u64 \<Rightarrow> transaction_trace \<Rightarrow> (u64 \<times> action_trace) list res" where
  "trace_keys S core trace =
     (let actions = tt_action_traces trace in
      keyed S core (action_to_search S core actions) actions 0 actions)"

lemma native_action_of_simps [simp]:
  "na_name (native_action_of a) = at_name a" "na_receiver (native_action_of a) = at_receiver a"
  by (simp_all add: native_action_of_def)

lemma append_action_Inr:
  assumes "append_action S act (b, t) = Inr (b', t')"
  shows "b' = b\<lparr>nb_new_config := nb_new_config b'\<rparr> \<and>
    t' = t\<lparr>nt_actions := nt_actions t @ (if at_name act = cfg_n S then [] else [native_action_of act])\<rparr> \<and>
    (if at_name act = cfg_n S
     then nb_new_config b = None \<and> nb_new_config b' = Some (native_action_of act) \<and>
       nt_actions t = [] \<and> nb_transactions b = []
     else nb_new_config b' = nb_new_config b \<and> (nb_new_config b \<noteq> None \<longrightarrow> at_name act \<noteq> push_n S))"
  using assms by (auto simp: append_action_def Let_def split: if_splits)

definition kept :: "ship_lib \<Rightarrow> action_trace list \<Rightarrow> native_action list" where
  "kept S acts = map native_action_of (filter (\<lambda>a. at_name a \<noteq> cfg_n S) acts)"

lemma append_actions_Inr:
  assumes "rfold (\<lambda>pair. append_action S (snd pair)) m (b, t) = Inr (b', t')"
  shows "(\<exists>c. b' = b\<lparr>nb_new_config := c\<rparr>) \<and>
    t' = t\<lparr>nt_actions := nt_actions t @ kept S (map snd m)\<rparr> \<and>
    (nb_new_config b' = nb_new_config b \<or> nb_transactions b = [] \<and>
       (\<exists>a \<in> snd ` set m. at_name a = cfg_n S \<and> nb_new_config b' = Some (native_action_of a))) \<and>
    (nb_new_config b' \<noteq> None \<longrightarrow> nt_actions t = [] \<or> nb_new_config b \<noteq> None) \<and>
    (nb_new_config b \<noteq> None \<longrightarrow> (\<forall>a \<in> snd ` set m. at_name a \<noteq> push_n S)) \<and>
    (nb_new_config b' \<noteq> None \<and> names_distinct (sl_eosio_name S) \<longrightarrow>
       (\<forall>a \<in> set (kept S (map snd m)). na_name a \<noteq> push_n S))"
  using assms
proof (induction m arbitrary: b t)
  case Nil
  then show ?case by (auto simp: kept_def intro: exI [of _ "nb_new_config b'"])
next
  case (Cons x m)
  obtain k a where x: "x = (k, a)" by (cases x)
  from Cons.prems obtain b1 t1 where s: "append_action S a (b, t) = Inr (b1, t1)"
    "rfold (\<lambda>pair. append_action S (snd pair)) m (b1, t1) = Inr (b', t')"
    by (auto simp: x res_simps)
  note a = append_action_Inr [OF s(1)] and IH = Cons.IH [OF s(2)]
  from a obtain c where b1: "b1 = b\<lparr>nb_new_config := c\<rparr>" by metis
  with IH have "\<exists>c. b' = b\<lparr>nb_new_config := c\<rparr>" by auto
  with a IH b1 show ?case
    by (cases "at_name a = cfg_n S") (auto simp: kept_def x dest: names_distinctD)
qed

lemma append_actions_config:
  assumes "rfold (\<lambda>pair. append_action S (snd pair)) m (b, t) = Inr (b', t')"
  shows "(nb_new_config b \<noteq> None \<longrightarrow> nb_new_config b' = nb_new_config b) \<and>
    ((\<exists>a \<in> snd ` set m. at_name a = cfg_n S) \<longrightarrow> nb_new_config b' \<noteq> None)"
  using assms
proof (induction m arbitrary: b t)
  case (Cons x m)
  from Cons.prems obtain b1 t1 where s: "append_action S (snd x) (b, t) = Inr (b1, t1)"
    "rfold (\<lambda>pair. append_action S (snd pair)) m (b1, t1) = Inr (b', t')"
    by (auto simp: res_simps)
  note a = append_action_Inr [OF s(1)] and IH = Cons.IH [OF s(2)]
  show ?case
  proof (cases "at_name (snd x) = cfg_n S")
    case True
    then have "nb_new_config b = None" "nb_new_config b1 \<noteq> None" using a by simp_all
    with IH show ?thesis by simp
  next
    case False
    then have "nb_new_config b1 = nb_new_config b" using a by simp
    with IH False show ?thesis by auto
  qed
qed simp

lemma append_to_block_Inr:
  assumes "append_to_block S core block trace = Inr block'"
  obtains (unchanged) "trace_keys S core trace = Inr []" "block' = block"
  | (appended) ks b1 trx where "trace_keys S core trace = Inr ks" "ks \<noteq> []"
      "rfold (\<lambda>pair. append_action S (snd pair)) (std_map_puts ks [])
         (block, new_native_trx (tt_id trace) (tt_cpu_usage_us trace) (tt_elapsed trace)) = Inr (b1, trx)"
      "same_kind b1 trx = Inr ()" "block' = b1\<lparr>nb_transactions := nb_transactions b1 @ [trx]\<rparr>"
proof -
  from assms obtain ks where ks: "trace_keys S core trace = Inr ks"
    by (auto simp: append_to_block_def trace_keys_def order_actions_keyed Let_def res_simps)
  show thesis
  proof (cases "ks = []")
    case True
    with assms ks unchanged show thesis
      by (simp add: append_to_block_def trace_keys_def order_actions_keyed Let_def)
  next
    case False
    then have "std_map_puts ks [] \<noteq> []" by (simp add: std_map_puts_empty)
    with assms ks obtain b1 trx where
      "rfold (\<lambda>pair. append_action S (snd pair)) (std_map_puts ks [])
         (block, new_native_trx (tt_id trace) (tt_cpu_usage_us trace) (tt_elapsed trace)) = Inr (b1, trx)"
      "same_kind b1 trx = Inr ()" "block' = b1\<lparr>nb_transactions := nb_transactions b1 @ [trx]\<rparr>"
      by (auto simp: append_to_block_def trace_keys_def order_actions_keyed Let_def res_simps)
    with ks False show thesis by (rule appended)
  qed
qed

text \<open>Where the configuration of the block comes from.\<close>

lemma append_actions_from:
  assumes "rfold (\<lambda>pair. append_action S (snd pair)) m (b, t) = Inr (b', t')"
  shows "\<forall>a \<in> snd ` set m. at_name a = cfg_n S \<longrightarrow> nb_new_config b' = Some (native_action_of a)"
    "(\<forall>a \<in> snd ` set m. at_name a \<noteq> cfg_n S) \<longrightarrow> nb_new_config b' = nb_new_config b"
proof -
  have "(\<forall>a \<in> snd ` set m. at_name a = cfg_n S \<longrightarrow> nb_new_config b' = Some (native_action_of a)) \<and>
    ((\<forall>a \<in> snd ` set m. at_name a \<noteq> cfg_n S) \<longrightarrow> nb_new_config b' = nb_new_config b)"
    using assms
  proof (induction m arbitrary: b t)
    case (Cons x m)
    from Cons.prems obtain b1 t1 where s: "append_action S (snd x) (b, t) = Inr (b1, t1)"
      "rfold (\<lambda>pair. append_action S (snd pair)) m (b1, t1) = Inr (b', t')" by (auto simp: res_simps)
    from append_action_Inr [OF s(1)] append_actions_config [OF s(2)] Cons.IH [OF s(2)]
    show ?case by (auto split: if_splits)
  qed simp
  then show "\<forall>a \<in> snd ` set m. at_name a = cfg_n S \<longrightarrow> nb_new_config b' = Some (native_action_of a)"
    "(\<forall>a \<in> snd ` set m. at_name a \<noteq> cfg_n S) \<longrightarrow> nb_new_config b' = nb_new_config b" by blast+
qed

text \<open>
  C18: What a transaction adds to the block. Its selected actions are kept in a map, whose key is the
  global sequence of the action that caused each of them (\<open>caused_at\<close>; 0 for a configuration change): they come
  in the order of the keys, and of those with the same key only the last one selected is there.
  Of these, the configuration change becomes the one of the block, and the others the actions
  of one native transaction; when the keys are different, none of the selected actions is
  lost. A transaction without selected actions leaves the block alone.
\<close>

theorem actions_in_causal_order:
  assumes "append_to_block S core block trace = Inr block'"
  shows "\<exists>ks. trace_keys S core trace = Inr ks \<and> map snd ks = selected S core trace \<and>
    (\<forall>(k, a) \<in> set ks. caused_at S (tt_action_traces trace) a k) \<and>
    (if ks = [] then block' = block
     else \<exists>c trx. block' = block\<lparr>nb_new_config := c, nb_transactions := nb_transactions block @ [trx]\<rparr> \<and>
       nt_id trx = tt_id trace \<and> nt_actions trx = kept S (last_values ks) \<and>
       (\<forall>a \<in> set (last_values ks). at_name a = cfg_n S \<longrightarrow> c = Some (native_action_of a)) \<and>
       ((\<forall>a \<in> set (last_values ks). at_name a \<noteq> cfg_n S) \<longrightarrow> c = nb_new_config block)) \<and>
    (distinct (map fst ks) \<longrightarrow> last_values ks = map snd (sort_key fst ks))"
proof -
  have sel: "map snd ks = selected S core trace" if "trace_keys S core trace = Inr ks" for ks
    using that keyed_wanted by (fastforce simp: trace_keys_def selected_def Let_def)
  have caused: "\<forall>(k, a) \<in> set ks. caused_at S (tt_action_traces trace) a k" if "trace_keys S core trace = Inr ks" for ks
    using that unfolding trace_keys_def Let_def by (rule keyed_caused) simp
  from assms show ?thesis
  proof (cases rule: append_to_block_Inr)
    case unchanged
    with sel show ?thesis by (intro exI [of _ "[]"]) (simp add: last_values_def)
  next
    case (appended ks b1 trx)
    note a = append_actions_Inr [OF appended(3)]
    have set: "snd ` set (std_map_puts ks []) = set (last_values ks)"
      using arg_cong [OF std_map_puts_last [of ks], of set] by simp
    note from_map = append_actions_from [OF appended(3), unfolded set]
    from a obtain c where b1: "b1 = block\<lparr>nb_new_config := c\<rparr>" by blast
    have "trx = (new_native_trx (tt_id trace) (tt_cpu_usage_us trace) (tt_elapsed trace))
        \<lparr>nt_actions := [] @ kept S (last_values ks)\<rparr>"
      using a by (simp add: std_map_puts_last new_native_trx_def)
    then have "nt_id trx = tt_id trace \<and> nt_actions trx = kept S (last_values ks)"
      by (simp add: new_native_trx_def)
    moreover have "block' = block\<lparr>nb_new_config := c, nb_transactions := nb_transactions block @ [trx]\<rparr>"
      using appended(5) b1 by simp
    moreover have "(\<forall>a \<in> set (last_values ks). at_name a = cfg_n S \<longrightarrow> c = Some (native_action_of a)) \<and>
        ((\<forall>a \<in> set (last_values ks). at_name a \<noteq> cfg_n S) \<longrightarrow> c = nb_new_config block)"
      using from_map b1 by simp
    ultimately have "\<exists>c trx. block' = block\<lparr>nb_new_config := c, nb_transactions := nb_transactions block @ [trx]\<rparr> \<and>
       nt_id trx = tt_id trace \<and> nt_actions trx = kept S (last_values ks) \<and>
       (\<forall>a \<in> set (last_values ks). at_name a = cfg_n S \<longrightarrow> c = Some (native_action_of a)) \<and>
       ((\<forall>a \<in> set (last_values ks). at_name a \<noteq> cfg_n S) \<longrightarrow> c = nb_new_config block)" by blast
    with appended(1,2) sel [OF appended(1)] caused [OF appended(1)] last_values_distinct [of ks] show ?thesis
      by (intro exI [of _ ks]) simp
  qed
qed

text \<open>Two transactions pushed in the wrong order, in a sample trace.\<close>

definition sample_ship :: ship_lib where
  "sample_ship =
     \<lparr>sl_eosio_name = (\<lambda>s. if s = ''configchange'' then 1 else if s = ''pushtx'' then 2
        else if s = ''evmtx'' then 3 else 0),
      sl_default_checksum = replicate 32 0,
      sl_varuint32 = (\<lambda>bs. case bs of [] \<Rightarrow> Inl (External_exception ''stream error'') | b # r \<Rightarrow> Inr (ucast b, r)),
      sl_trace = (\<lambda>bs. case bs of
          i # ok # nm # seq # r \<Rightarrow> Inr (Some \<lparr>tt_id = [i], tt_executed = (ok = 0), tt_cpu_usage_us = 1, tt_elapsed = 1,
            tt_action_traces = [\<lparr>at_action_ordinal = 1, at_creator_action_ordinal = 0, at_receiver = 9, at_account = 9,
              at_name = ucast nm, at_data = [i], at_receipt = Some (ucast seq)\<rparr>]\<rparr>, r)
        | _ \<Rightarrow> Inl (External_exception ''stream error'')),
      sl_signed_block_time = (\<lambda>bs. case bs of [] \<Rightarrow> Inl (External_exception ''stream error'') | b # r \<Rightarrow> Inr (ucast b * 1000000))\<rparr>"

lemma sample_ship_names [simp]: "names_distinct (sl_eosio_name sample_ship)"
  by (simp add: names_distinct_def sample_ship_def)

definition sample_trace_action :: "u64 \<Rightarrow> u32 \<Rightarrow> u64 \<Rightarrow> bytes \<Rightarrow> action_trace" where
  "sample_trace_action n creator seq data =
     \<lparr>at_action_ordinal = 1, at_creator_action_ordinal = creator, at_receiver = 9, at_account = 9,
      at_name = n, at_data = data, at_receipt = Some seq\<rparr>"

definition sample_trace :: "action_trace list \<Rightarrow> transaction_trace" where
  "sample_trace acts = \<lparr>tt_id = [7], tt_executed = True, tt_cpu_usage_us = 1, tt_elapsed = 1, tt_action_traces = acts\<rparr>"

definition sample_ship_block :: native_block where
  "sample_ship_block = default_native_block (replicate 32 0)"

text \<open>The nested call runs later but was caused earlier.\<close>

definition sample_nested :: transaction_trace where
  "sample_nested = sample_trace
     [sample_trace_action 2 0 50 [], sample_trace_action 2 0 60 [], sample_trace_action 3 2 70 [1],
      sample_trace_action 3 1 80 [2]]"

theorem actions_in_causal_order_witness:
  "\<exists>block' trx. append_to_block sample_ship 9 sample_ship_block sample_nested = Inr block' \<and>
     nb_transactions block' = [trx] \<and> map na_data (nt_actions trx) = [[2], [1]]"
proof -
  let ?ks = "[(60 :: u64, sample_trace_action 3 2 70 [1]), (50, sample_trace_action 3 1 80 [2])]"
  have ok: "(case append_to_block sample_ship 9 sample_ship_block sample_nested of Inr _ \<Rightarrow> True | _ \<Rightarrow> False)"
    and ks: "trace_keys sample_ship 9 sample_nested = Inr ?ks" by code_simp+
  from ok obtain block' where b: "append_to_block sample_ship 9 sample_ship_block sample_nested = Inr block'"
    by (auto split: sum.splits)
  have vals: "map na_data (kept sample_ship (map snd (sort_key fst ?ks))) = [[2], [1]]"
    by (simp add: sample_trace_action_def kept_def native_action_of_def configchange_n_def sample_ship_def)
  have empty: "nb_transactions sample_ship_block = []" by code_simp
  from actions_in_causal_order [OF b] obtain ks where k: "trace_keys sample_ship 9 sample_nested = Inr ks"
    and "ks \<noteq> [] \<longrightarrow> (\<exists>c trx. block' = sample_ship_block\<lparr>nb_new_config := c,
        nb_transactions := nb_transactions sample_ship_block @ [trx]\<rparr> \<and> nt_actions trx = kept sample_ship (last_values ks))"
    by (metis (no_types, lifting))
  moreover have "ks = ?ks" using k ks by simp
  ultimately obtain c trx where
    *: "block' = sample_ship_block\<lparr>nb_new_config := c, nb_transactions := nb_transactions sample_ship_block @ [trx]\<rparr>"
    "nt_actions trx = kept sample_ship (last_values ?ks)" by blast
  have "last_values ?ks = map snd (sort_key fst ?ks)" by (rule last_values_distinct) simp
  note vals = vals [folded this]
  have "nb_transactions block' = [trx]" using *(1) empty by simp
  moreover have "map na_data (nt_actions trx) = [[2], [1]]" unfolding *(2) by (rule vals)
  ultimately show ?thesis using b by (intro exI [of _ block'] exI [of _ trx] conjI)
qed

section \<open>Kinds of actions\<close>

text \<open>
  What holds of every native block under construction: the actions of the contract all have the
  same name, that of the plain or of the event transaction, the latter when the block changes the
  configuration; and only the first transaction can be without actions.
\<close>

definition kind_ok :: "ship_lib \<Rightarrow> u64 \<Rightarrow> native_block \<Rightarrow> bool" where
  "kind_ok S core b \<longleftrightarrow>
     (\<exists>n \<in> {push_n S, evm_n S}.
        (\<forall>t \<in> set (nb_transactions b). \<forall>a \<in> set (nt_actions t). na_name a = n \<and> na_receiver a = core) \<and>
        (nb_new_config b \<noteq> None \<longrightarrow> n = evm_n S)) \<and>
     (\<forall>c. nb_new_config b = Some c \<longrightarrow> na_name c = cfg_n S \<and> na_receiver c = core) \<and>
     (\<forall>t \<in> set (nb_transactions b). nt_actions t = [] \<longrightarrow> nb_new_config b \<noteq> None \<and> nb_transactions b = [t])"

lemma action_to_search_cases: "action_to_search S core acts \<in> {push_n S, evm_n S}"
  by (simp add: action_to_search_def)

lemma same_kind_Inr:
  "same_kind b t = Inr () \<longleftrightarrow> nb_transactions b = [] \<or>
     nt_actions (last (nb_transactions b)) \<noteq> [] \<and> nt_actions t \<noteq> [] \<and>
     na_name (last (nt_actions (last (nb_transactions b)))) = na_name (last (nt_actions t))"
  by (auto simp: same_kind_def res_simps)

text \<open>The transaction that is appended: its actions are of the kind searched for, and what a configuration brings.\<close>

lemma appended_transaction:
  assumes S: "names_distinct (sl_eosio_name S)" and keys: "trace_keys S core trace = Inr ks" "ks \<noteq> []"
    and fold: "rfold (\<lambda>pair. append_action S (snd pair)) (std_map_puts ks [])
      (block, new_native_trx (tt_id trace) (tt_cpu_usage_us trace) (tt_elapsed trace)) = Inr (b1, trx)"
  defines "search \<equiv> action_to_search S core (tt_action_traces trace)"
  obtains c where "b1 = block\<lparr>nb_new_config := c\<rparr>" "\<forall>x \<in> set (nt_actions trx). na_name x = search \<and> na_receiver x = core"
    "\<forall>x. c = Some x \<longrightarrow> nb_new_config block = Some x \<or> na_name x = cfg_n S \<and> na_receiver x = core"
    "c \<noteq> None \<longrightarrow> nt_actions trx \<noteq> [] \<longrightarrow> search = evm_n S" "nt_actions trx = [] \<longrightarrow> c \<noteq> None"
proof -
  let ?m = "std_map_puts ks []"
  note a = append_actions_Inr [OF fold]
  have "order_actions S core search (tt_action_traces trace) 0 (tt_action_traces trace) [] = Inr ?m"
    using keys(1) by (simp add: order_actions_keyed trace_keys_def search_def Let_def)
  from order_actions_wanted(1) [OF this]
  have wanted: "\<forall>x \<in> set (map snd ?m). (at_name x = search \<or> at_name x = cfg_n S) \<and> at_receiver x = core"
    by (auto simp: wanted_def)
  from a obtain c where b1: "b1 = block\<lparr>nb_new_config := c\<rparr>" by blast
  have trx: "nt_actions trx = kept S (map snd ?m)" using a by (simp add: new_native_trx_def)
  have names: "\<forall>x \<in> set (nt_actions trx). na_name x = search \<and> na_receiver x = core"
    using wanted unfolding trx by (auto simp: kept_def)
  have conf: "\<forall>x. c = Some x \<longrightarrow> nb_new_config block = Some x \<or> na_name x = cfg_n S \<and> na_receiver x = core"
  proof -
    have "nb_new_config b1 = nb_new_config block \<or>
        (\<exists>y \<in> snd ` set ?m. at_name y = cfg_n S \<and> nb_new_config b1 = Some (native_action_of y))"
      using a by blast
    with wanted show ?thesis unfolding b1 by auto
  qed
  have evm: "search = evm_n S" if "c \<noteq> None" "nt_actions trx \<noteq> []"
  proof -
    have "\<forall>x \<in> set (nt_actions trx). na_name x \<noteq> push_n S" using a that(1) S unfolding trx b1 by simp
    with names that(2) have "search \<noteq> push_n S" by (metis last_in_set)
    with action_to_search_cases [of S core "tt_action_traces trace"] show ?thesis by (simp add: search_def)
  qed
  have "c \<noteq> None" if none: "nt_actions trx = []"
  proof -
    have "?m \<noteq> []" using keys(2) by (simp add: std_map_puts_empty)
    then obtain x where x: "x \<in> snd ` set ?m" by (cases ?m) auto
    then have "at_name x = cfg_n S" using none unfolding trx by (auto simp: kept_def filter_empty_conv)
    with x have "nb_new_config b1 \<noteq> None" using append_actions_config [OF fold] by blast
    then show ?thesis unfolding b1 by simp
  qed
  with evm show thesis by (intro that [OF b1 names conf]) simp_all
qed

lemma append_to_block_kind:
  assumes S: "names_distinct (sl_eosio_name S)" and ok: "kind_ok S core block"
    and app: "append_to_block S core block trace = Inr block'"
  shows "kind_ok S core block'"
  using app
proof (cases rule: append_to_block_Inr)
  case (appended ks b1 trx)
  let ?ts = "nb_transactions block" and ?search = "action_to_search S core (tt_action_traces trace)"
  obtain c where b1: "b1 = block\<lparr>nb_new_config := c\<rparr>"
    and names: "\<forall>x \<in> set (nt_actions trx). na_name x = ?search \<and> na_receiver x = core"
    and conf: "\<forall>x. c = Some x \<longrightarrow> nb_new_config block = Some x \<or> na_name x = cfg_n S \<and> na_receiver x = core"
    and evm: "c \<noteq> None \<longrightarrow> nt_actions trx \<noteq> [] \<longrightarrow> ?search = evm_n S" and none: "nt_actions trx = [] \<longrightarrow> c \<noteq> None"
    by (rule appended_transaction [OF S appended(1-3)])
  have same: "?ts = [] \<or> nt_actions (last ?ts) \<noteq> [] \<and> nt_actions trx \<noteq> [] \<and>
      na_name (last (nt_actions (last ?ts))) = na_name (last (nt_actions trx))"
    using appended(4) unfolding same_kind_Inr b1 by simp
  have block': "block' = block\<lparr>nb_new_config := c, nb_transactions := ?ts @ [trx]\<rparr>" using appended(5) b1 by simp
  from ok obtain n where n: "n \<in> {push_n S, evm_n S}"
    "\<forall>t \<in> set ?ts. \<forall>a \<in> set (nt_actions t). na_name a = n \<and> na_receiver a = core" by (auto simp: kind_ok_def)
  have full: "\<forall>t \<in> set (?ts @ [trx]). nt_actions t = [] \<longrightarrow> c \<noteq> None \<and> ?ts @ [trx] = [t]"
  proof (intro ballI impI)
    fix t assume t: "t \<in> set (?ts @ [trx])" "nt_actions t = []"
    have "t \<notin> set ?ts" using ok t(2) same unfolding kind_ok_def by fastforce
    with t none same show "c \<noteq> None \<and> ?ts @ [trx] = [t]" by auto
  qed
  have kinds: "\<exists>n \<in> {push_n S, evm_n S}.
      (\<forall>t \<in> set (?ts @ [trx]). \<forall>a \<in> set (nt_actions t). na_name a = n \<and> na_receiver a = core) \<and> (c \<noteq> None \<longrightarrow> n = evm_n S)"
  proof (cases "nt_actions trx = []")
    case True
    with same show ?thesis by (intro bexI [of _ "evm_n S"]) auto
  next
    case ne: False
    have "?ts \<noteq> [] \<longrightarrow> n = ?search"
    proof
      assume that: "?ts \<noteq> []"
      let ?l = "last (nt_actions (last ?ts))"
      have l: "?l \<in> set (nt_actions (last ?ts))" "na_name ?l = na_name (last (nt_actions trx))"
        using same that by auto
      then have "na_name ?l = n" using bspec [OF bspec [OF n(2) last_in_set [OF that]] l(1)] by blast
      with l(2) names ne show "n = ?search" by simp
    qed
    then have "\<forall>t \<in> set ?ts. \<forall>a \<in> set (nt_actions t). na_name a = ?search \<and> na_receiver a = core"
      using n(2) by auto
    with names evm ne show ?thesis
      using action_to_search_cases [of S core "tt_action_traces trace"] by (intro bexI [of _ ?search]) auto
  qed
  have "\<forall>x. c = Some x \<longrightarrow> na_name x = cfg_n S \<and> na_receiver x = core"
    using conf ok unfolding kind_ok_def by blast
  with kinds full show ?thesis unfolding block' kind_ok_def by simp
qed (use ok in simp)

lemma append_traces_keeps:
  assumes "append_traces S core n bin b = Inr b'" "P b"
    and "\<And>c t c'. P c \<Longrightarrow> append_to_block S core c t = Inr c' \<Longrightarrow> P c'"
  shows "P b'"
  using assms(1,2)
proof (induction n arbitrary: bin b)
  case (Suc n)
  then obtain t bin' where t: "sl_trace S bin = Inr (Some t, bin')"
    by (auto simp: res_simps split: option.splits)
  show ?case
  proof (cases "tt_executed t")
    case True
    with Suc.prems t obtain c where c: "append_to_block S core b t = Inr c" "append_traces S core n bin' c = Inr b'"
      by (auto simp: res_simps)
    show ?thesis by (rule Suc.IH [OF c(2) assms(3) [OF Suc.prems(2) c(1)]])
  qed (use Suc t in simp)
qed simp

lemma append_to_block_frame:
  assumes "append_to_block S core b t = Inr b'"
  shows "nb_id b' = nb_id b \<and> nb_prev b' = nb_prev b \<and> nb_block_num b' = nb_block_num b \<and>
    nb_timestamp b' = nb_timestamp b"
  using assms
proof (cases rule: append_to_block_Inr)
  case (appended ks b1 trx)
  from append_actions_Inr [OF appended(3)] obtain c where "b1 = b\<lparr>nb_new_config := c\<rparr>" by blast
  with appended(5) show ?thesis by simp
qed simp

text \<open>
  C19: A native block made from a result of the state history has the position, parent, time and
  irreversible block of the result, and its actions are of one kind: all of the core account,
  all plain or all event transactions, only event transactions next to a configuration change, and
  no transaction without actions except the one that carried the configuration change.
\<close>

theorem native_block_of_result:
  assumes "to_native S core res = Inr (Some b)" "names_distinct (sl_eosio_name S)"
  shows "kind_ok S core b \<and>
    br_this_block res = Some \<lparr>bp_block_num = nb_block_num b, bp_block_id = nb_id b\<rparr> \<and>
    (\<exists>p. br_prev_block res = Some p \<and> bp_block_id p = nb_prev b) \<and>
    (\<exists>bin. br_block res = Some bin \<and> sl_signed_block_time S bin = Inr (nb_timestamp b)) \<and>
    nb_lib b = bp_block_num (br_last_irreversible res)"
proof -
  from assms(1) obtain b0 where start: "start_native_block S res = Inr b0"
    by (auto simp: to_native_def res_simps split: option.splits)
  from assms(1) obtain b1 where
    loop: "(case br_traces res of None \<Rightarrow> Inr b0
      | Some traces \<Rightarrow> rbind (sl_varuint32 S traces) (\<lambda>(num, bin). append_traces S core (unat num) bin b0)) = Inr b1"
    and b: "b = b1\<lparr>nb_lib := bp_block_num (br_last_irreversible res)\<rparr>"
    using start by (cases "br_this_block res") (auto simp: to_native_def res_simps)
  have traces: "b1 = b0 \<or> (\<exists>n bin. append_traces S core n bin b0 = Inr b1)"
    using loop by (cases "br_traces res") (auto simp: res_simps)
  from start obtain bin time this prev where s: "br_block res = Some bin" "sl_signed_block_time S bin = Inr time"
    "br_this_block res = Some this" "br_prev_block res = Some prev"
    and b0: "b0 = (default_native_block (sl_default_checksum S))
      \<lparr>nb_block_num := bp_block_num this, nb_id := bp_block_id this, nb_prev := bp_block_id prev, nb_timestamp := time\<rparr>"
    by (auto simp: start_native_block_def res_simps)
  let ?P = "\<lambda>c. kind_ok S core c \<and> nb_id c = nb_id b0 \<and> nb_prev c = nb_prev b0 \<and>
    nb_block_num c = nb_block_num b0 \<and> nb_timestamp c = nb_timestamp b0"
  have "?P b0" by (auto simp: b0 kind_ok_def default_native_block_def)
  moreover have "?P c'" if "?P c" "append_to_block S core c t = Inr c'" for c t c'
    using that append_to_block_kind [OF assms(2) _ that(2)] append_to_block_frame [OF that(2)] by simp
  ultimately have "?P b1" using traces append_traces_keeps [where P = ?P] by blast
  moreover from this have "kind_ok S core b" by (simp add: b kind_ok_def)
  ultimately show ?thesis using s by (simp add: b b0)
qed

definition sample_result :: get_blocks_result where
  "sample_result = \<lparr>br_last_irreversible = \<lparr>bp_block_num = 4, bp_block_id = [4]\<rparr>,
     br_this_block = Some \<lparr>bp_block_num = 6, bp_block_id = [6]\<rparr>,
     br_prev_block = Some \<lparr>bp_block_num = 5, bp_block_id = [5]\<rparr>,
     br_block = Some [100], br_traces = Some [2, 8, 0, 2, 50, 9, 0, 2, 51]\<rparr>"

theorem native_block_of_result_witness:
  "\<exists>b. to_native sample_ship 9 sample_result = Inr (Some b) \<and> length (nb_transactions b) = 2 \<and>
     nb_block_num b = 6 \<and> nb_lib b = 4 \<and> kind_ok sample_ship 9 b"
proof -
  have "(case to_native sample_ship 9 sample_result of
      Inr (Some b) \<Rightarrow> length (nb_transactions b) = 2 \<and> nb_block_num b = 6 | _ \<Rightarrow> False)" by code_simp
  then obtain b where b: "to_native sample_ship 9 sample_result = Inr (Some b)"
    "length (nb_transactions b) = 2" "nb_block_num b = 6" by (auto split: sum.splits option.splits)
  have "bp_block_num (br_last_irreversible sample_result) = 4" by code_simp
  with native_block_of_result [OF b(1) sample_ship_names] b show ?thesis by auto
qed

section \<open>Errors\<close>

text \<open>
  The check that a transaction does not mix plain and event transactions never fails: the
  selection before it takes only one kind.
\<close>

theorem mixed_transaction_unreachable:
  assumes "names_distinct (sl_eosio_name S)"
  shows "append_to_block S core block trace \<noteq>
    Inl (Runtime_error ''pushtx and evmtx found on the same transaction'')"
proof -
  let ?e = "Runtime_error ''pushtx and evmtx found on the same transaction''"
  let ?actions = "tt_action_traces trace"
  let ?search = "action_to_search S core ?actions"
  have keys: "keyed S core ?search ?actions j acts \<noteq> Inl ?e" for j acts
    by (induction acts arbitrary: j)
      (auto simp: res_simps global_sequence_of_def Let_def split: option.splits if_splits)
  have loop: "rfold (\<lambda>pair. append_action S (snd pair)) m (b, t) \<noteq> Inl ?e"
    if "\<forall>x \<in> snd ` set m. at_name x = ?search \<or> at_name x = cfg_n S"
      "\<forall>a \<in> set (nt_actions t). na_name a = ?search" for m b t
    using that
  proof (induction m arbitrary: b t)
    case (Cons x m)
    have first: "append_action S (snd x) (b, t) \<noteq> Inl ?e"
      using Cons.prems by (auto simp: append_action_def Let_def dest: last_in_set)
    show ?case
    proof (cases "append_action S (snd x) (b, t)")
      case (Inr r)
      then obtain b1 t1 where 1: "append_action S (snd x) (b, t) = Inr (b1, t1)" by (cases r) auto
      have "t1 = t\<lparr>nt_actions := nt_actions t @ (if at_name (snd x) = cfg_n S then [] else [native_action_of (snd x)])\<rparr>"
        using append_action_Inr [OF 1] by blast
      then have "\<forall>a \<in> set (nt_actions t1). na_name a = ?search" using Cons.prems by auto
      then have "rfold (\<lambda>pair. append_action S (snd pair)) m (b1, t1) \<noteq> Inl ?e"
        using Cons.prems(1) by (intro Cons.IH) auto
      with 1 show ?thesis by simp
    qed (use first in simp)
  qed simp
  have "same_kind b t \<noteq> Inl ?e" for b t
    by (auto simp: same_kind_def res_simps back_of_def)
  moreover have "\<forall>x \<in> snd ` set (std_map_puts ks []). at_name x = ?search \<or> at_name x = cfg_n S"
    if "keyed S core ?search ?actions 0 ?actions = Inr ks" for ks
    using order_actions_wanted(1) [of S core ?search ?actions 0 ?actions] that
    by (fastforce simp: order_actions_keyed wanted_def)
  ultimately show ?thesis
    using keys loop
    by (fastforce simp: append_to_block_def Let_def res_simps order_actions_keyed new_native_trx_def split: if_splits)
qed

theorem mixed_transaction_unreachable_witness:
  "append_to_block sample_ship 9 sample_ship_block sample_nested \<noteq>
    Inl (Runtime_error ''pushtx and evmtx found on the same transaction'')"
  by (rule mixed_transaction_unreachable) simp

text \<open>
  A transaction that only changes the configuration leaves a transaction without actions in the
  block, and the next transaction of the contract in that block then reads the last element of an
  empty vector.
\<close>

theorem after_configuration_undefined:
  assumes "nb_transactions block \<noteq> []" "nt_actions (last (nb_transactions block)) = []"
    and "nb_new_config block \<noteq> None" "names_distinct (sl_eosio_name S)"
    and "trace_keys S core trace = Inr ks" "ks \<noteq> []" "\<forall>(k, a) \<in> set ks. at_name a = evm_n S"
  shows "append_to_block S core block trace =
    Inl (Undefined_behaviour ''block.transactions.back().actions.back()'')"
proof -
  let ?m = "std_map_puts ks []"
  note nd = names_distinctD [OF assms(4)]
  have m: "\<forall>x \<in> snd ` set ?m. at_name x = evm_n S"
    using std_map_puts_values [of ks "[]"] assms(7) by fastforce
  have loop: "\<exists>t'. rfold (\<lambda>pair. append_action S (snd pair)) m (block, t) = Inr (block, t')"
    if "\<forall>x \<in> snd ` set m. at_name x = evm_n S" "\<forall>a \<in> set (nt_actions t). na_name a = evm_n S" for m t
    using that
  proof (induction m arbitrary: t)
    case (Cons x m)
    let ?t = "t\<lparr>nt_actions := nt_actions t @ [native_action_of (snd x)]\<rparr>"
    have x: "at_name (snd x) = evm_n S" using Cons.prems(1) by simp
    have "nt_actions t = [] \<or> na_name (last (nt_actions t)) = evm_n S"
      using Cons.prems(2) last_in_set [of "nt_actions t"] by blast
    with x nd(4,6) have "append_action S (snd x) (block, t) = Inr (block, ?t)"
      by (simp add: append_action_def Let_def)
    moreover have "\<forall>a \<in> set (nt_actions ?t). na_name a = evm_n S" using Cons.prems(2) x by simp
    moreover have "\<forall>x \<in> snd ` set m. at_name x = evm_n S" using Cons.prems(1) by simp
    ultimately show ?case using Cons.IH [of ?t] by simp
  qed simp
  obtain t' where "rfold (\<lambda>pair. append_action S (snd pair)) ?m
      (block, new_native_trx (tt_id trace) (tt_cpu_usage_us trace) (tt_elapsed trace)) = Inr (block, t')"
    using loop [OF m] by (fastforce simp: new_native_trx_def)
  moreover have "?m \<noteq> []" using assms(6) by (simp add: std_map_puts_empty)
  moreover have "same_kind block t' = Inl (Undefined_behaviour ''block.transactions.back().actions.back()'')"
    using assms(1,2) by (simp add: same_kind_def)
  ultimately show ?thesis
    using assms(5) by (simp add: append_to_block_def trace_keys_def order_actions_keyed Let_def)
qed

definition sample_config_trace :: transaction_trace where
  "sample_config_trace = sample_trace [sample_trace_action 1 0 40 [5]]"

definition sample_configured :: native_block where
  "sample_configured = (case append_to_block sample_ship 9 sample_ship_block sample_config_trace of
     Inr b \<Rightarrow> b | Inl _ \<Rightarrow> sample_ship_block)"

theorem after_configuration_undefined_witness:
  "append_to_block sample_ship 9 sample_ship_block sample_config_trace = Inr sample_configured \<and>
   append_to_block sample_ship 9 sample_configured sample_nested =
     Inl (Undefined_behaviour ''block.transactions.back().actions.back()'')"
proof
  have "(case append_to_block sample_ship 9 sample_ship_block sample_config_trace of Inr _ \<Rightarrow> True | _ \<Rightarrow> False)"
    by code_simp
  then show "append_to_block sample_ship 9 sample_ship_block sample_config_trace = Inr sample_configured"
    unfolding sample_configured_def by (auto split: sum.splits)
  show "append_to_block sample_ship 9 sample_configured sample_nested =
     Inl (Undefined_behaviour ''block.transactions.back().actions.back()'')"
  proof (rule after_configuration_undefined [OF _ _ _ sample_ship_names])
    show "nb_transactions sample_configured \<noteq> []" "nt_actions (last (nb_transactions sample_configured)) = []"
      "nb_new_config sample_configured \<noteq> None" by code_simp+
    show "trace_keys sample_ship 9 sample_nested =
      Inr [(60, sample_trace_action 3 2 70 [1]), (50, sample_trace_action 3 1 80 [2])]" by code_simp
    show "\<forall>(k, a) \<in> set [(60 :: u64, sample_trace_action 3 2 70 [1]), (50, sample_trace_action 3 1 80 [2])].
        at_name a = evm_n sample_ship"
      by (simp add: sample_trace_action_def evmtx_n_def sample_ship_def)
  qed simp
qed

text \<open>
  Two configuration changes in one transaction are not refused, though two in one block are
  meant to be: both have the key 0 in the ordered map, and only the last one is kept.
\<close>

theorem double_configuration_collapses:
  "(let b = append_to_block sample_ship 9 sample_ship_block
        (sample_trace [sample_trace_action 1 0 40 [5], sample_trace_action 1 0 41 [6]]) in
    map_sum id (\<lambda>b. (map_option na_data (nb_new_config b), map nt_actions (nb_transactions b))) b =
      Inr (Some [6], [[]]))"
  by code_simp

end
