(* ===== verification/Abi_Utils.thy ===== *)
theory Abi_Utils
  imports Node_Channels
begin

text \<open>
  \<open>src/src/abi_utils.hpp\<close>: checks on ABI types and the loading of an ABI from JSON. Parsing
  (\<open>eosio::varuint32_from_bin\<close>, \<open>eosio::from_json\<close>, \<open>eosio::convert\<close>) is the library's and a
  parameter.
\<close>

text \<open>An ABI type as far as the code looks at it: its name and its alternatives, if it has any.\<close>

record abi_type =
  at_name :: string
  at_variant :: "string list option"

record abi =
  abi_types :: "string \<rightharpoonup> abi_type"

definition verify_variant ::
  "(bytes \<Rightarrow> (u32 \<times> bytes) res) \<Rightarrow> bytes \<Rightarrow> abi_type \<Rightarrow> string \<Rightarrow> bytes res" where
  "verify_variant varuint32_from_bin bin type expected =
     rbind (varuint32_from_bin bin) (\<lambda>(index, rest).
       case at_variant type of
         None \<Rightarrow> Inl (Runtime_error ''not a variant'')
       | Some v \<Rightarrow>
           if unat index \<ge> length v then Inl (Runtime_error ''not expected'')
           else if v ! unat index \<noteq> expected then Inl (Runtime_error ''not expected'')
           else Inr rest)"

definition get_type :: "string \<Rightarrow> abi \<Rightarrow> abi_type res" where
  "get_type n a =
     (case abi_types a n of
        None \<Rightarrow> Inl (Runtime_error (''unknown ABI type <'' @ n @ ''>''))
      | Some t \<Rightarrow> Inr t)"

text \<open>
  A JSON token stream is made from a pointer to characters and reads up to the terminating
  null; a buffer without one is read past its end.
\<close>

definition c_string :: "bytes \<Rightarrow> bytes res" where
  "c_string buffer =
     (if 0 \<in> set buffer then Inr (takeWhile (\<lambda>b. b \<noteq> 0) buffer)
      else Inl (Undefined_behaviour ''read past the end of a buffer without a null''))"

lemma c_string_terminated: "0 \<notin> set bs \<Longrightarrow> c_string (bs @ [0]) = Inr bs"
  by (induction bs) (auto simp: c_string_def)

definition load_abi ::
  "(bytes \<Rightarrow> 'def res) \<Rightarrow> ('def \<Rightarrow> abi res) \<Rightarrow> bytes \<Rightarrow> abi res" where
  "load_abi from_json convert buffer =
     rbind (c_string buffer) (\<lambda>s. rbind (from_json s) convert)"

text \<open>
  The overload that reads a file. The buffer it allocates has exactly the length of the file,
  so no null follows the contents.
\<close>

definition load_abi_file ::
  "(bytes \<Rightarrow> 'def res) \<Rightarrow> ('def \<Rightarrow> abi res) \<Rightarrow> (string \<rightharpoonup> bytes) \<Rightarrow> string \<Rightarrow> abi res" where
  "load_abi_file from_json convert files abi_dir =
     (case files abi_dir of
        None \<Rightarrow> Inl (Runtime_error ''Failed to find ABI file'')
      | Some contents \<Rightarrow> load_abi from_json convert contents)"

text \<open>
  A variant check succeeds exactly when the encoded index is in range and names the
  expected alternative of a variant type; it then leaves the rest of the input.
\<close>

theorem verify_variant_iff:
  "verify_variant varuint bin type expected = Inr rest \<longleftrightarrow>
     (\<exists>index v. varuint bin = Inr (index, rest) \<and> at_variant type = Some v \<and>
        unat index < length v \<and> v ! unat index = expected)"
  by (cases "varuint bin") (auto simp: verify_variant_def split: option.splits if_splits)

text \<open>
  Loading an ABI from a file is undefined behaviour for every text file that exists: the
  buffer handed to the JSON reader is not terminated. The stream loader is fine on a buffer
  that the caller has terminated.
\<close>

theorem load_abi_file_unterminated:
  assumes "files path = Some contents" "0 \<notin> set contents"
  shows "load_abi_file from_json convert files path =
      Inl (Undefined_behaviour ''read past the end of a buffer without a null'') \<and>
    load_abi from_json convert (contents @ [0]) = rbind (from_json contents) convert"
proof
  show "load_abi_file from_json convert files path =
      Inl (Undefined_behaviour ''read past the end of a buffer without a null'')"
    using assms by (simp add: load_abi_file_def load_abi_def c_string_def)
  show "load_abi from_json convert (contents @ [0]) = rbind (from_json contents) convert"
    using assms by (simp add: load_abi_def c_string_terminated)
qed

theorem load_abi_file_unterminated_witness:
  "load_abi_file (\<lambda>s. Inr s) (\<lambda>s. Inr \<lparr>abi_types = Map.empty\<rparr>)
     [''abi.json'' \<mapsto> [123, 125]] ''abi.json'' =
       Inl (Undefined_behaviour ''read past the end of a buffer without a null'')"
  by (rule conjunct1 [OF load_abi_file_unterminated [where contents = "[123, 125]"]]) simp_all

end
