(* ===== verification/Ship_Connection.thy ===== *)
theory Ship_Connection
  imports Ship_Theorems Engine Abi_Utils
begin

text \<open>
  The connection to the state history plugin, the rest of
  \<open>src/src/ship_receiver_plugin.cpp\<close>: options, connecting, synchronising, reading and
  reconnecting. Each callback is one step; what the network answers during the step is part of
  the event, and what the step does outside the plugin is its list of effects.
\<close>

section \<open>State and options\<close>

record receiver =
  rc_stream :: bool
  rc_host :: string
  rc_port :: string
  rc_abi :: "abi option"
  rc_core_account :: u64
  rc_last_lib :: u32
  rc_last_block_num :: u32
  rc_delay_second :: u32
  rc_max_retry :: u32
  rc_retry_count :: u32
  rc_start_from_canonical_height :: "u64 option"

definition receiver_init ::
  "string \<Rightarrow> string \<Rightarrow> u64 \<Rightarrow> u64 option \<Rightarrow> u32 \<Rightarrow> u32 \<Rightarrow> receiver" where
  "receiver_init h p ca input_start_height input_max_retry input_delay_second =
     \<lparr>rc_stream = False, rc_host = h, rc_port = p, rc_abi = None, rc_core_account = ca,
      rc_last_lib = 0, rc_last_block_num = 0, rc_delay_second = input_delay_second,
      rc_max_retry = input_max_retry, rc_retry_count = 0,
      rc_start_from_canonical_height = input_start_height\<rparr>"

record ship_options =
  so_endpoint :: string
  so_core_account :: string
  so_max_retry :: "u32 option"
  so_delay_second :: "u32 option"
  so_start_from_canonical_height :: "u64 option"

text \<open>The defaults of the options that have one.\<close>

definition default_ship_options :: ship_options where
  "default_ship_options =
     \<lparr>so_endpoint = ''127.0.0.1:8999'', so_core_account = ''evmevmevmevm'',
      so_max_retry = None, so_delay_second = None, so_start_from_canonical_height = None\<rparr>"

text \<open>
  The parts of the endpoint before and after the first colon. Without a colon, \<open>find\<close> gives
  \<open>npos\<close>, the largest number, so the first part is the whole text, and \<open>npos + 1\<close> is 0, so the
  second part is the whole text as well.
\<close>

definition endpoint_host :: "string \<Rightarrow> string" where
  "endpoint_host endpoint = takeWhile (\<lambda>c. c \<noteq> CHR '':'') endpoint"

definition endpoint_port :: "string \<Rightarrow> string" where
  "endpoint_port endpoint =
     (case dropWhile (\<lambda>c. c \<noteq> CHR '':'') endpoint of [] \<Rightarrow> endpoint | _ # p \<Rightarrow> p)"

definition ship_initialize :: "ship_lib \<Rightarrow> ship_options \<Rightarrow> receiver" where
  "ship_initialize S opts =
     (let delay_second = (case so_delay_second opts of Some d \<Rightarrow> d | None \<Rightarrow> 10);
          max_retry = (case so_max_retry opts of Some r \<Rightarrow> r | None \<Rightarrow> 0)
      in receiver_init (endpoint_host (so_endpoint opts)) (endpoint_port (so_endpoint opts))
           (sl_eosio_name S (so_core_account opts)) (so_start_from_canonical_height opts)
           max_retry delay_second)"

section \<open>Effects and events\<close>

text \<open>The request for blocks: from a start on, without an end, with blocks and traces.\<close>

record get_blocks_request =
  gr_start_block_num :: u32
  gr_end_block_num :: u32
  gr_max_messages_in_flight :: u32
  gr_have_positions :: "block_position list"
  gr_irreversible_only :: bool
  gr_fetch_block :: bool
  gr_fetch_traces :: bool
  gr_fetch_deltas :: bool

definition send_get_blocks_request :: "u32 \<Rightarrow> get_blocks_request" where
  "send_get_blocks_request start =
     \<lparr>gr_start_block_num = start, gr_end_block_num = - 1, gr_max_messages_in_flight = - 1,
      gr_have_positions = [], gr_irreversible_only = False, gr_fetch_block = True,
      gr_fetch_traces = True, gr_fetch_deltas = False\<rparr>"

lemma send_get_blocks_request_inject [simp]:
  "send_get_blocks_request a = send_get_blocks_request b \<longleftrightarrow> a = b"
  by (simp add: send_get_blocks_request_def)

datatype ship_effect =
    Close
  | Sleep u32
  | Async_resolve string string
  | Connect
  | Send_get_status
  | Send_get_blocks get_blocks_request
  | Async_read
  | Publish_native native_block
  | Sys_error string

text \<open>
  The answers of the network during the callback of the resolver: whether each operation
  fails, the bytes of the first message, and of the answer to the status request.
\<close>

record net =
  net_connect_fails :: bool
  net_handshake_fails :: bool
  net_initial_read_fails :: bool
  net_initial_message :: bytes
  net_send_status_fails :: bool
  net_read_status_fails :: bool
  net_status_message :: bytes
  net_send_blocks_fails :: bool

datatype ship_event =
    Resolved bool net
  | Read_done bool bytes

text \<open>The alternatives of a result that the code asks for.\<close>

datatype ship_result =
    Get_status_result u32
  | Get_blocks_result get_blocks_result
  | Other_result

text \<open>The parameters: decoding of results, and of the ABI that the server sends first.\<close>

record 'def ship_env = ship_lib +
  se_result :: "bytes \<Rightarrow> ship_result res"
  se_abi_from_json :: "bytes \<Rightarrow> 'def res"
  se_abi_convert :: "'def \<Rightarrow> abi res"

section \<open>Steps\<close>

definition reset_connection :: "receiver \<Rightarrow> receiver \<times> ship_effect list" where
  "reset_connection st =
     (let resolve = Async_resolve (rc_host st) (rc_port st) in
      if rc_stream st
      then let st = st\<lparr>rc_retry_count := rc_retry_count st + 1\<rparr> in
           if rc_retry_count st > rc_max_retry st
           then (st, [Close, Sys_error ''Max retry reached. No more reconnections.''])
           else (st, [Close, Sleep (rc_delay_second st), resolve])
      else (st\<lparr>rc_stream := True\<rparr>, [resolve]))"

text \<open>\<open>connect_stream\<close>, as whether it fails.\<close>

definition connect_stream :: "net \<Rightarrow> bool" where
  "connect_stream n = (if net_connect_fails n then True else net_handshake_fails n)"

text \<open>
  \<open>initial_read\<close>: an error does not keep the message, whatever part of it was read, from being
  loaded as an ABI.
\<close>

definition initial_read :: "('def, 'more) ship_env_scheme \<Rightarrow> net \<Rightarrow> receiver \<Rightarrow> (bool \<times> receiver) res" where
  "initial_read E n st =
     rbind (load_abi (se_abi_from_json E) (se_abi_convert E) (net_initial_message n @ [0])) (\<lambda>abi.
       Inr (net_initial_read_fails n, st\<lparr>rc_abi := Some abi\<rparr>))"

text \<open>\<open>get_status\<close>: \<open>None\<close> for an error, otherwise the first block with traces.\<close>

definition get_status :: "('def, 'more) ship_env_scheme \<Rightarrow> net \<Rightarrow> u32 option res" where
  "get_status E n =
     (if net_send_status_fails n then Inr None
      else if net_read_status_fails n then Inr None
      else rbind (se_result E (net_status_message n)) (\<lambda>r.
             case r of Get_status_result trace_begin_block \<Rightarrow> Inr (Some trace_begin_block)
             | _ \<Rightarrow> Inl Bad_variant_access))"

text \<open>The block to start from; \<open>None\<close> when there is no canonical block.\<close>

definition resume_point :: "receiver \<Rightarrow> u32" where
  "resume_point st =
     (if rc_last_lib st > rc_last_block_num st then rc_last_block_num st else rc_last_lib st) + 1"

definition start_point :: "'tx chaindata \<Rightarrow> receiver \<Rightarrow> u32 option" where
  "start_point db st =
     (if rc_last_lib st > 0 then Some (resume_point st)
      else case get_canonical_block_at_height db (rc_start_from_canonical_height st) of
             None \<Rightarrow> None
           | Some start_block \<Rightarrow> Some (to_block_num (hd_prev_randao (blk_header start_block)) + 1))"

definition sync :: "('def, 'more) ship_env_scheme \<Rightarrow> 'tx chaindata \<Rightarrow> net \<Rightarrow> receiver \<Rightarrow> (receiver \<times> ship_effect list) res" where
  "sync E db n st =
     rbind (get_status E n) (\<lambda>status.
       case status of
         None \<Rightarrow> Inr (case reset_connection st of (st', effs) \<Rightarrow> (st', Send_get_status # effs))
       | Some trace_begin_block \<Rightarrow>
           (case start_point db st of
              None \<Rightarrow> Inr (st, [Send_get_status, Sys_error ''Unable to read canonical block''])
            | Some start_from \<Rightarrow>
                if trace_begin_block > start_from
                then Inr (st, [Send_get_status, Sys_error ''Start block not available in SHiP''])
                else if net_send_blocks_fails n
                then Inr (case reset_connection st of
                       (st', effs) \<Rightarrow> (st', Send_get_status # Send_get_blocks (send_get_blocks_request start_from) # effs))
                else Inr (st, [Send_get_status, Send_get_blocks (send_get_blocks_request start_from), Async_read])))"

definition on_resolved ::
  "('def, 'more) ship_env_scheme \<Rightarrow> 'tx chaindata \<Rightarrow> bool \<Rightarrow> net \<Rightarrow> receiver \<Rightarrow> (receiver \<times> ship_effect list) res" where
  "on_resolved E db ec n st =
     (if ec then Inr (reset_connection st)
      else if connect_stream n then Inr (case reset_connection st of (st', effs) \<Rightarrow> (st', Connect # effs))
      else rbind (initial_read E n st) (\<lambda>(ec2, st).
             if ec2 then Inr (case reset_connection st of (st', effs) \<Rightarrow> (st', Connect # effs))
             else rbind (sync E db n st) (\<lambda>(st', effs). Inr (st', Connect # effs))))"

definition on_read ::
  "('def, 'more) ship_env_scheme \<Rightarrow> bool \<Rightarrow> bytes \<Rightarrow> receiver \<Rightarrow> (receiver \<times> ship_effect list) res" where
  "on_read E ec buff st =
     (if ec then Inr (reset_connection st)
      else rbind (se_result E buff) (\<lambda>r.
           case r of
             Get_blocks_result br \<Rightarrow>
               rbind (to_native (ship_lib.truncate E) (rc_core_account st) br) (\<lambda>block.
                 case block of
                   None \<Rightarrow> Inr (st, [Sys_error ''Unable to generate native block''])
                 | Some b \<Rightarrow>
                     Inr (st\<lparr>rc_last_lib := nb_lib b, rc_last_block_num := nb_block_num b,
                            rc_retry_count := 0\<rparr>,
                          [Publish_native b, Async_read]))
           | _ \<Rightarrow> Inl Bad_variant_access))"

fun ship_step :: "('def, 'more) ship_env_scheme \<Rightarrow> 'tx chaindata \<Rightarrow> ship_event \<Rightarrow> receiver
    \<Rightarrow> (receiver \<times> ship_effect list) res option" where
  "ship_step E db (Resolved ec n) st = Some (on_resolved E db ec n st)"
| "ship_step E db (Read_done ec buff) st = Some (on_read E ec buff st)"

text \<open>\<open>plugin_startup\<close>: the first connection.\<close>

definition ship_startup :: "receiver \<Rightarrow> receiver \<times> ship_effect list" where
  "ship_startup st = reset_connection st"

end
