(* ===== verification/Node_Plugins.thy ===== *)
theory Node_Plugins
  imports Engine Ship_Connection "HOL-Library.Sublist"
begin

text \<open>
  How the programs are put together: the options that the plugins declare and read
  (\<open>src/src/sys_plugin.cpp\<close>, \<open>engine_plugin.cpp\<close>, \<open>ship_receiver_plugin.cpp\<close>, \<open>rpc_plugin.cpp\<close>), the RPC
  plugin, the two main functions and the version strings. The option parser and the application
  framework are parameters.
\<close>

section \<open>Options\<close>

datatype option_type = String_type | U32_type | U64_type | Bool_type

datatype option_value = Opt_string string | Opt_u32 u32 | Opt_u64 u64 | Opt_bool bool

fun type_of_value :: "option_value \<Rightarrow> option_type" where
  "type_of_value (Opt_string s) = String_type"
| "type_of_value (Opt_u32 n) = U32_type"
| "type_of_value (Opt_u64 n) = U64_type"
| "type_of_value (Opt_bool b) = Bool_type"

text \<open>A declared option: its name, type and default value.\<close>

type_synonym option_decl = "string \<times> option_type \<times> option_value option"

type_synonym variables_map = "string \<Rightarrow> option_value option"

text \<open>\<open>options.at(key).as<T>()\<close> throws when the key is missing or its value has another type.\<close>

definition option_at :: "(option_value \<Rightarrow> 'a option) \<Rightarrow> variables_map \<Rightarrow> string \<Rightarrow> 'a res" where
  "option_at as vm key =
     (case vm key of
        None \<Rightarrow> Inl (External_exception ''out_of_range'')
      | Some v \<Rightarrow> (case as v of None \<Rightarrow> Inl (External_exception ''bad_any_cast'') | Some x \<Rightarrow> Inr x))"

fun as_string :: "option_value \<Rightarrow> string option" where
  "as_string (Opt_string s) = Some s" | "as_string _ = None"

fun as_u32 :: "option_value \<Rightarrow> u32 option" where
  "as_u32 (Opt_u32 n) = Some n" | "as_u32 _ = None"

fun as_u64 :: "option_value \<Rightarrow> u64 option" where
  "as_u64 (Opt_u64 n) = Some n" | "as_u64 _ = None"

fun as_bool :: "option_value \<Rightarrow> bool option" where
  "as_bool (Opt_bool b) = Some b" | "as_bool _ = None"

text \<open>An option without a default is read when it is present.\<close>

definition option_if_present :: "(option_value \<Rightarrow> 'a option) \<Rightarrow> variables_map \<Rightarrow> string \<Rightarrow> 'a option res" where
  "option_if_present as vm key =
     (if vm key = None then Inr None else rbind (option_at as vm key) (\<lambda>x. Inr (Some x)))"

text \<open>
  What the parser promises: a value of the declared type for every option that is given or has a
  default.
\<close>

definition conforms :: "option_decl list \<Rightarrow> variables_map \<Rightarrow> bool" where
  "conforms decls vm \<longleftrightarrow>
     (\<forall>(name, ty, def) \<in> set decls.
        case vm name of None \<Rightarrow> def = None | Some v \<Rightarrow> type_of_value v = ty)"

definition default_variables :: "option_decl list \<Rightarrow> variables_map" where
  "default_variables decls name =
     (case map_of decls name of None \<Rightarrow> None | Some (ty, def) \<Rightarrow> def)"

section \<open>The system plugin\<close>

definition sys_options :: "option_decl list" where
  "sys_options =
     [(''verbosity'', U32_type, Some (Opt_u32 0)),
      (''stdout'', Bool_type, Some (Opt_bool False)),
      (''nocolor'', Bool_type, Some (Opt_bool False)),
      (''log-file'', String_type, Some (Opt_string ''''))]"

record log_settings =
  log_verbosity :: u32
  log_std_out :: bool
  log_nocolor :: bool
  log_file :: string

text \<open>The level is cast from the number without a check. The settings go to the logging library.\<close>

definition sys_initialize :: "variables_map \<Rightarrow> log_settings res" where
  "sys_initialize vm =
     rbind (option_at as_u32 vm ''verbosity'') (\<lambda>verbosity.
     rbind (option_at as_bool vm ''stdout'') (\<lambda>std_out.
     rbind (option_at as_bool vm ''nocolor'') (\<lambda>nocolor.
     rbind (option_at as_string vm ''log-file'') (\<lambda>file.
       Inr \<lparr>log_verbosity = verbosity, log_std_out = std_out, log_nocolor = nocolor,
            log_file = file\<rparr>))))"

definition get_verbosity :: "log_settings \<Rightarrow> u32" where
  "get_verbosity settings = log_verbosity settings"

section \<open>The engine plugin\<close>

definition engine_option_decls :: "option_decl list" where
  "engine_option_decls =
     [(''chain-data'', String_type, Some (Opt_string ''.'')),
      (''engine-port'', String_type, Some (Opt_string ''127.0.0.1:8080'')),
      (''threads'', U32_type, Some (Opt_u32 16)),
      (''genesis-json'', String_type, None),
      (''max-readers'', U32_type, Some (Opt_u32 1024))]"

text \<open>The world outside depends on the data directory.\<close>

definition engine_initialize ::
  "(string \<Rightarrow> 'tx engine_world) \<Rightarrow> variables_map \<Rightarrow> app \<Rightarrow> ('tx engine \<times> app) res" where
  "engine_initialize world vm a =
     rbind (option_at as_string vm ''chain-data'') (\<lambda>chain_data.
     rbind (option_at as_string vm ''engine-port'') (\<lambda>address.
     rbind (option_at as_u32 vm ''threads'') (\<lambda>threads.
     rbind (option_at as_u32 vm ''max-readers'') (\<lambda>max_readers.
     rbind (option_if_present as_string vm ''genesis-json'') (\<lambda>genesis_json.
       engine_construct (world chain_data)
         \<lparr>eo_threads = threads, eo_max_readers = max_readers, eo_address = address,
          eo_genesis_json = genesis_json\<rparr> a)))))"

definition get_address :: "'tx engine \<Rightarrow> string" where
  "get_address e = en_address e"

definition get_threads :: "'tx engine \<Rightarrow> u32" where
  "get_threads e = en_threads e"

section \<open>The receiver\<close>

definition ship_option_decls :: "option_decl list" where
  "ship_option_decls =
     [(''ship-endpoint'', String_type, Some (Opt_string ''127.0.0.1:8999'')),
      (''ship-core-account'', String_type, Some (Opt_string ''evmevmevmevm'')),
      (''ship-max-retry'', U32_type, None),
      (''ship-delay-second'', U32_type, None),
      (''ship-start-from-canonical-height'', U64_type, None)]"

definition ship_read_options :: "variables_map \<Rightarrow> ship_options res" where
  "ship_read_options vm =
     rbind (option_at as_string vm ''ship-endpoint'') (\<lambda>endpoint.
     rbind (option_at as_string vm ''ship-core-account'') (\<lambda>core.
     rbind (option_if_present as_u64 vm ''ship-start-from-canonical-height'') (\<lambda>height.
     rbind (option_if_present as_u32 vm ''ship-max-retry'') (\<lambda>max_retry.
     rbind (option_if_present as_u32 vm ''ship-delay-second'') (\<lambda>delay_second.
       Inr \<lparr>so_endpoint = endpoint, so_core_account = core, so_max_retry = max_retry,
            so_delay_second = delay_second, so_start_from_canonical_height = height\<rparr>)))))"

section \<open>The RPC plugin\<close>

text \<open>The defaults of the two addresses come from a library.\<close>

definition rpc_option_decls :: "string \<Rightarrow> string \<Rightarrow> option_decl list" where
  "rpc_option_decls default_end_point default_private_api =
     [(''http-port'', String_type, Some (Opt_string default_end_point)),
      (''eos-evm-node'', String_type, Some (Opt_string default_private_api)),
      (''rpc-threads'', U32_type, Some (Opt_u32 16)),
      (''chaindata'', String_type, Some (Opt_string ''./'')),
      (''rpc-max-readers'', U32_type, Some (Opt_u32 32000)),
      (''api-spec'', String_type, Some (Opt_string ''eth'')),
      (''chain-id'', U32_type, Some (Opt_u32 25555)),
      (''rpc-quirk-flag'', U64_type, Some (Opt_u64 0))]"

record daemon_settings =
  dm_log_verbosity :: u32
  dm_datadir :: string
  dm_eth_end_point :: string
  dm_engine_end_point :: string
  dm_eth_api_spec :: string
  dm_private_api_addr :: string
  dm_num_workers :: u32
  dm_skip_protocol_check :: bool
  dm_rpc_quirk_flag :: u64
  dm_max_readers :: u32

text \<open>An exception is logged and passed on.\<close>

definition rpc_initialize :: "u32 \<Rightarrow> variables_map \<Rightarrow> daemon_settings res" where
  "rpc_initialize log_level vm =
     rbind (option_at as_string vm ''http-port'') (\<lambda>http_port.
     rbind (option_at as_u32 vm ''rpc-threads'') (\<lambda>threads.
     rbind (option_at as_u32 vm ''rpc-max-readers'') (\<lambda>max_readers.
     rbind (option_at as_u64 vm ''rpc-quirk-flag'') (\<lambda>rpc_quirk_flag.
     rbind (option_at as_string vm ''eos-evm-node'') (\<lambda>node_port.
     rbind (option_at as_string vm ''chaindata'') (\<lambda>data_dir.
     rbind (option_at as_string vm ''api-spec'') (\<lambda>api_spec.
       Inr \<lparr>dm_log_verbosity = log_level, dm_datadir = data_dir, dm_eth_end_point = http_port,
            dm_engine_end_point = '''', dm_eth_api_spec = api_spec,
            dm_private_api_addr = node_port, dm_num_workers = threads,
            dm_skip_protocol_check = True, dm_rpc_quirk_flag = rpc_quirk_flag,
            dm_max_readers = max_readers\<rparr>)))))))"

text \<open>The plugin's state: null before the initialisation; whether the daemon's thread can be joined.\<close>

record rpc =
  rp_settings :: daemon_settings
  rp_joinable :: bool

datatype rpc_effect = Run_daemon daemon_settings string | Join_daemon

definition rpc_startup :: "string \<Rightarrow> rpc option \<Rightarrow> (rpc \<times> rpc_effect list) res" where
  "rpc_startup full_version my =
     rbind (deref ''my is null'' my) (\<lambda>r.
       Inr (r\<lparr>rp_joinable := True\<rparr>, [Run_daemon (rp_settings r) (''version: '' @ full_version)]))"

definition rpc_shutdown :: "rpc option \<Rightarrow> (rpc \<times> rpc_effect list) res" where
  "rpc_shutdown my =
     rbind (deref ''my is null'' my) (\<lambda>r.
       if rp_joinable r then Inr (r\<lparr>rp_joinable := False\<rparr>, [Join_daemon]) else Inr (r, []))"

section \<open>Versions\<close>

record version_info =
  vi_major :: string
  vi_minor :: string
  vi_patch :: string
  vi_suffix :: string
  vi_hash :: string
  vi_dirty :: bool

definition version_unknown :: "version_info \<Rightarrow> bool" where
  "version_unknown v \<longleftrightarrow> vi_major v = ''unknown'' \<or> vi_major v = '''' \<or>
     vi_minor v = ''unknown'' \<or> vi_minor v = ''''"

definition version_client :: "version_info \<Rightarrow> string" where
  "version_client v =
     (if version_unknown v then ''unknown''
      else let version = ''v'' @ vi_major v @ ''.'' @ vi_minor v;
               version = (if vi_patch v \<noteq> '''' then version @ ''.'' @ vi_patch v else version);
               version = (if vi_suffix v \<noteq> '''' then version @ ''-'' @ vi_suffix v else version)
           in version)"

definition version_full :: "version_info \<Rightarrow> string" where
  "version_full v =
     (if version_unknown v then ''unknown''
      else let version = ''v'' @ vi_major v @ ''.'' @ vi_minor v;
               version = (if vi_patch v \<noteq> '''' then version @ ''.'' @ vi_patch v else version);
               version = (if vi_suffix v \<noteq> '''' then version @ ''-'' @ vi_suffix v else version);
               version = (if vi_hash v \<noteq> '''' then version @ ''-'' @ vi_hash v else version);
               version = (if vi_dirty v then version @ ''-dirty'' else version)
           in version)"

definition version_hash :: "version_info \<Rightarrow> string" where
  "version_hash v = vi_hash v"

lemma version_client_prefix: "prefix (version_client v) (version_full v)"
  by (simp add: version_client_def version_full_def Let_def)

section \<open>The main functions\<close>

text \<open>
  What the framework's calls throw: an exception of class \<open>std::runtime_error\<close>, another one of
  the standard library, with their messages, or something else.
\<close>

datatype thrown_by_app = Runtime_error_thrown string | Std_exception_thrown string | Other_thrown

record application =
  ap_initialize :: "thrown_by_app + bool"
  ap_startup :: "thrown_by_app option"
  ap_exec :: "thrown_by_app option"

datatype main_effect =
    Set_version_string string
  | Set_full_version_string string
  | Register_plugin string
  | Initialize "string list"
  | Startup
  | Set_thread_priority_max
  | Execute
  | Log_critical string

datatype exit = Exit int | Terminate

text \<open>The \<open>try\<close> block of a main function: the effects, and \<open>return\<close>, the end, or an exception.\<close>

definition run_app ::
  "application \<Rightarrow> version_info \<Rightarrow> string list \<Rightarrow> string list \<Rightarrow> main_effect list \<times> (thrown_by_app + exit)" where
  "run_app ap v plugins initial =
     (let es = [Set_version_string (version_client v), Set_full_version_string (version_full v)]
               @ map Register_plugin plugins @ [Initialize initial]
      in case ap_initialize ap of
           Inl x \<Rightarrow> (es, Inl x)
         | Inr ok \<Rightarrow>
             if \<not> ok then (es, Inr (Exit (- 1)))
             else (case ap_startup ap of
                     Some x \<Rightarrow> (es @ [Startup], Inl x)
                   | None \<Rightarrow>
                       (es @ [Startup, Set_thread_priority_max, Execute],
                        case ap_exec ap of Some x \<Rightarrow> Inl x | None \<Rightarrow> Inr (Exit 0))))"

text \<open>
  \<open>eos-evm-node.cpp\<close> catches a \<open>std::exception\<close> by value: the copy is of the base class, whose
  \<open>what\<close> is \<open>base_what\<close>, and not the message of the exception.
\<close>

definition node_main ::
  "string \<Rightarrow> application \<Rightarrow> version_info \<Rightarrow> main_effect list \<times> exit" where
  "node_main base_what ap v =
     (case run_app ap v [''blockchain_plugin'', ''engine_plugin'', ''ship_receiver_plugin'', ''sys_plugin'',
                         ''block_conversion_plugin''] [''sys_plugin''] of
        (es, Inr e) \<Rightarrow> (es, e)
      | (es, Inl (Runtime_error_thrown what)) \<Rightarrow> (es @ [Log_critical (''Error '' @ what)], Exit 0)
      | (es, Inl (Std_exception_thrown what)) \<Rightarrow> (es @ [Log_critical (''Error '' @ base_what)], Exit 0)
      | (es, Inl Other_thrown) \<Rightarrow> (es, Terminate))"

definition rpc_main :: "application \<Rightarrow> version_info \<Rightarrow> main_effect list \<times> exit" where
  "rpc_main ap v =
     (case run_app ap v [''sys_plugin'', ''rpc_plugin''] [''sys_plugin'', ''rpc_plugin''] of
        (es, Inr e) \<Rightarrow> (es, e)
      | (es, Inl (Runtime_error_thrown what)) \<Rightarrow> (es @ [Log_critical what], Exit 0)
      | (es, Inl (Std_exception_thrown what)) \<Rightarrow> (es @ [Log_critical what], Exit 0)
      | (es, Inl Other_thrown) \<Rightarrow> (es, Terminate))"

section \<open>Properties\<close>

text \<open>Reading a declared option of a conforming parse.\<close>

lemma conforms_has:
  assumes "conforms decls vm" "(name, ty, Some d) \<in> set decls"
  obtains v where "vm name = Some v" "type_of_value v = ty"
proof -
  have "case vm name of None \<Rightarrow> Some d = None | Some v \<Rightarrow> type_of_value v = ty"
    using assms unfolding conforms_def by blast
  with that show thesis by (cases "vm name") auto
qed

lemma conforms_may_have:
  assumes "conforms decls vm" "(name, ty, def) \<in> set decls" "vm name = Some v"
  shows "type_of_value v = ty"
proof -
  have "case vm name of None \<Rightarrow> def = None | Some v \<Rightarrow> type_of_value v = ty"
    using assms(1,2) unfolding conforms_def by blast
  with assms(3) show ?thesis by simp
qed

lemma type_of_value_cases:
  "type_of_value v = String_type \<Longrightarrow> \<exists>s. as_string v = Some s"
  "type_of_value v = U32_type \<Longrightarrow> \<exists>n. as_u32 v = Some n"
  "type_of_value v = U64_type \<Longrightarrow> \<exists>n. as_u64 v = Some n"
  "type_of_value v = Bool_type \<Longrightarrow> \<exists>b. as_bool v = Some b"
  by (cases v; simp)+

definition reads :: "(option_value \<Rightarrow> 'a option) \<Rightarrow> option_type \<Rightarrow> bool" where
  "reads as ty \<longleftrightarrow> (\<forall>v. type_of_value v = ty \<longrightarrow> (\<exists>x. as v = Some x))"

lemma reads_simps [simp]:
  "reads as_string String_type" "reads as_u32 U32_type" "reads as_u64 U64_type" "reads as_bool Bool_type"
  by (simp_all add: reads_def type_of_value_cases)

lemma option_at_Inr:
  assumes "conforms decls vm" "\<exists>d. (name, ty, Some d) \<in> set decls" "reads as ty"
  shows "\<exists>x. option_at as vm name = Inr x"
proof -
  from assms(2) obtain d where "(name, ty, Some d) \<in> set decls" ..
  then obtain v where v: "vm name = Some v" "type_of_value v = ty" by (rule conforms_has [OF assms(1)])
  with assms(3) obtain x where "as v = Some x" unfolding reads_def by blast
  with v show ?thesis by (simp add: option_at_def)
qed

lemma option_if_present_Inr:
  assumes "conforms decls vm" "\<exists>def. (name, ty, def) \<in> set decls" "reads as ty"
  shows "\<exists>x. option_if_present as vm name = Inr x"
proof (cases "vm name")
  case (Some v)
  with conforms_may_have [OF assms(1)] assms(2,3) obtain x where "as v = Some x" unfolding reads_def by blast
  with Some show ?thesis by (simp add: option_if_present_def option_at_def)
qed (simp add: option_if_present_def)

lemma conforms_append [simp]: "conforms (ds @ ds') vm \<longleftrightarrow> conforms ds vm \<and> conforms ds' vm"
  unfolding conforms_def set_append by blast

lemma sys_initialize_Inr:
  assumes "conforms sys_options vm"
  shows "\<exists>settings. sys_initialize vm = Inr settings"
proof -
  note at = option_at_Inr [OF assms]
  have "\<exists>x. option_at as_u32 vm ''verbosity'' = Inr x" "\<exists>x. option_at as_bool vm ''stdout'' = Inr x"
    "\<exists>x. option_at as_bool vm ''nocolor'' = Inr x" "\<exists>x. option_at as_string vm ''log-file'' = Inr x"
    using at [of "''verbosity''" U32_type as_u32] at [of "''stdout''" Bool_type as_bool] at [of "''nocolor''" Bool_type as_bool]
      at [of "''log-file''" String_type as_string] by (simp_all add: sys_options_def)
  then show ?thesis by (auto simp: sys_initialize_def)
qed

lemma engine_initialize_constructs:
  assumes "conforms engine_option_decls vm"
  shows "\<exists>dir opts. engine_initialize world vm a = engine_construct (world dir) opts a"
proof -
  note at = option_at_Inr [OF assms]
  have "\<exists>x. option_at as_string vm ''chain-data'' = Inr x" "\<exists>x. option_at as_string vm ''engine-port'' = Inr x"
    "\<exists>x. option_at as_u32 vm ''threads'' = Inr x" "\<exists>x. option_at as_u32 vm ''max-readers'' = Inr x"
    using at [of "''chain-data''" String_type as_string] at [of "''engine-port''" String_type as_string] at [of "''threads''" U32_type as_u32]
      at [of "''max-readers''" U32_type as_u32] by (simp_all add: engine_option_decls_def)
  moreover have "\<exists>x. option_if_present as_string vm ''genesis-json'' = Inr x"
    using option_if_present_Inr [OF assms, of "''genesis-json''" String_type as_string] by (simp add: engine_option_decls_def)
  ultimately show ?thesis unfolding engine_initialize_def by (elim exE) (simp, blast)
qed

lemma ship_read_options_Inr:
  assumes "conforms ship_option_decls vm"
  shows "\<exists>opts. ship_read_options vm = Inr opts"
proof -
  note at = option_at_Inr [OF assms] and pres = option_if_present_Inr [OF assms]
  have "\<exists>x. option_at as_string vm ''ship-endpoint'' = Inr x" "\<exists>x. option_at as_string vm ''ship-core-account'' = Inr x"
    using at [of "''ship-endpoint''" String_type as_string] at [of "''ship-core-account''" String_type as_string]
    by (simp_all add: ship_option_decls_def)
  moreover have "\<exists>x. option_if_present as_u64 vm ''ship-start-from-canonical-height'' = Inr x"
    "\<exists>x. option_if_present as_u32 vm ''ship-max-retry'' = Inr x"
    "\<exists>x. option_if_present as_u32 vm ''ship-delay-second'' = Inr x"
    using pres [of "''ship-start-from-canonical-height''" U64_type as_u64] pres [of "''ship-max-retry''" U32_type as_u32]
      pres [of "''ship-delay-second''" U32_type as_u32] by (simp_all add: ship_option_decls_def)
  ultimately show ?thesis by (auto simp: ship_read_options_def)
qed

lemma rpc_initialize_Inr:
  assumes "conforms (rpc_option_decls ep api) vm"
  shows "\<exists>settings. rpc_initialize level vm = Inr settings"
proof -
  note at = option_at_Inr [OF assms]
  have "\<exists>x. option_at as_string vm ''http-port'' = Inr x" "\<exists>x. option_at as_u32 vm ''rpc-threads'' = Inr x"
    "\<exists>x. option_at as_u32 vm ''rpc-max-readers'' = Inr x" "\<exists>x. option_at as_u64 vm ''rpc-quirk-flag'' = Inr x"
    "\<exists>x. option_at as_string vm ''eos-evm-node'' = Inr x" "\<exists>x. option_at as_string vm ''chaindata'' = Inr x"
    "\<exists>x. option_at as_string vm ''api-spec'' = Inr x"
    using at [of "''http-port''" String_type as_string] at [of "''rpc-threads''" U32_type as_u32] at [of "''rpc-max-readers''" U32_type as_u32]
      at [of "''rpc-quirk-flag''" U64_type as_u64] at [of "''eos-evm-node''" String_type as_string] at [of "''chaindata''" String_type as_string]
      at [of "''api-spec''" String_type as_string] by (simp_all add: rpc_option_decls_def)
  then show ?thesis by (auto simp: rpc_initialize_def)
qed

text \<open>
  C36: The options are read with the types they are declared with: on every result of the parser that
  has a value of the declared type for each option that is given or has a default, the
  initialisation of no plugin throws while it reads its options, in either program.
\<close>

theorem options_are_read_as_declared:
  assumes "conforms (sys_options @ engine_option_decls @ ship_option_decls) vm"
    and "conforms (sys_options @ rpc_option_decls ep api) vm'"
  shows "(\<exists>settings. sys_initialize vm = Inr settings) \<and>
    (\<exists>dir opts. engine_initialize world vm a = engine_construct (world dir) opts a) \<and>
    (\<exists>opts. ship_read_options vm = Inr opts) \<and>
    (\<exists>settings daemon. sys_initialize vm' = Inr settings \<and>
       rpc_initialize (get_verbosity settings) vm' = Inr daemon)"
  using assms sys_initialize_Inr engine_initialize_constructs [of vm world a] ship_read_options_Inr [of vm]
    rpc_initialize_Inr [of ep api vm'] by fastforce

lemma conforms_code: "conforms decls vm \<longleftrightarrow>
  list_all (\<lambda>(name, ty, def). case vm name of None \<Rightarrow> def = None | Some v \<Rightarrow> type_of_value v = ty) decls"
  by (simp add: conforms_def list_all_iff)

theorem options_are_read_as_declared_witness:
  "(\<exists>opts. ship_read_options (default_variables (sys_options @ engine_option_decls @ ship_option_decls)) = Inr opts) \<and>
   (\<exists>settings daemon. sys_initialize (default_variables (sys_options @ rpc_option_decls ''a'' ''b'')) = Inr settings \<and>
      rpc_initialize (get_verbosity settings) (default_variables (sys_options @ rpc_option_decls ''a'' ''b'')) = Inr daemon)"
proof -
  have "conforms (sys_options @ engine_option_decls @ ship_option_decls)
      (default_variables (sys_options @ engine_option_decls @ ship_option_decls))"
    "conforms (sys_options @ rpc_option_decls ''a'' ''b'')
      (default_variables (sys_options @ rpc_option_decls ''a'' ''b''))"
    unfolding conforms_code by code_simp+
  from options_are_read_as_declared [OF this] show ?thesis by blast
qed

text \<open>
  An exception of the standard library that is not a \<open>std::runtime_error\<close>, as a failed access to an
  optional or a variant is, ends the node without its message, which the RPC program logs.
\<close>

lemma node_main_hides_the_message:
  assumes "ap_initialize ap = Inr True" "ap_startup ap = None" "ap_exec ap = Some (Std_exception_thrown what)"
  shows "last (fst (node_main base_what ap v)) = Log_critical (''Error '' @ base_what) \<and>
    last (fst (rpc_main ap v)) = Log_critical what"
  using assms by (simp add: node_main_def rpc_main_def run_app_def)

text \<open>After an exception that is caught, both programs report success to their caller.\<close>

lemma caught_exceptions_exit_with_success:
  assumes "ap_initialize ap = Inr True" "ap_startup ap = None" "ap_exec ap = Some (Runtime_error_thrown what)"
  shows "snd (node_main base_what ap v) = Exit 0 \<and> snd (rpc_main ap v) = Exit 0"
  using assms by (simp add: node_main_def rpc_main_def run_app_def)

text \<open>The option that is to override the chain id is read by no part of the RPC program.\<close>

lemma rpc_chain_id_is_ignored:
  "rpc_initialize level (vm(''chain-id'' := v)) = rpc_initialize level vm"
  "sys_initialize (vm(''chain-id'' := v)) = sys_initialize vm"
  by (simp_all add: rpc_initialize_def sys_initialize_def option_at_def)

end
