(* ===== verification/Ship_Session.thy ===== *)
theory Ship_Session
  imports Ship_Connection Sample_Library
begin

text \<open>
  The properties of the connection to the state history plugin over every sequence of
  callbacks: how often it tries, when it gives up, where it resumes, and which blocks it
  publishes.
\<close>

section \<open>Counting attempts\<close>

text \<open>The connection attempts since the last block that was published.\<close>

fun attempts :: "ship_effect list \<Rightarrow> nat" where
  "attempts [] = 0"
| "attempts (e # es) =
     (if list_ex (\<lambda>x. case x of Publish_native _ \<Rightarrow> True | _ \<Rightarrow> False) es then attempts es
      else (case e of Async_resolve _ _ \<Rightarrow> Suc (attempts es) | _ \<Rightarrow> attempts es))"

definition publishes :: "ship_effect list \<Rightarrow> bool" where
  "publishes es = list_ex (\<lambda>x. case x of Publish_native _ \<Rightarrow> True | _ \<Rightarrow> False) es"

definition gave_up :: "ship_effect list \<Rightarrow> bool" where
  "gave_up es \<longleftrightarrow> Sys_error ''Max retry reached. No more reconnections.'' \<in> set es"

lemma publishes_simps [simp]:
  "publishes [] = False" "publishes (Publish_native b # es) = True"
  "publishes (Close # es) = publishes es" "publishes (Sleep d # es) = publishes es"
  "publishes (Async_resolve h p # es) = publishes es" "publishes (Connect # es) = publishes es"
  "publishes (Send_get_status # es) = publishes es" "publishes (Send_get_blocks n # es) = publishes es"
  "publishes (Async_read # es) = publishes es" "publishes (Sys_error m # es) = publishes es"
  "publishes (es @ es') = (publishes es \<or> publishes es')"
  by (simp_all add: publishes_def)

lemma attempts_Cons [simp]:
  "attempts (e # es) = (if publishes es then attempts es
      else (case e of Async_resolve _ _ \<Rightarrow> Suc (attempts es) | _ \<Rightarrow> attempts es))"
  by (simp add: publishes_def)

declare attempts.simps(2) [simp del]

lemma attempts_append:
  "attempts (es @ es') = (if publishes es' then attempts es' else attempts es + attempts es')"
  by (induction es) (auto split: ship_effect.splits)

text \<open>What a step does to the counter and the attempts: it resets, reconnects, gives up, or neither.\<close>

definition same_settings :: "receiver \<Rightarrow> receiver \<Rightarrow> bool" where
  "same_settings st st' \<longleftrightarrow>
     rc_stream st' = rc_stream st \<and> rc_host st' = rc_host st \<and> rc_port st' = rc_port st \<and>
     rc_core_account st' = rc_core_account st \<and> rc_delay_second st' = rc_delay_second st \<and>
     rc_max_retry st' = rc_max_retry st \<and>
     rc_start_from_canonical_height st' = rc_start_from_canonical_height st"

text \<open>The operations of which the completion, or the end of the application, is awaited next.\<close>

fun awaited :: "ship_effect \<Rightarrow> bool" where
  "awaited (Async_resolve h p) = True"
| "awaited Async_read = True"
| "awaited (Sys_error m) = True"
| "awaited e = False"

definition quiet :: "ship_effect list \<Rightarrow> bool" where
  "quiet es \<longleftrightarrow> \<not> publishes es \<and> attempts es = 0 \<and> \<not> gave_up es"

lemma quiet_simps [simp]:
  "quiet []" "quiet (Connect # es) = quiet es" "quiet (Send_get_status # es) = quiet es"
  "quiet (Send_get_blocks n # es) = quiet es" "quiet (Async_read # es) = quiet es"
  "quiet [Sys_error ''Unable to read canonical block'']"
  "quiet [Sys_error ''Start block not available in SHiP'']"
  "quiet [Sys_error ''Unable to generate native block'']"
  by (simp_all add: quiet_def gave_up_def)

text \<open>A step that resets the connection after some quiet effects.\<close>

definition resets :: "receiver \<Rightarrow> receiver \<Rightarrow> ship_effect list \<Rightarrow> bool" where
  "resets st st' es \<longleftrightarrow> (\<exists>pre post. quiet pre \<and> filter awaited pre = [] \<and>
     reset_connection st = (st', post) \<and> es = pre @ post)"

lemma resetsI: "quiet pre \<Longrightarrow> filter awaited pre = [] \<Longrightarrow> reset_connection st = (st', post) \<Longrightarrow> resets st st' (pre @ post)"
  by (auto simp: resets_def)

lemma resets_Cons: "quiet [e] \<Longrightarrow> \<not> awaited e \<Longrightarrow> resets st st' es \<Longrightarrow> resets st st' (e # es)"
proof -
  assume e: "quiet [e]" "\<not> awaited e" and "resets st st' es"
  then obtain pre post where p: "quiet pre" "filter awaited pre = []" "reset_connection st = (st', post)" "es = pre @ post"
    by (auto simp: resets_def)
  from e(1) p(1) have "quiet (e # pre)"
    by (cases e) (auto simp: quiet_def gave_up_def)
  with p e(2) show ?thesis using resetsI [of "e # pre"] by simp
qed

lemma resets_now: "reset_connection st = (st', es) \<Longrightarrow> resets st st' es"
  using resetsI [of "[]"] by simp

lemma sync_cases:
  assumes "sync E db n st = Inr (st', es)"
  shows "st' = st \<and> quiet es \<and> length (filter awaited es) = 1 \<or> resets st st' es"
proof -
  obtain st1 post where r: "reset_connection st = (st1, post)" by (cases "reset_connection st")
  have "resets st st1 (Send_get_status # post)" "resets st st1 (Send_get_status # Send_get_blocks (send_get_blocks_request k) # post)" for k
    by (intro resets_Cons resets_now r; simp)+
  note r = r this
  from assms obtain status where g: "get_status E n = Inr status" by (auto simp: sync_def res_simps)
  show ?thesis
  proof (cases status)
    case None
    with assms g r show ?thesis by (auto simp: sync_def)
  next
    case (Some first)
    show ?thesis
    proof (cases "start_point db st")
      case None
      with assms g Some show ?thesis by (auto simp: sync_def)
    next
      case (Some start)
      with assms g r \<open>status = Some first\<close> show ?thesis by (auto simp: sync_def split: if_splits)
    qed
  qed
qed

lemma on_resolved_cases:
  assumes "on_resolved E db ec n st = Inr (st', es)"
  shows "\<exists>a. st' = st\<lparr>rc_abi := a\<rparr> \<and> quiet es \<and> length (filter awaited es) = 1 \<or> resets (st\<lparr>rc_abi := a\<rparr>) st' es"
proof (cases "ec \<or> connect_stream n")
  case True
  obtain st1 post where r: "reset_connection st = (st1, post)" by (cases "reset_connection st")
  have "resets st st1 post" "resets st st1 (Connect # post)"
    by (intro resets_Cons resets_now r; simp)+
  with True assms r have "resets st st' es" by (auto simp: on_resolved_def split: if_splits)
  then have "resets (st\<lparr>rc_abi := rc_abi st\<rparr>) st' es" by simp
  then show ?thesis by blast
next
  case False
  with assms obtain a where "initial_read E n st = Inr (net_initial_read_fails n, st\<lparr>rc_abi := Some a\<rparr>)"
    by (auto simp: on_resolved_def initial_read_def res_simps)
  note i = this
  let ?st = "st\<lparr>rc_abi := Some a\<rparr>"
  show ?thesis
  proof (cases "net_initial_read_fails n")
    case True
    obtain st1 post where r: "reset_connection ?st = (st1, post)" by (cases "reset_connection ?st")
    have "resets ?st st1 (Connect # post)" by (intro resets_Cons resets_now r) simp_all
    with True False assms i r show ?thesis by (auto simp: on_resolved_def)
  next
    case ok: False
    with False assms i obtain es1 where s: "sync E db n ?st = Inr (st', es1)" "es = Connect # es1"
      by (auto simp: on_resolved_def res_simps)
    from sync_cases [OF s(1)] s(2) resets_Cons [of Connect ?st st' es1] show ?thesis by auto
  qed
qed

lemma on_read_cases:
  assumes "on_read E ec buff st = Inr (st', es)"
  shows "st' = st \<and> quiet es \<and> length (filter awaited es) = 1 \<or> resets st st' es \<or>
    (\<exists>b. st' = st\<lparr>rc_last_lib := nb_lib b, rc_last_block_num := nb_block_num b, rc_retry_count := 0\<rparr> \<and>
       es = [Publish_native b, Async_read])"
proof (cases ec)
  case True
  with assms have "reset_connection st = (st', es)" by (simp add: on_read_def)
  then show ?thesis using resets_now by blast
next
  case False
  with assms obtain r where r: "se_result E buff = Inr r" by (auto simp: on_read_def res_simps)
  with False assms obtain br where "r = Get_blocks_result br" by (cases r) (auto simp: on_read_def)
  with False assms r obtain block where "to_native (ship_lib.truncate E) (rc_core_account st) br = Inr block"
    "(case block of None \<Rightarrow> Inr (st, [Sys_error ''Unable to generate native block''])
      | Some b \<Rightarrow> Inr (st\<lparr>rc_last_lib := nb_lib b, rc_last_block_num := nb_block_num b,
          rc_retry_count := 0\<rparr>, [Publish_native b, Async_read])) = (Inr (st', es) :: (receiver \<times> ship_effect list) res)"
    by (auto simp: on_read_def res_simps)
  then show ?thesis by (cases block) auto
qed

lemma resets_effects:
  assumes "resets st st' es" "rc_stream st"
  shows "same_settings st st' \<and> length (filter awaited es) = 1 \<and>
    rc_retry_count st' = rc_retry_count st + 1 \<and> \<not> publishes es \<and>
    (if rc_retry_count st' > rc_max_retry st then attempts es = 0 \<and> gave_up es
     else attempts es = 1 \<and> \<not> gave_up es)"
proof -
  from assms(1) obtain pre post where p: "quiet pre" "filter awaited pre = []"
    "reset_connection st = (st', post)" "es = pre @ post"
    by (auto simp: resets_def)
  with assms(2) show ?thesis
    by (auto simp: reset_connection_def Let_def same_settings_def quiet_def gave_up_def attempts_append
        split: if_splits)
qed

text \<open>What a step does to the counter and the attempts.\<close>

lemma step_effects:
  assumes "ship_step E db ev st = Some (Inr (st', es))" "rc_stream st"
  shows "same_settings st st' \<and> length (filter awaited es) = 1 \<and>
    (rc_retry_count st' = rc_retry_count st \<and> quiet es \<or>
     rc_retry_count st' = 0 \<and> publishes es \<and> attempts es = 0 \<and> \<not> gave_up es \<or>
     rc_retry_count st' = rc_retry_count st + 1 \<and> \<not> publishes es \<and>
       (if rc_retry_count st' > rc_max_retry st then attempts es = 0 \<and> gave_up es
        else attempts es = 1 \<and> \<not> gave_up es))"
proof (cases ev)
  case (Resolved ec n)
  with assms(1) have "on_resolved E db ec n st = Inr (st', es)" by simp
  from on_resolved_cases [OF this] obtain a where
    "st' = st\<lparr>rc_abi := a\<rparr> \<and> quiet es \<and> length (filter awaited es) = 1 \<or>
      resets (st\<lparr>rc_abi := a\<rparr>) st' es" by blast
  then show ?thesis
  proof
    assume "resets (st\<lparr>rc_abi := a\<rparr>) st' es"
    from resets_effects [OF this] assms(2) show ?thesis by (simp add: same_settings_def)
  qed (simp add: same_settings_def)
next
  case (Read_done ec buff)
  with assms(1) have "on_read E ec buff st = Inr (st', es)" by simp
  from on_read_cases [OF this] show ?thesis
  proof (elim disjE)
    assume "resets st st' es"
    from resets_effects [OF this assms(2)] show ?thesis by simp
  qed (auto simp: same_settings_def gave_up_def)
qed

section \<open>The session invariant\<close>

text \<open>
  The state after the startup: the stream exists. The largest limit is excluded: the counter
  would wrap around to 0 before it exceeds it. The recorded effects: until the receiver gives up,
  the retry counter counts the attempts since the last published block, or since the first one
  when no block has been published.
\<close>

definition session_inv :: "u32 \<Rightarrow> receiver \<Rightarrow> bool" where
  "session_inv limit st \<longleftrightarrow> rc_stream st \<and> rc_max_retry st = limit \<and> limit < - 1"

definition session_recorded :: "receiver \<Rightarrow> ship_effect list \<Rightarrow> bool" where
  "session_recorded st h \<longleftrightarrow>
     attempts h + of_bool (publishes h) = Suc (min (unat (rc_retry_count st)) (unat (rc_max_retry st))) \<and>
     (gave_up h \<longleftrightarrow> rc_max_retry st < rc_retry_count st)"

text \<open>No callback is pending once the receiver has given up.\<close>

definition session_ok :: "receiver \<Rightarrow> ship_event \<Rightarrow> bool" where
  "session_ok st ev \<longleftrightarrow> rc_retry_count st \<le> rc_max_retry st"

lemma gave_up_append [simp]: "gave_up (es @ es') \<longleftrightarrow> gave_up es \<or> gave_up es'"
  by (auto simp: gave_up_def)

lemma unat_Suc_below:
  fixes x y :: u32
  assumes "x \<le> y" "y < - 1"
  shows "unat (x + 1) = Suc (unat x)"
proof -
  have "unat (- 1 :: u32) = 2 ^ 32 - 1" by (simp add: unsigned_minus_1_eq_mask mask_eq_exp_minus_1)
  with assms have "unat x + 1 < 2 ^ 32" unfolding word_le_nat_alt word_less_nat_alt by linarith
  then show ?thesis by (simp add: unat_word_ariths)
qed

lemma session_records:
  assumes "session_inv limit st" "session_recorded st h" "session_ok st ev"
    and step: "ship_step E db ev st = Some (Inr (st', es))"
  shows "session_recorded st' (h @ es)"
proof -
  have st: "rc_stream st" "rc_max_retry st < - 1" "rc_retry_count st \<le> rc_max_retry st"
    using assms(1,3) by (simp_all add: session_inv_def session_ok_def)
  have h: "attempts h + of_bool (publishes h) = Suc (unat (rc_retry_count st))" "\<not> gave_up h"
    using assms(2) st(3) by (auto simp: session_recorded_def word_le_nat_alt not_less)
  note suc = unat_Suc_below [OF st(3,2)]
  from step_effects [OF step st(1)] have max: "rc_max_retry st' = rc_max_retry st"
    and cases: "rc_retry_count st' = rc_retry_count st \<and> quiet es \<or>
     rc_retry_count st' = 0 \<and> publishes es \<and> attempts es = 0 \<and> \<not> gave_up es \<or>
     rc_retry_count st' = rc_retry_count st + 1 \<and> \<not> publishes es \<and>
       (if rc_retry_count st' > rc_max_retry st then attempts es = 0 \<and> gave_up es
        else attempts es = 1 \<and> \<not> gave_up es)"
    by (simp_all add: same_settings_def)
  from cases show ?thesis
  proof (elim disjE)
    assume "rc_retry_count st' = rc_retry_count st \<and> quiet es"
    then show ?thesis using h st(3) max
      by (simp add: session_recorded_def quiet_def attempts_append word_le_nat_alt not_less)
  next
    assume "rc_retry_count st' = 0 \<and> publishes es \<and> attempts es = 0 \<and> \<not> gave_up es"
    then show ?thesis using h(2) max by (simp add: session_recorded_def attempts_append)
  next
    assume r: "rc_retry_count st' = rc_retry_count st + 1 \<and> \<not> publishes es \<and>
       (if rc_retry_count st' > rc_max_retry st then attempts es = 0 \<and> gave_up es
        else attempts es = 1 \<and> \<not> gave_up es)"
    show ?thesis
    proof (cases "rc_retry_count st' > rc_max_retry st")
      case True
      with r suc st(3) have "unat (rc_retry_count st) = unat (rc_max_retry st)"
        by (auto simp: word_le_nat_alt word_less_nat_alt)
      with True r h suc max show ?thesis by (simp add: session_recorded_def attempts_append)
    next
      case False
      with r h suc max show ?thesis
        by (simp add: session_recorded_def attempts_append word_less_nat_alt not_less)
    qed
  qed
qed

interpretation session: recording_handler "ship_step E db" session_ok "session_inv limit" session_recorded
  for E :: "('def, 'more) ship_env_scheme" and db :: "'tx chaindata" and limit
proof
  fix st st' and ev :: ship_event and es h
  show "session_inv limit st'" if "session_inv limit st" "ship_step E db ev st = Some (Inr (st', es))"
    using step_effects [OF that(2)] that(1) by (simp add: session_inv_def same_settings_def)
  show "ship_step E db ev st \<noteq> None" by (cases ev) simp_all
  show "session_recorded st' (h @ es)" if "session_inv limit st" "session_recorded st h" "session_ok st ev"
    "ship_step E db ev st = Some (Inr (st', es))"
    using session_records [OF that] .
qed

section \<open>Properties\<close>

lemma startup_session:
  assumes "ship_startup (ship_initialize S opts) = (st0, es0)" "so_max_retry opts \<noteq> Some (- 1)"
  shows "session_inv (case so_max_retry opts of None \<Rightarrow> 0 | Some r \<Rightarrow> r) st0 \<and> session_recorded st0 es0"
proof -
  let ?max = "case so_max_retry opts of None \<Rightarrow> 0 | Some r \<Rightarrow> r"
  from assms(1) have st0: "rc_stream st0" "rc_retry_count st0 = 0" "rc_max_retry st0 = ?max"
    and es0: "attempts es0 = 1" "\<not> publishes es0" "\<not> gave_up es0"
    by (auto simp: ship_startup_def ship_initialize_def receiver_init_def reset_connection_def Let_def
        gave_up_def)
  have "?max \<noteq> - 1" using assms(2) by (cases "so_max_retry opts") auto
  then have "?max < - 1" unfolding word_order.not_eq_extremum .
  with st0 es0 show ?thesis by (simp add: session_inv_def session_recorded_def)
qed

text \<open>
  C20: From the startup on, over every sequence of callbacks, the receiver tries to connect at most one
  time more than the configured number of retries without publishing a block in between, and it
  gives up, asking the application to quit, only after that many attempts.
\<close>

theorem retries_are_bounded:
  assumes "ship_startup (ship_initialize S opts) = (st0, es0)" "so_max_retry opts \<noteq> Some (- 1)"
    and "handled (ship_step E db) session_ok st0 evs es st"
  shows "let limit = (case so_max_retry opts of None \<Rightarrow> 0 | Some r \<Rightarrow> unat r) in
    attempts (es0 @ es) \<le> Suc limit \<and>
    (gave_up (es0 @ es) \<longrightarrow> attempts (es0 @ es) + of_bool (publishes (es0 @ es)) = Suc limit)"
proof -
  note start = startup_session [OF assms(1,2)]
  let ?limit = "case so_max_retry opts of None \<Rightarrow> 0 | Some r \<Rightarrow> r"
  from start have "session_inv ?limit st" "session_recorded st (es0 @ es)"
    using session.handled_inv [OF assms(3)] session.handled_recorded [OF assms(3)] by blast+
  then show ?thesis
    by (cases "so_max_retry opts") (auto simp: session_inv_def session_recorded_def word_less_nat_alt)
qed

text \<open>A sample environment: results are told apart by their length, any text is an ABI but the empty one.\<close>

definition sample_env :: "bytes ship_env" where
  "sample_env =
     \<lparr>sl_eosio_name = sl_eosio_name sample_ship, sl_default_checksum = sl_default_checksum sample_ship,
      sl_varuint32 = sl_varuint32 sample_ship, sl_trace = sl_trace sample_ship,
      sl_signed_block_time = sl_signed_block_time sample_ship,
      se_result = (\<lambda>bs. case bs of
          [t, n] \<Rightarrow> Inr (Get_status_result (ucast n))
        | [t, n, l] \<Rightarrow> Inr (Get_blocks_result
            (sample_result\<lparr>br_this_block := Some \<lparr>bp_block_num = ucast n, bp_block_id = [n]\<rparr>,
               br_last_irreversible := \<lparr>bp_block_num = ucast l, bp_block_id = [l]\<rparr>\<rparr>))
        | _ \<Rightarrow> Inl (External_exception ''stream error'')),
      se_abi_from_json = (\<lambda>bs. if bs = [] then Inl (External_exception ''expected object'') else Inr bs),
      se_abi_convert = (\<lambda>_. Inr \<lparr>abi_types = Map.empty\<rparr>)\<rparr>"

definition sample_net :: net where
  "sample_net = \<lparr>net_connect_fails = False, net_handshake_fails = False, net_initial_read_fails = False,
     net_initial_message = [123, 125], net_send_status_fails = False, net_read_status_fails = False,
     net_status_message = [0, 2], net_send_blocks_fails = False\<rparr>"

definition sample_options :: ship_options where
  "sample_options = default_ship_options\<lparr>so_max_retry := Some 1\<rparr>"

definition sample_receiver :: receiver where
  "sample_receiver = fst (ship_startup (ship_initialize sample_ship sample_options))"

text \<open>A connection, one block, a failed read and two failed attempts.\<close>

definition sample_events :: "ship_event list" where
  "sample_events = [Resolved False sample_net, Read_done False [1, 12, 11], Read_done True [],
     Resolved True sample_net]"

theorem retries_are_bounded_witness:
  "\<exists>st es. handled (ship_step sample_env sample_chain_db) session_ok sample_receiver sample_events es st \<and>
     gave_up es \<and> attempts (snd (ship_startup (ship_initialize sample_ship sample_options)) @ es) \<le> 2"
proof -
  have "(case run_handler (ship_step sample_env sample_chain_db) session_ok sample_receiver sample_events of
      Some (st, es) \<Rightarrow> list_ex (\<lambda>e. e = Sys_error ''Max retry reached. No more reconnections.'') es | None \<Rightarrow> False)"
    by code_simp
  then obtain st es where run: "run_handler (ship_step sample_env sample_chain_db) session_ok sample_receiver sample_events = Some (st, es)"
    "gave_up es" by (auto simp: gave_up_def list_ex_iff split: option.splits)
  have start: "ship_startup (ship_initialize sample_ship sample_options) =
      (sample_receiver, snd (ship_startup (ship_initialize sample_ship sample_options)))"
    by (simp add: sample_receiver_def)
  have max: "so_max_retry sample_options = Some 1" by (simp add: sample_options_def default_ship_options_def)
  then have "so_max_retry sample_options \<noteq> Some (- 1)" by simp
  note b = retries_are_bounded [OF start this run_handler_handled [OF run(1)], unfolded max Let_def option.case]
  have "Suc (unat (1 :: u32)) = 2" by simp
  with conjunct1 [OF b] have "attempts (snd (ship_startup (ship_initialize sample_ship sample_options)) @ es) \<le> 2"
    by (simp only:)
  with run_handler_handled [OF run(1)] run(2) show ?thesis by blast
qed

text \<open>
  C35: Every callback that returns issues exactly one operation whose completion is awaited, or asks the
  application to quit: the receiver neither stalls nor ever has two reads pending.
\<close>

theorem one_operation_pending:
  assumes "ship_step E db ev st = Some (Inr (st', es))" "rc_stream st"
  shows "length (filter awaited es) = 1 \<and> rc_stream st'"
  using step_effects [OF assms] assms(2) by (simp add: same_settings_def)

theorem one_operation_pending_witness:
  "\<exists>st' es. ship_step sample_env sample_chain_db (Resolved False sample_net) sample_receiver = Some (Inr (st', es)) \<and>
     length (filter awaited es) = 1"
proof -
  have "(case ship_step sample_env sample_chain_db (Resolved False sample_net) sample_receiver of
      Some (Inr r) \<Rightarrow> True | _ \<Rightarrow> False)" by code_simp
  then obtain st' es where "ship_step sample_env sample_chain_db (Resolved False sample_net) sample_receiver = Some (Inr (st', es))"
    by (auto split: option.splits sum.splits)
  moreover have "rc_stream sample_receiver" by code_simp
  ultimately show ?thesis using one_operation_pending by blast
qed

section \<open>Where the receiver resumes\<close>

text \<open>The blocks among the effects, and what the receiver remembers of the last of them.\<close>

definition native_published :: "ship_effect list \<Rightarrow> native_block list" where
  "native_published es = concat (map (\<lambda>e. case e of Publish_native b \<Rightarrow> [b] | _ \<Rightarrow> []) es)"

lemma native_published_simps [simp]:
  "native_published [] = []" "native_published (es @ es') = native_published es @ native_published es'"
  "native_published (e # es) = (case e of Publish_native b \<Rightarrow> [b] | _ \<Rightarrow> []) @ native_published es"
  by (simp_all add: native_published_def)

lemma not_publishes: "\<not> publishes es \<Longrightarrow> native_published es = []"
  by (induction es) (auto simp: publishes_def split: ship_effect.splits)

definition remembers :: "receiver \<Rightarrow> ship_effect list \<Rightarrow> bool" where
  "remembers st es \<longleftrightarrow>
     (case rev (native_published es) of
        [] \<Rightarrow> rc_last_lib st = 0 \<and> rc_last_block_num st = 0
      | b # _ \<Rightarrow> rc_last_lib st = nb_lib b \<and> rc_last_block_num st = nb_block_num b)"

lemma resets_positions:
  assumes "resets st st' es"
  shows "rc_last_lib st' = rc_last_lib st \<and> rc_last_block_num st' = rc_last_block_num st \<and> native_published es = []"
proof -
  from assms obtain pre post where p: "quiet pre" "reset_connection st = (st', post)" "es = pre @ post"
    by (auto simp: resets_def)
  then show ?thesis using not_publishes [of pre]
    by (auto simp: reset_connection_def Let_def quiet_def split: if_splits)
qed

lemma step_positions:
  assumes "ship_step E db ev st = Some (Inr (st', es))"
  shows "rc_last_lib st' = rc_last_lib st \<and> rc_last_block_num st' = rc_last_block_num st \<and> native_published es = [] \<or>
    (\<exists>b. rc_last_lib st' = nb_lib b \<and> rc_last_block_num st' = nb_block_num b \<and> native_published es = [b])"
proof (cases ev)
  case (Resolved ec n)
  with assms have "on_resolved E db ec n st = Inr (st', es)" by simp
  from on_resolved_cases [OF this] obtain a where
    "st' = st\<lparr>rc_abi := a\<rparr> \<and> quiet es \<or> resets (st\<lparr>rc_abi := a\<rparr>) st' es" by blast
  then show ?thesis using resets_positions [of "st\<lparr>rc_abi := a\<rparr>" st' es]
    by (auto simp: quiet_def not_publishes)
next
  case (Read_done ec buff)
  with assms have "on_read E ec buff st = Inr (st', es)" by simp
  from on_read_cases [OF this] resets_positions [of st st' es] show ?thesis
    by (auto simp: quiet_def not_publishes)
qed

interpretation bookkeeping: recording_handler "ship_step E db" session_ok "\<lambda>_. True" remembers
  for E :: "('def, 'more) ship_env_scheme" and db :: "'tx chaindata"
proof
  fix st st' and ev :: ship_event and es h
  show "ship_step E db ev st \<noteq> None" by (cases ev) simp_all
  show "remembers st' (h @ es)" if "remembers st h" "ship_step E db ev st = Some (Inr (st', es))"
    using step_positions [OF that(2)] that(1)
    by (cases "rev (native_published h)") (auto simp: remembers_def)
qed

lemma on_resolved_requests:
  assumes "on_resolved E db ec n st = Inr (st', es)" "Send_get_blocks (send_get_blocks_request k) \<in> set es"
  shows "start_point db st = Some k"
proof -
  have reset: "Send_get_blocks (send_get_blocks_request k) \<notin> set post" if "reset_connection st1 = (st2, post)" for st1 st2 post
    using that by (auto simp: reset_connection_def Let_def split: if_splits)
  have abi: "start_point db (st1\<lparr>rc_abi := a\<rparr>) = start_point db st1" for st1 a
    by (simp add: start_point_def resume_point_def)
  have sync: "start_point db st1 = Some k" if s: "sync E db n st1 = Inr (st2, es2)" "Send_get_blocks (send_get_blocks_request k) \<in> set es2" for st1 st2 es2
  proof -
    obtain status where g: "get_status E n = Inr status" using s(1) by (auto simp: sync_def res_simps)
    show ?thesis
      using s g
      by (cases status; cases "start_point db st1"; cases "reset_connection st1")
        (auto simp: sync_def dest: reset split: if_splits)
  qed
  from assms show ?thesis
    by (cases "reset_connection st")
      (auto simp: on_resolved_def initial_read_def res_simps abi dest: sync reset split: if_splits prod.splits)
qed

text \<open>
  C21: Over every sequence of callbacks, a request for blocks starts right after the smaller of the
  number and the reported irreversible block of the last block published, when that block
  reported one, so no block after the irreversible one is skipped; before that it starts
  right after the native block of the block that \<open>load_head\<close> starts from.
\<close>

theorem resumes_after_irreversible:
  assumes "ship_startup (ship_initialize S opts) = (st0, es0)"
    and "handled (ship_step E db) session_ok st0 evs es st"
    and "ship_step E db (Resolved ec n) st = Some (Inr (st', es'))" "Send_get_blocks (send_get_blocks_request k) \<in> set es'"
  shows "case rev (native_published es) of
      b # _ \<Rightarrow> 0 < nb_lib b \<longrightarrow> k = min (nb_lib b) (nb_block_num b) + 1
    | [] \<Rightarrow> (\<exists>b. get_canonical_block_at_height db (so_start_from_canonical_height opts) = Some b \<and>
        k = to_block_num (hd_prev_randao (blk_header b)) + 1)"
proof -
  have st0: "remembers st0 []" "rc_start_from_canonical_height st0 = so_start_from_canonical_height opts"
    "rc_stream st0"
    using assms(1) by (auto simp: remembers_def ship_startup_def ship_initialize_def receiver_init_def
        reset_connection_def Let_def)
  have "remembers st ([] @ es)" using bookkeeping.handled_recorded [OF assms(2) _ st0(1)] by simp
  moreover have "rc_start_from_canonical_height st = so_start_from_canonical_height opts \<and> rc_stream st"
    using assms(2)
  proof (induction rule: handled.induct)
    case (handled_step evs es s1 ev s2 es')
    with step_effects [OF handled_step.hyps(3)] show ?case by (simp add: same_settings_def)
  qed (simp add: st0)
  moreover have "start_point db st = Some k"
    using assms(3,4) on_resolved_requests [of E db ec n st st' es' k] by simp
  ultimately show ?thesis
    by (cases "rev (native_published es)")
      (auto simp: remembers_def start_point_def resume_point_def min_def split: option.splits if_splits)
qed

theorem resumes_after_irreversible_witness:
  "\<exists>st es st' es'. handled (ship_step sample_env sample_chain_db) session_ok sample_receiver
       [Resolved False sample_net, Read_done False [1, 12, 11], Read_done True []] es st \<and>
     ship_step sample_env sample_chain_db (Resolved False sample_net) st = Some (Inr (st', es')) \<and>
     Send_get_blocks (send_get_blocks_request 12) \<in> set es' \<and> (case rev (native_published es) of b # _ \<Rightarrow> 12 = min (nb_lib b) (nb_block_num b) + 1 | [] \<Rightarrow> False)"
proof -
  let ?evs = "[Resolved False sample_net, Read_done False [1, 12, 11], Read_done True []]"
  have "(case run_handler (ship_step sample_env sample_chain_db) session_ok sample_receiver ?evs of
      Some (st, es) \<Rightarrow>
        (case ship_step sample_env sample_chain_db (Resolved False sample_net) st of
           Some (Inr (st', es')) \<Rightarrow> list_ex (\<lambda>e. e = Send_get_blocks (send_get_blocks_request 12)) es' \<and>
             (case rev (native_published es) of b # _ \<Rightarrow> 0 < nb_lib b | [] \<Rightarrow> False)
         | _ \<Rightarrow> False)
    | None \<Rightarrow> False)" by code_simp
  then obtain st es where run: "run_handler (ship_step sample_env sample_chain_db) session_ok sample_receiver ?evs = Some (st, es)"
    and next_step: "case ship_step sample_env sample_chain_db (Resolved False sample_net) st of
           Some (Inr (st', es')) \<Rightarrow> list_ex (\<lambda>e. e = Send_get_blocks (send_get_blocks_request 12)) es' \<and>
             (case rev (native_published es) of b # _ \<Rightarrow> 0 < nb_lib b | [] \<Rightarrow> False)
         | _ \<Rightarrow> False"
    by (auto simp del: run_handler.simps ship_step.simps split: option.splits)
  from next_step obtain st' es' where s: "ship_step sample_env sample_chain_db (Resolved False sample_net) st = Some (Inr (st', es'))"
    "Send_get_blocks (send_get_blocks_request 12) \<in> set es'" "case rev (native_published es) of b # _ \<Rightarrow> 0 < nb_lib b | [] \<Rightarrow> False"
    by (cases "ship_step sample_env sample_chain_db (Resolved False sample_net) st";
        cases "the (ship_step sample_env sample_chain_db (Resolved False sample_net) st)")
      (auto simp: list_ex_iff simp del: ship_step.simps)
  have start: "ship_startup (ship_initialize sample_ship sample_options) =
      (sample_receiver, snd (ship_startup (ship_initialize sample_ship sample_options)))"
    by (simp add: sample_receiver_def)
  note h = run_handler_handled [OF run]
  have "case rev (native_published es) of b # _ \<Rightarrow> 12 = min (nb_lib b) (nb_block_num b) + 1 | [] \<Rightarrow> False"
    using resumes_after_irreversible [OF start h s(1,2)] s(3) by (auto split: list.splits)
  with h s(1,2) show ?thesis by blast
qed

text \<open>
  A failed first read is meant to lead to a reconnection, like the other failures, but what was
  read is loaded as an ABI first: when that fails, as on an empty message, the exception leaves
  the callback instead.
\<close>

theorem failed_first_read_escapes:
  assumes "\<not> connect_stream n" "net_initial_read_fails n" "0 \<notin> set (net_initial_message n)"
    and "se_abi_from_json E (net_initial_message n) = Inl e"
  shows "ship_step E db (Resolved False n) st = Some (Inl e)"
  using assms by (simp add: on_resolved_def initial_read_def load_abi_def c_string_terminated)

theorem failed_first_read_escapes_witness:
  "ship_step sample_env sample_chain_db
     (Resolved False (sample_net\<lparr>net_initial_read_fails := True, net_initial_message := []\<rparr>)) sample_receiver =
   Some (Inl (External_exception ''expected object''))"
  by (rule failed_first_read_escapes) (simp_all add: sample_net_def connect_stream_def sample_env_def)

end
