(* ===== verification/Blockchain.thy ===== *)
theory Blockchain
  imports Sample_Library Node_Handlers
begin

text \<open>
  \<open>src/src/blockchain_plugin.cpp\<close>: the subscriber of the EVM block channel. It opens the
  execution engine when the first block arrives, inserts every block, and has the chain verified
  up to the block when the block is reversible or enough irreversible ones have come in. The
  execution engine is a parameter: what a call does to it, and whether it throws.
\<close>

section \<open>The execution engine\<close>

datatype 'tx exec_call =
    Open_engine
  | Insert_block "'tx block"
  | Write_lib_processed u64
  | Verify_chain bytes32
  | Stop_engine
  | Close_engine

text \<open>What the three \<open>catch\<close> clauses tell apart.\<close>

datatype exec_exn =
    Mdbx_exception string
  | Std_exception string
  | Unknown_exception

record ('tx, 'x) exec_lib =
  xl_construct :: "exec_exn + 'x"
  xl_call :: "'tx exec_call \<Rightarrow> 'x \<Rightarrow> 'x \<times> exec_exn option"
  xl_header_hash :: "header \<Rightarrow> bytes32"

section \<open>State\<close>

text \<open>
  \<open>exec_engine\<close> is null until the first block; \<open>block_count\<close> is the static variable of the handler.
\<close>

record 'x chain =
  ch_exec_engine :: "'x option"
  ch_block_count :: u64

definition chain_init :: "'x chain" where
  "chain_init = \<lparr>ch_exec_engine = None, ch_block_count = 0\<rparr>"

text \<open>The calls made to the engine, whether they throw or not, and the requests to quit.\<close>

datatype 'tx chain_effect =
    Exec "'tx exec_call"
  | Chain_error string

section \<open>Statements that may throw\<close>

text \<open>
  The state and the effects up to the end of the statement or to the exception it throws;
  undefined behaviour is an error of its own, which no \<open>catch\<close> clause sees.
\<close>

type_synonym ('tx, 'x) attempt = "('x chain \<times> 'tx chain_effect list \<times> exec_exn option) res"

definition attempt_then ::
  "('tx, 'x) attempt \<Rightarrow> ('x chain \<Rightarrow> ('tx, 'x) attempt) \<Rightarrow> ('tx, 'x) attempt" where
  "attempt_then r f =
     rbind r (\<lambda>(st, es, x).
       case x of
         Some exn \<Rightarrow> Inr (st, es, Some exn)
       | None \<Rightarrow> rbind (f st) (\<lambda>(st', es', x'). Inr (st', es @ es', x')))"

definition call_engine ::
  "('tx, 'x) exec_lib \<Rightarrow> 'tx exec_call \<Rightarrow> 'x chain \<Rightarrow> ('tx, 'x) attempt" where
  "call_engine X c st =
     rbind (deref ''exec_engine is null'' (ch_exec_engine st)) (\<lambda>e.
       case xl_call X c e of (e', x) \<Rightarrow> Inr (st\<lparr>ch_exec_engine := Some e'\<rparr>, [Exec c], x))"

section \<open>The handler\<close>

definition open_engine :: "('tx, 'x) exec_lib \<Rightarrow> 'x chain \<Rightarrow> ('tx, 'x) attempt" where
  "open_engine X st =
     (case ch_exec_engine st of
        Some e \<Rightarrow> Inr (st, [], None)
      | None \<Rightarrow>
          (case xl_construct X of
             Inl x \<Rightarrow> Inr (st, [], Some x)
           | Inr e \<Rightarrow> call_engine X Open_engine (st\<lparr>ch_exec_engine := Some e\<rparr>)))"

text \<open>
  The branch that stores the height and verifies the chain: after the counter has reached a
  multiple of 5000, or on a reversible block. \<open>cv\<close> is the state of the block conversion that
  \<open>get_evm_lib\<close> reads.
\<close>

definition verify_due :: "'tx block \<Rightarrow> u64 \<Rightarrow> bool" where
  "verify_due new_block block_count \<longleftrightarrow>
     \<not> (block_count mod 5000 \<noteq> 0) \<or> \<not> blk_irreversible new_block"

definition store_and_verify ::
  "('tx, 'x) exec_lib \<Rightarrow> 'tx conv \<Rightarrow> 'tx block \<Rightarrow> 'x chain \<Rightarrow> ('tx, 'x) attempt" where
  "store_and_verify X cv new_block st =
     rbind (get_evm_lib cv) (\<lambda>evm_lib.
       attempt_then (call_engine X (Write_lib_processed evm_lib) st) (\<lambda>st.
       attempt_then (call_engine X (Verify_chain (xl_header_hash X (blk_header new_block))) st) (\<lambda>st.
         Inr (st\<lparr>ch_block_count := 0\<rparr>, [], None))))"

text \<open>The \<open>try\<close> block.\<close>

definition process_evm_block ::
  "('tx, 'x) exec_lib \<Rightarrow> 'tx conv \<Rightarrow> 'tx block \<Rightarrow> 'x chain \<Rightarrow> ('tx, 'x) attempt" where
  "process_evm_block X cv new_block st =
     attempt_then (open_engine X st) (\<lambda>st.
     attempt_then (call_engine X (Insert_block new_block) st) (\<lambda>st.
       let st = st\<lparr>ch_block_count := ch_block_count st + 1\<rparr> in
       if verify_due new_block (ch_block_count st) then store_and_verify X cv new_block st
       else Inr (st, [], None)))"

fun error_message :: "exec_exn \<Rightarrow> string" where
  "error_message (Mdbx_exception what) = ''evm_blocks_subscription: mdbx::exception, '' @ what"
| "error_message (Std_exception what) = ''evm_blocks_subscription: std::exception:'' @ what"
| "error_message Unknown_exception = ''evm_blocks_subscription: unknown exception''"

definition on_evm_block ::
  "('tx, 'x) exec_lib \<Rightarrow> 'tx conv \<Rightarrow> 'tx block \<Rightarrow> 'x chain \<Rightarrow> ('x chain \<times> 'tx chain_effect list) res" where
  "on_evm_block X cv new_block st =
     rbind (process_evm_block X cv new_block st) (\<lambda>(st', es, x).
       Inr (st', case x of None \<Rightarrow> es | Some exn \<Rightarrow> es @ [Chain_error (error_message exn)]))"

text \<open>\<open>get_tx\<close>, which the block conversion calls on a change of the configuration.\<close>

definition get_tx :: "'x chain \<Rightarrow> 'x res" where
  "get_tx st = deref ''exec_engine is null'' (ch_exec_engine st)"

text \<open>\<open>shutdown\<close>: an exception of \<open>stop\<close> leaves it before \<open>close\<close>.\<close>

definition chain_shutdown :: "('tx, 'x) exec_lib \<Rightarrow> 'x chain \<Rightarrow> ('tx, 'x) attempt" where
  "chain_shutdown X st = attempt_then (call_engine X Stop_engine st) (call_engine X Close_engine)"

section \<open>The effects of a call\<close>

definition calls :: "'tx chain_effect list \<Rightarrow> 'tx exec_call list" where
  "calls es = concat (map (\<lambda>e. case e of Exec c \<Rightarrow> [c] | _ \<Rightarrow> []) es)"

definition failed :: "'tx chain_effect list \<Rightarrow> bool" where
  "failed es = list_ex (\<lambda>e. case e of Chain_error _ \<Rightarrow> True | _ \<Rightarrow> False) es"

lemma effect_simps [simp]:
  "calls [] = []" "calls (Exec c # es) = c # calls es" "calls (Chain_error m # es) = calls es"
  "calls (es @ es') = calls es @ calls es'"
  "\<not> failed []" "failed (Exec c # es) = failed es" "failed (Chain_error m # es)"
  "failed (es @ es') = (failed es \<or> failed es')"
  by (simp_all add: calls_def failed_def)

text \<open>The calls a block leads to when nothing throws.\<close>

definition open_calls :: "'x chain \<Rightarrow> 'tx exec_call list" where
  "open_calls st = (if ch_exec_engine st = None then [Open_engine] else [])"

definition verify_calls :: "('tx, 'x) exec_lib \<Rightarrow> 'tx conv \<Rightarrow> 'tx block \<Rightarrow> u64 \<Rightarrow> 'tx exec_call list" where
  "verify_calls X cv b n =
     (if verify_due b n
      then (case cv_evm_lib cv of None \<Rightarrow> [] | Some lib \<Rightarrow> [Write_lib_processed lib])
        @ [Verify_chain (xl_header_hash X (blk_header b))]
      else [])"

lemma call_engine_Inr:
  "call_engine X c st = Inr (st', es, x) \<longleftrightarrow>
   (\<exists>e e'. ch_exec_engine st = Some e \<and> xl_call X c e = (e', x) \<and>
      st' = st\<lparr>ch_exec_engine := Some e'\<rparr> \<and> es = [Exec c])"
  by (auto simp: call_engine_def deref_def split: option.splits prod.splits)

text \<open>An open engine is called, so only the missing height can be undefined.\<close>

lemma attempt_then_Inr:
  "attempt_then r f = Inr (st', es, x) \<longleftrightarrow>
   (\<exists>st1 es1 x1. r = Inr (st1, es1, x1) \<and>
      (case x1 of Some exn \<Rightarrow> st' = st1 \<and> es = es1 \<and> x = Some exn
       | None \<Rightarrow> \<exists>es2. f st1 = Inr (st', es2, x) \<and> es = es1 @ es2))"
  by (auto simp: attempt_then_def res_simps split: option.splits)

lemma open_engine_Inr:
  assumes "open_engine X st = Inr (st', es, x)"
  shows "ch_block_count st' = ch_block_count st \<and> \<not> failed es \<and>
    (\<exists>r. open_calls st = calls es @ r \<and> (x = None \<longrightarrow> r = [] \<and> ch_exec_engine st' \<noteq> None))"
  using assms
  by (auto simp: open_engine_def open_calls_def call_engine_Inr split: option.splits sum.splits)

lemma store_and_verify_Inr:
  assumes "store_and_verify X cv b st = Inr (st', es, x)" "verify_due b (ch_block_count st)"
  shows "\<not> failed es \<and> (\<exists>r. verify_calls X cv b (ch_block_count st) = calls es @ r \<and>
    (x = None \<longrightarrow> r = [] \<and> ch_block_count st' = 0))"
proof -
  obtain lib where lib: "cv_evm_lib cv = Some lib"
    using assms(1) by (cases "cv_evm_lib cv") (auto simp: store_and_verify_def get_evm_lib_def deref_def)
  with assms show ?thesis
    by (auto simp: store_and_verify_def get_evm_lib_def deref_def attempt_then_Inr call_engine_Inr
        verify_calls_def split: option.splits)
qed

text \<open>
  The calls of one step are a prefix of: open, insert, and, when due, write the height and verify;
  the whole of it when nothing throws. A step that is cut short asks the application to quit.
\<close>

lemma on_evm_block_calls:
  assumes "on_evm_block X cv b st = Inr (st', es)"
  shows "\<exists>r. open_calls st @ [Insert_block b] @ verify_calls X cv b (ch_block_count st + 1) = calls es @ r \<and>
    (failed es \<or> r = [] \<and> ch_block_count st' =
      (if verify_due b (ch_block_count st + 1) then 0 else ch_block_count st + 1))"
proof -
  from assms obtain es1 x where p: "process_evm_block X cv b st = Inr (st', es1, x)"
    and es: "es = (case x of None \<Rightarrow> es1 | Some exn \<Rightarrow> es1 @ [Chain_error (error_message exn)])"
    by (auto simp: on_evm_block_def res_simps)
  from p obtain st1 es2 x2 where o: "open_engine X st = Inr (st1, es2, x2)"
    and rest: "case x2 of Some exn \<Rightarrow> st' = st1 \<and> es1 = es2 \<and> x = Some exn
       | None \<Rightarrow> \<exists>es3. attempt_then (call_engine X (Insert_block b) st1) (\<lambda>st.
         let st = st\<lparr>ch_block_count := ch_block_count st + 1\<rparr> in
         if verify_due b (ch_block_count st) then store_and_verify X cv b st
         else Inr (st, [], None)) = Inr (st', es3, x) \<and> es1 = es2 @ es3"
    unfolding process_evm_block_def attempt_then_Inr by blast
  note opened = open_engine_Inr [OF o]
  show ?thesis
  proof (cases x2)
    case (Some exn)
    with rest es opened show ?thesis by auto
  next
    case None
    with rest opened obtain es3 where es3: "attempt_then (call_engine X (Insert_block b) st1) (\<lambda>st.
         let st = st\<lparr>ch_block_count := ch_block_count st + 1\<rparr> in
         if verify_due b (ch_block_count st) then store_and_verify X cv b st
         else Inr (st, [], None)) = Inr (st', es3, x)" "es1 = es2 @ es3"
      and o2: "open_calls st = calls es2" "\<not> failed es2" "ch_block_count st1 = ch_block_count st" by auto
    from es3(1) obtain st2 es4 x4 where i: "call_engine X (Insert_block b) st1 = Inr (st2, es4, x4)"
      and rest2: "case x4 of Some exn \<Rightarrow> st' = st2 \<and> es3 = es4 \<and> x = Some exn
       | None \<Rightarrow> \<exists>es5. (let st = st2\<lparr>ch_block_count := ch_block_count st2 + 1\<rparr> in
         if verify_due b (ch_block_count st) then store_and_verify X cv b st
         else Inr (st, [], None)) = Inr (st', es5, x) \<and> es3 = es4 @ es5"
      unfolding attempt_then_Inr by blast
    have st2: "es4 = [Exec (Insert_block b)]" "ch_block_count st2 = ch_block_count st"
      using i o2 by (auto simp: call_engine_Inr)
    show ?thesis
    proof (cases x4)
      case (Some exn)
      with rest2 es es3 st2 o2 show ?thesis by auto
    next
      case None
      let ?st = "st2\<lparr>ch_block_count := ch_block_count st2 + 1\<rparr>"
      from None rest2 obtain es5 where es5: "es3 = es4 @ es5"
        "(if verify_due b (ch_block_count ?st) then store_and_verify X cv b ?st else Inr (?st, [], None)) = Inr (st', es5, x)"
        by (auto simp: Let_def)
      show ?thesis
      proof (cases "verify_due b (ch_block_count st + 1)")
        case True
        with es5(2) st2(2) store_and_verify_Inr [of X cv b ?st st' es5 x] es es3(2) es5(1) st2 o2 show ?thesis
          by (cases x) auto
      next
        case False
        with es5 st2 es es3(2) o2 show ?thesis by (auto simp: verify_calls_def)
      qed
    qed
  qed
qed

section \<open>Histories\<close>

text \<open>An event is an EVM block, and the state of the block conversion when it is received.\<close>

definition chain_step ::
  "('tx, 'x) exec_lib \<Rightarrow> ('tx block \<times> 'tx conv, 'x chain, 'tx chain_effect) handler" where
  "chain_step X = (\<lambda>(b, cv) st. Some (on_evm_block X cv b st))"

text \<open>The blocks inserted since the last verification.\<close>

definition after_call :: "'tx exec_call \<Rightarrow> 'tx block list \<Rightarrow> 'tx block list" where
  "after_call c bs = (case c of Insert_block b \<Rightarrow> bs @ [b] | Verify_chain _ \<Rightarrow> [] | _ \<Rightarrow> bs)"

definition unverified :: "'tx exec_call list \<Rightarrow> 'tx block list" where
  "unverified cs = fold after_call cs []"

lemma unverified_append: "unverified (cs @ cs') = fold after_call cs' (unverified cs)"
  by (simp add: unverified_def)

lemma after_call_simps [simp]:
  "after_call Open_engine bs = bs" "after_call (Insert_block b) bs = bs @ [b]"
  "after_call (Write_lib_processed n) bs = bs" "after_call (Verify_chain x) bs = []"
  by (simp_all add: after_call_def)

definition batch_recorded :: "'x chain \<Rightarrow> 'tx chain_effect list \<Rightarrow> bool" where
  "batch_recorded st h \<longleftrightarrow> failed h \<or>
     (unat (ch_block_count st) = length (unverified (calls h)) \<and> length (unverified (calls h)) < 5000 \<and>
      (\<forall>b \<in> set (unverified (calls h)). blk_irreversible b))"

lemma batch_step:
  assumes rec: "batch_recorded st h" and on: "on_evm_block X cv b st = Inr (st', es)"
  shows "batch_recorded st' (h @ es)"
proof (cases "failed (h @ es)")
  case False
  let ?n = "ch_block_count st + 1"
  from on_evm_block_calls [OF on] False
  have c: "calls es = open_calls st @ [Insert_block b] @ verify_calls X cv b ?n"
    and st': "ch_block_count st' = (if verify_due b ?n then 0 else ?n)" by auto
  have open_calls: "fold after_call (open_calls st) bs = bs" for bs :: "'b block list"
    by (simp add: open_calls_def)
  have n: "unat (ch_block_count st) < 5000" and len: "unat (ch_block_count st) = length (unverified (calls h))"
    and irr: "\<forall>b \<in> set (unverified (calls h)). blk_irreversible b"
    using rec False by (auto simp: batch_recorded_def)
  then have suc: "unat ?n = Suc (unat (ch_block_count st))" by (simp add: unat_word_ariths)
  show ?thesis
  proof (cases "verify_due b ?n")
    case True
    then have "unverified (calls (h @ es)) = []"
      by (simp add: c unverified_append open_calls verify_calls_def split: option.splits)
    with True st' show ?thesis by (simp add: batch_recorded_def)
  next
    case no: False
    then have "?n mod 5000 \<noteq> 0" "blk_irreversible b" by (simp_all add: verify_due_def)
    from no have "unverified (calls (h @ es)) = unverified (calls h) @ [b]"
      by (simp add: c unverified_append open_calls verify_calls_def)
    moreover have "Suc (unat (ch_block_count st)) \<noteq> 5000"
    proof
      assume "Suc (unat (ch_block_count st)) = 5000"
      with suc have "?n = 5000" by (simp add: word_unat_eq_iff)
      with \<open>?n mod 5000 \<noteq> 0\<close> show False by simp
    qed
    ultimately show ?thesis using st' no suc n len irr \<open>blk_irreversible b\<close>
      by (simp add: batch_recorded_def)
  qed
qed (simp add: batch_recorded_def)

interpretation blockchain: recording_handler "chain_step X" "\<lambda>_ _. True" "\<lambda>_. True" batch_recorded
  for X :: "('tx, 'x) exec_lib"
proof
  fix st st' and e :: "'tx block \<times> 'tx conv" and es h
  show "chain_step X e st \<noteq> None" by (cases e) (simp add: chain_step_def)
  show "batch_recorded st' (h @ es)" if "batch_recorded st h" "chain_step X e st = Some (Inr (st', es))"
    using that batch_step by (cases e) (auto simp: chain_step_def)
qed simp

section \<open>No exception leaves the handler\<close>

lemma attempt_then_total:
  assumes "r = Inr (st1, es1, x1)" "x1 = None \<Longrightarrow> \<exists>st' es x. f st1 = Inr (st', es, x)"
  shows "\<exists>st' es x. attempt_then r f = Inr (st', es, x)"
  using assms by (cases x1) (auto simp: attempt_then_def)

lemma call_engine_total:
  assumes "ch_exec_engine st \<noteq> None"
  obtains st' es x where "call_engine X c st = Inr (st', es, x)" "ch_exec_engine st' \<noteq> None"
  using assms by (cases "xl_call X c (the (ch_exec_engine st))") (auto simp: call_engine_Inr)

lemma store_and_verify_total:
  assumes "ch_exec_engine st \<noteq> None" "cv_evm_lib cv \<noteq> None"
  shows "\<exists>st' es x. store_and_verify X cv b st = Inr (st', es, x)"
proof -
  obtain lib where lib: "get_evm_lib cv = Inr lib" using assms(2) by (auto simp: get_evm_lib_def deref_def)
  obtain st1 es1 x1 where 1: "call_engine X (Write_lib_processed lib) st = Inr (st1, es1, x1)" "ch_exec_engine st1 \<noteq> None"
    by (rule call_engine_total [OF assms(1)])
  obtain st2 es2 x2 where 2: "call_engine X (Verify_chain (xl_header_hash X (blk_header b))) st1 = Inr (st2, es2, x2)"
    by (rule call_engine_total [OF 1(2)])
  show ?thesis using lib by (auto simp: store_and_verify_def intro!: attempt_then_total [OF 1(1)] attempt_then_total [OF 2])
qed

lemma process_evm_block_total:
  assumes "cv_evm_lib cv \<noteq> None"
  shows "\<exists>st' es x. process_evm_block X cv b st = Inr (st', es, x)"
proof -
  have "\<exists>st1 es1 x1. open_engine X st = Inr (st1, es1, x1)"
    by (auto simp: open_engine_def call_engine_def split: option.splits sum.splits prod.splits)
  then obtain st1 es1 x1 where 1: "open_engine X st = Inr (st1, es1, x1)" by blast
  show ?thesis
    unfolding process_evm_block_def
  proof (rule attempt_then_total [OF 1])
    assume "x1 = None"
    with open_engine_Inr [OF 1] have e1: "ch_exec_engine st1 \<noteq> None" by blast
    obtain st2 es2 x2 where 2: "call_engine X (Insert_block b) st1 = Inr (st2, es2, x2)" "ch_exec_engine st2 \<noteq> None"
      by (rule call_engine_total [OF e1])
    let ?st = "st2\<lparr>ch_block_count := ch_block_count st2 + 1\<rparr>"
    have "\<exists>st' es x. store_and_verify X cv b ?st = Inr (st', es, x)"
      by (rule store_and_verify_total) (use 2 assms in simp_all)
    then show "\<exists>st' es x. attempt_then (call_engine X (Insert_block b) st1) (\<lambda>st.
       let st = st\<lparr>ch_block_count := ch_block_count st + 1\<rparr> in
       if verify_due b (ch_block_count st) then store_and_verify X cv b st else Inr (st, [], None)) = Inr (st', es, x)"
      by (intro attempt_then_total [OF 2(1)]) (auto simp: Let_def)
  qed
qed

section \<open>Properties\<close>

text \<open>
  C24: Once the block conversion knows an irreversible height, no exception leaves the handler, and its
  calls to the engine are: open it if it is not open, insert the block, and, on a reversible block
  or after 5000 irreversible ones, store that height before the chain is verified up to the
  block. When a call throws, the ones after it are left out and the application is asked to quit.
\<close>

theorem evm_block_is_inserted_and_verified:
  assumes "cv_evm_lib cv = Some lib"
  shows "\<exists>st' es r. on_evm_block X cv b st = Inr (st', es) \<and>
    (if ch_exec_engine st = None then [Open_engine] else []) @ [Insert_block b] @
      (if verify_due b (ch_block_count st + 1)
       then [Write_lib_processed lib, Verify_chain (xl_header_hash X (blk_header b))] else [])
      = calls es @ r \<and>
    (failed es \<or> r = [] \<and> ch_block_count st' =
      (if verify_due b (ch_block_count st + 1) then 0 else ch_block_count st + 1))"
proof -
  obtain st' es x where p: "process_evm_block X cv b st = Inr (st', es, x)"
    using process_evm_block_total assms by blast
  then obtain es' where on: "on_evm_block X cv b st = Inr (st', es')" by (simp add: on_evm_block_def)
  have v: "verify_calls X cv b n = (if verify_due b n
      then [Write_lib_processed lib, Verify_chain (xl_header_hash X (blk_header b))] else [])" for n
    by (simp add: verify_calls_def assms)
  from on_evm_block_calls [OF on, unfolded v open_calls_def] on show ?thesis by blast
qed

text \<open>A sample engine remembers its calls, and throws when it verifies a given hash.\<close>

definition sample_exec :: "(bytes, bytes exec_call list) exec_lib" where
  "sample_exec =
     \<lparr>xl_construct = Inr [],
      xl_call = (\<lambda>c cs. (cs @ [c], case c of Verify_chain x \<Rightarrow>
        (if x = [9] then Some (Std_exception ''invalid block'') else None) | _ \<Rightarrow> None)),
      xl_header_hash = (\<lambda>h. [ucast (hd_number h)])\<rparr>"

definition sample_evm_block :: "u64 \<Rightarrow> bool \<Rightarrow> bytes block" where
  "sample_evm_block n irr =
     empty_block\<lparr>blk_header := empty_header\<lparr>hd_number := n\<rparr>, blk_irreversible := irr\<rparr>"

definition sample_cv :: "bytes conv" where
  "sample_cv = sample_conv\<lparr>cv_evm_lib := Some 2\<rparr>"

theorem evm_block_is_inserted_and_verified_witness:
  "\<exists>st' es r. on_evm_block sample_exec sample_cv (sample_evm_block 9 False) chain_init = Inr (st', es) \<and>
     [Open_engine, Insert_block (sample_evm_block 9 False), Write_lib_processed 2, Verify_chain [9]] = calls es @ r"
proof -
  have cv: "cv_evm_lib sample_cv = Some 2" by (simp add: sample_cv_def)
  have e: "verify_due (sample_evm_block 9 False) (ch_block_count chain_init + 1) = True"
    "xl_header_hash sample_exec (blk_header (sample_evm_block 9 False)) = [9]"
    "(ch_exec_engine chain_init = (None :: bytes exec_call list option)) = True"
    by (simp_all add: verify_due_def sample_evm_block_def sample_exec_def chain_init_def empty_block_def)
  from evm_block_is_inserted_and_verified [OF cv, of sample_exec "sample_evm_block 9 False" chain_init,
      unfolded e if_True append_Cons append_Nil] show ?thesis by blast
qed

text \<open>
  C23: Over every history of EVM blocks, as long as no call has thrown, fewer than 5000 inserted blocks
  await verification, all of them irreversible: a reversible block is verified at once.
\<close>

theorem unverified_blocks_are_bounded:
  assumes "handled (chain_step X) (\<lambda>_ _. True) chain_init bs es st" "\<not> failed es"
  shows "length (unverified (calls es)) < 5000 \<and> (\<forall>b \<in> set (unverified (calls es)). blk_irreversible b)"
proof -
  have "batch_recorded st ([] @ es)"
    by (rule blockchain.handled_recorded [OF assms(1)])
      (simp_all add: batch_recorded_def chain_init_def unverified_def)
  with assms(2) show ?thesis by (simp add: batch_recorded_def)
qed

theorem unverified_blocks_are_bounded_witness:
  "\<exists>st es. handled (chain_step sample_exec) (\<lambda>_ _. True) chain_init
       [(sample_evm_block 3 False, sample_cv), (sample_evm_block 4 True, sample_cv)] es st \<and>
     unverified (calls es) = [sample_evm_block 4 True] \<and>
     (\<forall>b \<in> set (unverified (calls es)). blk_irreversible b)"
proof -
  let ?bs = "[(sample_evm_block 3 False, sample_cv), (sample_evm_block 4 True, sample_cv)]"
  have "(case run_handler (chain_step sample_exec) (\<lambda>_ _. True) chain_init ?bs of
      Some (st, es) \<Rightarrow> \<not> failed es \<and> unverified (calls es) = [sample_evm_block 4 True] | None \<Rightarrow> False)"
    by code_simp
  then obtain st es where run: "run_handler (chain_step sample_exec) (\<lambda>_ _. True) chain_init ?bs = Some (st, es)"
    "\<not> failed es" "unverified (calls es) = [sample_evm_block 4 True]"
    by (auto split: option.splits)
  note h = run_handler_handled [OF run(1)]
  from unverified_blocks_are_bounded [OF h run(2)] h run(3) show ?thesis by blast
qed

text \<open>
  A reversible block before any irreversible height is known: the height that is stored is a
  member that was never assigned.
\<close>

lemma unassigned_height_is_stored:
  assumes "cv_evm_lib cv = None" "\<not> blk_irreversible b" "ch_exec_engine st = Some e"
    and "xl_call X (Insert_block b) e = (e', None)"
  shows "on_evm_block X cv b st = Inl (Undefined_behaviour ''evm_lib_ read before it is assigned'')"
  using assms
  by (simp add: on_evm_block_def process_evm_block_def open_engine_def call_engine_def attempt_then_def
      deref_def verify_due_def store_and_verify_def get_evm_lib_def Let_def)

text \<open>Shutting down before the first EVM block has arrived dereferences a null pointer.\<close>

lemma shutdown_before_first_block:
  "chain_shutdown X chain_init = Inl (Undefined_behaviour ''exec_engine is null'')"
  by (simp add: chain_shutdown_def call_engine_def chain_init_def attempt_then_def deref_def)

end
