(* ===== verification/Node_Pipeline.thy ===== *)
theory Node_Pipeline
  imports Ship_Session Conversion_Refinement Blockchain
begin

text \<open>
  The plugins put together: the receiver publishes native blocks on one channel, the block
  conversion takes them from it and publishes EVM blocks on another, and the blockchain plugin
  takes those and drives the execution engine. A channel delivers in the order of publication;
  deliveries and network callbacks may interleave in any way.
\<close>

section \<open>The node\<close>

record ('tx, 'x) node =
  nd_receiver :: receiver
  nd_conv :: "'tx conv"
  nd_chain :: "'x chain"
  nd_native_queue :: "native_block list"
  nd_evm_queue :: "'tx block list"

text \<open>What happens next, and what the database holds when the handler reads it.\<close>

datatype 'tx node_event =
    Ship "'tx chaindata" ship_event
  | Native_delivery "'tx chaindata"
  | Evm_delivery

datatype 'tx node_effect =
    From_ship ship_effect
  | From_conv "'tx conv_effect"
  | From_chain "'tx chain_effect"

text \<open>
  The block conversion may write consensus parameters when the execution engine is open. An
  exception ends the history: the callback of the receiver leaves the main loop with it, and
  the dispatch policy of the channels asks the application to quit.
\<close>

fun node_step ::
  "'tx lib \<Rightarrow> ('def, 'more) ship_env_scheme \<Rightarrow> ('tx, 'x) exec_lib \<Rightarrow> 'tx node_event \<Rightarrow> ('tx, 'x) node
     \<Rightarrow> (('tx, 'x) node \<times> 'tx node_effect list) res option" where
  "node_step L E X (Ship db ev) nd =
     map_option (\<lambda>r. rbind r (\<lambda>(rc, es).
       Inr (nd\<lparr>nd_receiver := rc, nd_native_queue := nd_native_queue nd @ native_published es\<rparr>,
            map From_ship es)))
       (ship_step E db ev (nd_receiver nd))"
| "node_step L E X (Native_delivery db) nd =
     (case nd_native_queue nd of
        [] \<Rightarrow> Some (Inr (nd, []))
      | b # q \<Rightarrow>
          map_option (\<lambda>r. rbind r (\<lambda>(cv, es).
            Inr (nd\<lparr>nd_conv := cv, nd_native_queue := q, nd_evm_queue := nd_evm_queue nd @ published es\<rparr>,
                 map From_conv es)))
            (on_native_block L db (ch_exec_engine (nd_chain nd) \<noteq> None) b (nd_conv nd)))"
| "node_step L E X Evm_delivery nd =
     (case nd_evm_queue nd of
        [] \<Rightarrow> Some (Inr (nd, []))
      | b # q \<Rightarrow>
          Some (rbind (on_evm_block X (nd_conv nd) b (nd_chain nd)) (\<lambda>(ch, es).
            Inr (nd\<lparr>nd_chain := ch, nd_evm_queue := q\<rparr>, map From_chain es))))"

text \<open>The node after the startup of the plugins.\<close>

definition node_start :: "receiver \<Rightarrow> 'tx conv \<Rightarrow> ('tx, 'x) node" where
  "node_start rc cv = \<lparr>nd_receiver = rc, nd_conv = cv, nd_chain = chain_init,
     nd_native_queue = [], nd_evm_queue = []\<rparr>"

text \<open>The effects of each plugin.\<close>

definition ship_effects :: "'tx node_effect list \<Rightarrow> ship_effect list" where
  "ship_effects es = concat (map (\<lambda>e. case e of From_ship s \<Rightarrow> [s] | _ \<Rightarrow> []) es)"

definition conv_effects :: "'tx node_effect list \<Rightarrow> 'tx conv_effect list" where
  "conv_effects es = concat (map (\<lambda>e. case e of From_conv c \<Rightarrow> [c] | _ \<Rightarrow> []) es)"

definition chain_effects :: "'tx node_effect list \<Rightarrow> 'tx chain_effect list" where
  "chain_effects es = concat (map (\<lambda>e. case e of From_chain c \<Rightarrow> [c] | _ \<Rightarrow> []) es)"

lemma node_effects_simps [simp]:
  "conv_effects [] = []" "conv_effects (es @ es') = conv_effects es @ conv_effects es'"
  "conv_effects (map From_ship ss) = []" "conv_effects (map From_conv cs) = cs"
  "conv_effects (map From_chain hs) = []"
  "chain_effects [] = []" "chain_effects (es @ es') = chain_effects es @ chain_effects es'"
  "chain_effects (map From_ship ss) = []" "chain_effects (map From_conv cs) = []"
  "chain_effects (map From_chain hs) = hs" "conv_effects (From_ship e # es) = conv_effects es"
  "chain_effects (From_ship e # es) = chain_effects es"
  "ship_effects [] = []" "ship_effects (es @ es') = ship_effects es @ ship_effects es'"
  "ship_effects (map From_ship ss) = ss" "ship_effects (map From_conv cs) = []"
  "ship_effects (map From_chain hs) = []" "ship_effects (From_ship e # es) = e # ship_effects es"
proof -
  show "ship_effects (map From_ship ss) = ss" by (induction ss) (simp_all add: ship_effects_def)
  show "conv_effects (map From_conv cs) = cs" by (induction cs) (simp_all add: conv_effects_def)
  show "chain_effects (map From_chain hs) = hs" by (induction hs) (simp_all add: chain_effects_def)
qed (simp_all add: ship_effects_def conv_effects_def chain_effects_def o_def)

text \<open>The native blocks that the receiver published, and the EVM blocks that the engine was given.\<close>

definition received :: "'tx node_effect list \<Rightarrow> native_block list" where
  "received es = native_published (ship_effects es)"

definition inserted :: "'tx exec_call list \<Rightarrow> 'tx block list" where
  "inserted cs = concat (map (\<lambda>c. case c of Insert_block b \<Rightarrow> [b] | _ \<Rightarrow> []) cs)"

lemma inserted_simps [simp]:
  "inserted [] = []" "inserted (cs @ cs') = inserted cs @ inserted cs'"
  "inserted (c # cs) = (case c of Insert_block b \<Rightarrow> [b] | _ \<Rightarrow> []) @ inserted cs"
  by (simp_all add: inserted_def)

lemma on_evm_block_inserts:
  assumes "on_evm_block X cv b st = Inr (st', es)" "\<not> failed es"
  shows "inserted (calls es) = [b]"
proof -
  from on_evm_block_calls [OF assms(1)] assms(2)
  have "calls es = open_calls st @ [Insert_block b] @ verify_calls X cv b (ch_block_count st + 1)" by auto
  then show ?thesis by (simp add: open_calls_def verify_calls_def split: option.splits)
qed

section \<open>What the events may be\<close>

text \<open>
  A delivered native block is admissible for the block conversion. A block that is received
  reports a last irreversible block that is not before the one reported last.
\<close>

definition node_ok ::
  "'tx lib \<Rightarrow> ('def, 'more) ship_env_scheme \<Rightarrow> block_mapping \<Rightarrow> ('tx, 'x) node \<Rightarrow> 'tx node_event \<Rightarrow> bool" where
  "node_ok L E m nd ev =
     (case ev of
        Ship db e \<Rightarrow>
          (case ship_step E db e (nd_receiver nd) of
             Some (Inr (rc, es)) \<Rightarrow>
               list_all (\<lambda>b. rc_last_lib (nd_receiver nd) \<le> nb_lib b) (native_published es)
           | _ \<Rightarrow> True)
      | Native_delivery db \<Rightarrow>
          (case nd_native_queue nd of [] \<Rightarrow> True | b # q \<Rightarrow> block_ok L m (nd_conv nd) b)
      | Evm_delivery \<Rightarrow> True)"

lemma node_okD:
  "node_ok L E m nd (Native_delivery db) \<Longrightarrow> nd_native_queue nd = b # q \<Longrightarrow> block_ok L m (nd_conv nd) b"
  "node_ok L E m nd (Ship db e) \<Longrightarrow> ship_step E db e (nd_receiver nd) = Some (Inr (rc, es)) \<Longrightarrow>
    b \<in> set (native_published es) \<Longrightarrow> rc_last_lib (nd_receiver nd) \<le> nb_lib b"
  by (auto simp: node_ok_def list_all_iff)

section \<open>Blocks reach the engine in order\<close>

definition node_recorded :: "'tx lib \<Rightarrow> 'tx block \<Rightarrow> ('tx, 'x) node \<Rightarrow> 'tx node_effect list \<Rightarrow> bool" where
  "node_recorded L b0 nd h \<longleftrightarrow>
     conv_recorded L b0 (nd_conv nd) (conv_effects h) \<and>
     (failed (chain_effects h) \<or>
      inserted (calls (chain_effects h)) @ nd_evm_queue nd = published (conv_effects h))"

lemma node_step_returns:
  assumes "conv_wf L m s i (nd_conv nd)" "node_ok L E m nd ev"
  shows "node_step L E X ev nd \<noteq> None"
proof (cases ev)
  case (Ship db e)
  then show ?thesis by (cases e) simp_all
next
  case (Native_delivery db)
  then show ?thesis
    using assms node_okD(1) on_native_block_returns by (fastforce split: list.splits)
qed (auto split: list.splits)

text \<open>The ways in which the state of the conversion and of the queues changes.\<close>

lemma node_step_cases:
  assumes "node_step L E X ev nd = Some (Inr (nd', es))"
  obtains (ship) db e rc ss where "ev = Ship db e" "ship_step E db e (nd_receiver nd) = Some (Inr (rc, ss))"
    "nd' = nd\<lparr>nd_receiver := rc, nd_native_queue := nd_native_queue nd @ native_published ss\<rparr>"
    "es = map From_ship ss"
  | (idle) "nd' = nd" "es = []"
  | (native) db b q cv cs where "ev = Native_delivery db" "nd_native_queue nd = b # q"
    "on_native_block L db (ch_exec_engine (nd_chain nd) \<noteq> None) b (nd_conv nd) = Some (Inr (cv, cs))"
    "nd' = nd\<lparr>nd_conv := cv, nd_native_queue := q, nd_evm_queue := nd_evm_queue nd @ published cs\<rparr>"
    "es = map From_conv cs"
  | (evm) b q ch hs where "ev = Evm_delivery" "nd_evm_queue nd = b # q"
    "on_evm_block X (nd_conv nd) b (nd_chain nd) = Inr (ch, hs)"
    "nd' = nd\<lparr>nd_chain := ch, nd_evm_queue := q\<rparr>" "es = map From_chain hs"
proof (cases ev)
  case (Ship db e)
  with assms ship show thesis by (auto simp: res_simps)
next
  case (Native_delivery db)
  with assms idle native show thesis by (auto simp: res_simps split: list.splits)
next
  case Evm_delivery
  with assms idle evm show thesis by (auto simp: res_simps split: list.splits)
qed

interpretation node: recording_handler "node_step L E X" "node_ok L E m"
  "\<lambda>nd. conv_wf L m s i (nd_conv nd)" "node_recorded L b0"
  for L :: "'tx lib" and E :: "('def, 'more) ship_env_scheme" and X :: "('tx, 'x) exec_lib" and m s i b0
proof
  fix nd nd' :: "('tx, 'x) node" and ev es h
  show "node_step L E X ev nd \<noteq> None" if "conv_wf L m s i (nd_conv nd)" "node_ok L E m nd ev"
    using node_step_returns [OF that] .
  show "conv_wf L m s i (nd_conv nd')" if "conv_wf L m s i (nd_conv nd)" "node_ok L E m nd ev"
    "node_step L E X ev nd = Some (Inr (nd', es))"
    using that(3)
  proof (cases rule: node_step_cases)
    case (native db b q cv cs)
    have "block_ok L m (nd_conv nd) b" using node_okD(1) that(2) native by blast
    from on_native_block_keeps [OF that(1) this native(3)] native(4) show ?thesis by simp
  qed (use that(1) in simp_all)
  show "node_recorded L b0 nd' (h @ es)" if "conv_wf L m s i (nd_conv nd)" "node_recorded L b0 nd h"
    "node_ok L E m nd ev" "node_step L E X ev nd = Some (Inr (nd', es))"
    using that(4)
  proof (cases rule: node_step_cases)
    case (native db b q cv cs)
    have "lib_ok L" "conv_inv L m s i (nd_conv nd)" using that(1) by (simp_all add: conv_wf_def)
    moreover have "block_ok L m (nd_conv nd) b" using node_okD(1) that(3) native by blast
    ultimately have "conv_recorded L b0 cv (conv_effects h @ cs)"
      using conv_records [OF _ _ _ _ _ native(3)] that(2) by (simp add: lib_ok_def node_recorded_def)
    with that(2) native show ?thesis by (auto simp: node_recorded_def)
  next
    case (evm b q ch hs)
    with that(2) on_evm_block_inserts [OF evm(3)] show ?thesis
      by (cases "failed hs") (auto simp: node_recorded_def)
  qed (use that(2) in \<open>simp_all add: node_recorded_def\<close>)
qed

section \<open>The receiver resumes where the conversion can go on\<close>

lemma chain_has_number:
  assumes "native_chain L m ns" "ns \<noteq> []" "nb_block_num (hd ns) \<le> k" "k \<le> nb_block_num (last ns)"
  shows "\<exists>x \<in> set ns. nb_block_num x = k"
  using assms
proof (induction ns rule: rev_induct)
  case (snoc b ns)
  show ?case
  proof (cases "ns = [] \<or> k = nb_block_num b")
    case True
    with snoc.prems show ?thesis by auto
  next
    case False
    then have c: "native_chain L m ns" "unat (nb_block_num b) = Suc (unat (nb_block_num (last ns)))"
      using snoc.prems(1) by (auto simp: native_chain_append child_of_def)
    have "k \<noteq> nb_block_num b" "k \<le> nb_block_num b" using False snoc.prems(4) by simp_all
    with c(2) have "k \<le> nb_block_num (last ns)" by (auto simp: word_le_nat_alt word_unat_eq_iff)
    with snoc.IH c(1) False snoc.prems(3) show ?thesis by auto
  qed
qed simp

lemma chain_le_last:
  assumes "native_chain L m ns" "x \<in> set ns"
  shows "nb_block_num x \<le> nb_block_num (last ns)" "nb_block_num (hd ns) \<le> nb_block_num x"
  using linked_le_last [of "child_of L m" ns nb_block_num x] linked_hd_le [of "child_of L m" ns nb_block_num x] assms
  by (auto simp: native_chain_def child_of_def word_le_nat_alt)

text \<open>
  After a block \<open>b\<close>, the block that is irreversible by its report, or \<open>b\<close> itself if that one is
  after it, is cached.
\<close>

lemma lib_number_cached:
  assumes wf: "conv_wf L m s i st" and b: "block_ok L m st b"
    and on: "on_native_block L db eng b st = Some (Inr (st', effs))"
    and lib: "nb_block_num (hd (cv_native_blocks st)) \<le> nb_lib b"
  shows "\<exists>x \<in> set (cv_native_blocks st'). nb_block_num x = min (nb_lib b) (nb_block_num b)"
proof (cases "\<exists>a \<in> set (cv_native_blocks st). nb_id a = nb_id b")
  case True
  then obtain a where a: "a \<in> set (cv_native_blocks st)" "nb_id a = nb_id b" by blast
  have st': "st' = st" using cached_id_ignored [OF wf b a] on by simp
  have chain: "native_chain L m (cv_native_blocks st)" "cv_native_blocks st \<noteq> []"
    using wf conv_inv_chain [of L m s i st] a by (auto simp: conv_wf_def)
  have "native_ok L m a" "native_ok L m b" using chain(1) a b by (auto simp: native_chain_def block_ok_def)
  then have "nb_block_num b = nb_block_num a" using a(2) by (simp add: native_ok_def)
  then show ?thesis unfolding st'
    using chain_has_number [OF chain, of "min (nb_lib b) (nb_block_num b)"] chain_le_last [OF chain(1) a(1)] lib
    by (auto simp: min_def)
next
  case False
  then have new: "\<forall>a \<in> set (cv_native_blocks st). nb_id a \<noteq> nb_id b" by blast
  obtain ns1 es1 ps ceffs es' c where link: "linked_to L m b (cv_native_blocks st) (cv_evm_blocks st) ns1 es1"
    and ns1: "ns1 = path_to (cv_native_blocks st) (nb_prev b)"
    and rest: "view_inv L m s i (ns1 @ [b]) (map view_of (butlast es' @ [c]))"
    by (rule new_block_steps [OF wf b on new])
  let ?path = "path_to (cv_native_blocks st) (nb_prev b) @ [b]" and ?k = "min (nb_lib b) (nb_block_num b)"
  have chain: "native_chain L m ?path" using rest ns1 by (simp add: view_inv_def core_inv_def)
  have "ns1 \<noteq> []" "\<exists>r. cv_native_blocks st = ns1 @ r" using link by (auto simp: linked_to_def)
  then have hd: "hd ?path = hd (cv_native_blocks st)" unfolding ns1 [symmetric] by auto
  have b_in: "b \<in> set ?path" by simp
  have le: "nb_block_num (hd ?path) \<le> ?k" using lib hd chain_le_last(2) [OF chain b_in] by simp
  then obtain x where x: "x \<in> set ?path" "nb_block_num x = ?k"
    using chain_has_number [OF chain, of ?k] by auto
  have "takeWhile (\<lambda>nb. nb_block_num nb \<le> nb_lib b) ?path \<noteq> []"
    using le by (cases ?path) auto
  then obtain y where y: "lib_block_of ?path (nb_lib b) = Some y"
    by (auto simp: lib_block_of_def Let_def)
  have "y \<in> set ?path" "nb_block_num y \<le> nb_lib b" using lib_block_of_in [OF y] by simp_all
  with chain_le_last(1) [OF chain] have "nb_block_num y \<le> nb_block_num x" using x(2) by simp
  from lib_blocks_stay [OF wf b on new y x(1) this] x(2) show ?thesis by blast
qed

text \<open>The oldest cached block never goes back, and stays while the reported block lies before it.\<close>

lemma oldest_cached:
  assumes wf: "conv_wf L m s i st" and b: "block_ok L m st b"
    and on: "on_native_block L db eng b st = Some (Inr (st', effs))"
  shows "nb_block_num (hd (cv_native_blocks st)) \<le> nb_block_num (hd (cv_native_blocks st'))"
    "nb_lib b < nb_block_num (hd (cv_native_blocks st)) \<Longrightarrow>
      nb_block_num (hd (cv_native_blocks st')) = nb_block_num (hd (cv_native_blocks st))"
proof -
  let ?n = "nb_block_num (hd (cv_native_blocks st))" and ?n' = "nb_block_num (hd (cv_native_blocks st'))"
  have "?n \<le> ?n' \<and> (nb_lib b < ?n \<longrightarrow> ?n' = ?n)"
  proof (cases "\<exists>a \<in> set (cv_native_blocks st). nb_id a = nb_id b")
    case True
    then have "st' = st" using cached_id_ignored [OF wf b] on by fastforce
    then show ?thesis by simp
  next
    case False
    then have new: "\<forall>a \<in> set (cv_native_blocks st). nb_id a \<noteq> nb_id b" by blast
    obtain ns1 es1 ps ceffs es' c where link: "linked_to L m b (cv_native_blocks st) (cv_evm_blocks st) ns1 es1"
      and app: "appended L m eng b ns1 es1 st st' ps ceffs es' c" and inv: "conv_inv L m s i st'"
      and rest: "view_inv L m s i (ns1 @ [b]) (map view_of (butlast es' @ [c]))"
      by (rule new_block_steps [OF wf b on new])
    have chain: "native_chain L m (ns1 @ [b])" using rest by (simp add: view_inv_def core_inv_def)
    have "ns1 \<noteq> []" "\<exists>r. cv_native_blocks st = ns1 @ r" using link by (auto simp: linked_to_def)
    then have hd: "hd (ns1 @ [b]) = hd (cv_native_blocks st)" by auto
    have pr: "pruned L m (nb_lib b) (ns1 @ [b]) (butlast es' @ [c]) (cv_native_blocks st') (cv_evm_blocks st')
        (cv_evm_lib st) (cv_evm_lib st')" using app by (simp add: appended_def)
    have "cv_native_blocks st' \<noteq> []" using inv by (simp add: conv_inv_def view_inv_def core_inv_def)
    then have "hd (cv_native_blocks st') \<in> set (ns1 @ [b])" using pruned_suffix(1) [OF pr] by (metis Un_iff hd_in_set set_append)
    then have "?n \<le> ?n'" using chain_le_last(2) [OF chain] hd by metis
    moreover have "?n' = ?n" if "nb_lib b < ?n"
    proof -
      have "lib_block_of (ns1 @ [b]) (nb_lib b) = None"
        using that hd by (cases ns1) (auto simp: lib_block_of_def)
      then show ?thesis using pr hd by (simp add: pruned_def)
    qed
    ultimately show ?thesis by blast
  qed
  then show "?n \<le> ?n'" "nb_lib b < ?n \<Longrightarrow> ?n' = ?n" by blast+
qed

text \<open>
  The invariant, for a node that started from the block \<open>n0\<close>: the received blocks that wait have
  irreversible blocks in order, and the oldest cached block is the start, or not after them; when
  none waits and the last irreversible block is not before the start, the block to resume after is
  cached.
\<close>

definition resumable :: "u32 \<Rightarrow> ('tx, 'x) node \<Rightarrow> bool" where
  "resumable n0 nd \<longleftrightarrow>
     (let rc = nd_receiver nd; q = nd_native_queue nd; n = nb_block_num (hd (cv_native_blocks (nd_conv nd))) in
      n0 \<le> n \<and> n \<le> max n0 (rc_last_lib rc) \<and>
      (\<forall>b \<in> set q. n \<le> max n0 (nb_lib b) \<and> nb_lib b \<le> rc_last_lib rc) \<and> sorted_wrt (\<lambda>a b. nb_lib a \<le> nb_lib b) q \<and>
      (if q = [] then rc_last_lib rc = 0 \<or> rc_last_lib rc < n0 \<or>
         (\<exists>x \<in> set (cv_native_blocks (nd_conv nd)). nb_block_num x = min (rc_last_lib rc) (rc_last_block_num rc))
       else rc_last_lib rc = nb_lib (last q) \<and> rc_last_block_num rc = nb_block_num (last q)))"

lemma resumable_native:
  assumes wf: "conv_wf L m s i (nd_conv nd)" and res: "resumable n0 nd" and q: "nd_native_queue nd = b # q"
    and b: "block_ok L m (nd_conv nd) b"
    and on: "on_native_block L db eng b (nd_conv nd) = Some (Inr (cv, cs))"
  shows "resumable n0 (nd\<lparr>nd_conv := cv, nd_native_queue := q, nd_evm_queue := es\<rparr>)"
proof -
  let ?n = "nb_block_num (hd (cv_native_blocks (nd_conv nd)))" and ?n' = "nb_block_num (hd (cv_native_blocks cv))"
  have lib: "?n \<le> max n0 (nb_lib b)" "n0 \<le> ?n" and libs: "\<forall>c \<in> set q. nb_lib b \<le> nb_lib c" "sorted_wrt (\<lambda>a b. nb_lib a \<le> nb_lib b) q"
    "\<forall>c \<in> set q. nb_lib c \<le> rc_last_lib (nd_receiver nd)" "nb_lib b \<le> rc_last_lib (nd_receiver nd)"
    and last: "rc_last_lib (nd_receiver nd) = nb_lib (last (b # q))"
    "rc_last_block_num (nd_receiver nd) = nb_block_num (last (b # q))"
    using res q by (auto simp: resumable_def Let_def)
  note oldest = oldest_cached [OF wf b on]
  have n0: "n0 \<le> ?n'" using lib(2) oldest(1) by (rule order_trans)
  show ?thesis
  proof (cases "?n \<le> nb_lib b")
    case True
    obtain x where x: "x \<in> set (cv_native_blocks cv)" "nb_block_num x = min (nb_lib b) (nb_block_num b)"
      using lib_number_cached [OF wf b on True] by blast
    have "native_chain L m (cv_native_blocks cv)"
      using on_native_block_keeps [OF wf b on] conv_inv_chain unfolding conv_wf_def by blast
    from chain_le_last(2) [OF this x(1)] have "?n' \<le> nb_lib b" unfolding x(2) by simp
    with x libs last n0 show ?thesis
      by (auto simp: resumable_def Let_def le_max_iff_disj intro: order_trans)
  next
    case False
    then have "?n' = ?n" "?n \<le> n0" "nb_lib b < n0" using oldest(2) lib by (auto simp: not_le le_max_iff_disj)
    with libs last n0 show ?thesis by (auto simp: resumable_def Let_def le_max_iff_disj)
  qed
qed

lemma resumable_ship:
  assumes res: "resumable n0 nd" and ok: "node_ok L E m nd (Ship db e)"
    and step: "ship_step E db e (nd_receiver nd) = Some (Inr (rc, ss))"
  shows "resumable n0 (nd\<lparr>nd_receiver := rc, nd_native_queue := nd_native_queue nd @ native_published ss\<rparr>)"
  using step_positions [OF step]
proof
  assume "rc_last_lib rc = rc_last_lib (nd_receiver nd) \<and>
    rc_last_block_num rc = rc_last_block_num (nd_receiver nd) \<and> native_published ss = []"
  with res show ?thesis by (simp add: resumable_def Let_def)
next
  assume "\<exists>b. rc_last_lib rc = nb_lib b \<and> rc_last_block_num rc = nb_block_num b \<and> native_published ss = [b]"
  then obtain b where b: "rc_last_lib rc = nb_lib b" "rc_last_block_num rc = nb_block_num b"
    "native_published ss = [b]" by blast
  then have lib: "rc_last_lib (nd_receiver nd) \<le> nb_lib b"
    using node_okD(2) [OF ok step, of b] by simp
  with res b show ?thesis
    by (auto simp: resumable_def Let_def sorted_wrt_append le_max_iff_disj intro: order_trans)
qed

interpretation resuming: handler "node_step L E X" "node_ok L E m"
  "\<lambda>nd. conv_wf L m s i (nd_conv nd) \<and> resumable n0 nd"
  for L :: "'tx lib" and E :: "('def, 'more) ship_env_scheme" and X :: "('tx, 'x) exec_lib" and m n0 s i
proof
  fix nd nd' :: "('tx, 'x) node" and ev es
  assume wf: "conv_wf L m s i (nd_conv nd) \<and> resumable n0 nd" and ok: "node_ok L E m nd ev"
  show "node_step L E X ev nd \<noteq> None" by (rule node_step_returns [OF conjunct1 [OF wf] ok])
  assume step: "node_step L E X ev nd = Some (Inr (nd', es))"
  have "conv_wf L m s i (nd_conv nd')" by (rule node.keeps [OF _ ok step]) (use wf in blast)
  moreover from step have "resumable n0 nd'"
  proof (cases rule: node_step_cases)
    case (ship db e rc ss)
    with resumable_ship wf ok show ?thesis by blast
  next
    case (native db b q cv cs)
    have "block_ok L m (nd_conv nd) b" using node_okD(1) ok native by blast
    with resumable_native [OF _ _ native(2) _ native(3)] wf native(4) show ?thesis by blast
  qed (use wf in \<open>simp_all add: resumable_def Let_def\<close>)
  ultimately show "conv_wf L m s i (nd_conv nd') \<and> resumable n0 nd'" by blast
qed

section \<open>Properties\<close>

text \<open>
  C10: In every interleaving of network callbacks and deliveries from the startup on, and until a call
  to the engine fails, the execution engine is given exactly the EVM blocks that the conversion
  published, in that order, up to those still in the channel; each of them is closed, and
  extends, by number and by hash, one given to the engine before, or takes the place of the
  starting block. The engine never sees a block before its parent.
\<close>

theorem engine_gets_parents_first:
  assumes "load_head L db n a conv_init = Inr (cv, a')" "\<not> app_quitting a'"
    and "get_canonical_block_at_height db n = Some b0" "start_mapped L db b0" "lib_ok L" "cv_bm cv = Some m"
    and "handled (node_step L E X) (node_ok L E m) (node_start rc cv) evs es nd"
    and "\<not> failed (chain_effects es)"
  shows "inserted (calls (chain_effects es)) @ nd_evm_queue nd = published (conv_effects es) \<and>
    published_ok L b0 (inserted (calls (chain_effects es)))"
proof -
  note start = start_recorded [OF assms(1-6)]
  have "node_recorded L b0 nd ([] @ es)"
    by (rule node.handled_recorded [OF assms(7)])
      (use start in \<open>simp_all add: node_start_def node_recorded_def\<close>)
  with assms(8) have eq: "inserted (calls (chain_effects es)) @ nd_evm_queue nd = published (conv_effects es)"
    and "published_ok L b0 (published (conv_effects es))"
    by (simp_all add: node_recorded_def conv_recorded_def)
  then have "published_ok L b0 (inserted (calls (chain_effects es)))"
    using published_ok_prefix [of L b0 "inserted (calls (chain_effects es))" "nd_evm_queue nd"] by simp
  with eq show ?thesis by simp
qed

text \<open>
  A run: the receiver connects, one native block with a transaction arrives, it is converted, and
  the first of the two EVM blocks is delivered.
\<close>

definition pipe_env :: "bytes ship_env" where
  "pipe_env = sample_env
     \<lparr>sl_eosio_name := (\<lambda>s. if s = ''evmevmevmevm'' then 9 else sl_eosio_name sample_ship s),
      sl_signed_block_time := (\<lambda>bs. case bs of [] \<Rightarrow> Inl (External_exception ''stream error'')
         | b # r \<Rightarrow> Inr ((1000 + ucast b) * 1000000)),
      sl_trace := (\<lambda>bs. case bs of [] \<Rightarrow> Inl (External_exception ''stream error'')
         | i # r \<Rightarrow> Inr (Some (sample_trace [sample_trace_action 2 0 50 [],
             sample_trace_action 3 1 51 [0, 1, 7, 0, i]]), r)),
      se_result := (\<lambda>bs. case bs of
          [t, n] \<Rightarrow> Inr (Get_status_result (ucast n))
        | [t, n, l, time] \<Rightarrow> Inr (Get_blocks_result
            \<lparr>br_last_irreversible = \<lparr>bp_block_num = ucast l, bp_block_id = sample_id l 0\<rparr>,
             br_this_block = Some \<lparr>bp_block_num = ucast n, bp_block_id = sample_id n 0\<rparr>,
             br_prev_block = Some \<lparr>bp_block_num = ucast n - 1, bp_block_id = sample_id (n - 1) 0\<rparr>,
             br_block = Some [time], br_traces = Some [1, 42]\<rparr>)
        | _ \<Rightarrow> Inl (External_exception ''stream error''))\<rparr>"

definition pipe_receiver :: receiver where
  "pipe_receiver = fst (ship_startup (ship_initialize (ship_lib.truncate pipe_env) sample_options))"

definition pipe_block :: native_block where
  "pipe_block = (sample_native 11 0 0 1004000000 10 [])\<lparr>nb_transactions :=
     [\<lparr>nt_id = [7], nt_cpu_usage_us = 1, nt_elapsed = 1, nt_actions = [sample_action 3 [0, 1, 7, 0, 42]]\<rparr>]\<rparr>"

definition pipe_events :: "bytes node_event list" where
  "pipe_events = [Ship sample_chain_db (Read_done False [1, 11, 10, 4]), Native_delivery sample_chain_db, Evm_delivery]"

lemma pipe_received:
  "ship_step pipe_env sample_chain_db (Read_done False [1, 11, 10, 4]) pipe_receiver =
   Some (Inr (pipe_receiver\<lparr>rc_last_lib := 10, rc_last_block_num := 11, rc_retry_count := 0\<rparr>,
     [Publish_native pipe_block, Async_read]))"
proof -
  have "(case se_result pipe_env [1, 11, 10, 4] of Inr (Get_blocks_result r) \<Rightarrow>
      to_native (ship_lib.truncate pipe_env) (rc_core_account pipe_receiver) r = Inr (Some pipe_block) | _ \<Rightarrow> False)"
    by code_simp
  then obtain r where "se_result pipe_env [1, 11, 10, 4] = Inr (Get_blocks_result r)"
    "to_native (ship_lib.truncate pipe_env) (rc_core_account pipe_receiver) r = Inr (Some pipe_block)"
    by (auto split: sum.splits ship_result.splits)
  moreover have "nb_lib pipe_block = 10" "nb_block_num pipe_block = 11" by code_simp+
  ultimately show ?thesis by (simp add: on_read_def)
qed

lemma pipe_converted:
  obtains cv cs b1 b2 where
    "on_native_block sample_lib sample_chain_db False pipe_block sample_conv = Some (Inr (cv, cs))"
    "published cs = [b1, b2]" "blk_number b1 = 3" "blk_number b2 = 4" "cv_evm_lib cv = Some 3"
    "blk_irreversible b1 = False"
proof -
  have "(case on_native_block sample_lib sample_chain_db False pipe_block sample_conv of
      Some (Inr (cv, cs)) \<Rightarrow> cv_evm_lib cv = Some 3 \<and> map blk_number (published cs) = [3, 4] \<and>
        map blk_irreversible (published cs) = [False, False]
    | _ \<Rightarrow> False)" by code_simp
  then obtain cv cs where "on_native_block sample_lib sample_chain_db False pipe_block sample_conv = Some (Inr (cv, cs))"
    "cv_evm_lib cv = Some 3" "map blk_number (published cs) = [3, 4]" "map blk_irreversible (published cs) = [False, False]"
    by (auto split: option.splits sum.splits)
  with that show thesis by (auto simp: map_eq_Cons_conv)
qed

lemma pipe_inserted:
  assumes "cv_evm_lib cv = Some 3" "blk_number b = 3" "blk_irreversible b = False"
  obtains ch hs where "on_evm_block sample_exec cv b chain_init = Inr (ch, hs)" "\<not> failed hs"
    "inserted (calls hs) = [b]" "calls hs = [Open_engine, Insert_block b, Write_lib_processed 3, Verify_chain [3]]"
proof -
  have "on_evm_block sample_exec cv b chain_init =
      Inr (\<lparr>ch_exec_engine = Some [Open_engine, Insert_block b, Write_lib_processed 3, Verify_chain [3]], ch_block_count = 0\<rparr>,
        map Exec [Open_engine, Insert_block b, Write_lib_processed 3, Verify_chain [3]])"
    using assms
    by (simp add: on_evm_block_def process_evm_block_def open_engine_def call_engine_def attempt_then_def
        sample_exec_def chain_init_def verify_due_def store_and_verify_def get_evm_lib_def deref_def Let_def)
  with that show thesis by simp
qed

lemma pipe_run_result:
  obtains nd es where
    "handled (node_step sample_lib pipe_env sample_exec) (node_ok sample_lib pipe_env sample_mapping)
       (node_start pipe_receiver sample_conv) pipe_events es nd"
    "\<not> failed (chain_effects es)" "map (unat \<circ> blk_number) (inserted (calls (chain_effects es))) = [3]"
    "map (unat \<circ> blk_number) (nd_evm_queue nd) = [4]" "nd_native_queue nd = []"
    "rc_last_lib (nd_receiver nd) = 10" "rc_last_block_num (nd_receiver nd) = 11"
    "received es = [pipe_block]"
proof -
  obtain cv cs b1 b2 where cv: "on_native_block sample_lib sample_chain_db False pipe_block sample_conv = Some (Inr (cv, cs))"
    "published cs = [b1, b2]" "blk_number b1 = 3" "blk_number b2 = 4" "cv_evm_lib cv = Some 3"
    "blk_irreversible b1 = False" by (rule pipe_converted)
  obtain ch hs where ch: "on_evm_block sample_exec cv b1 chain_init = Inr (ch, hs)" "\<not> failed hs"
    "inserted (calls hs) = [b1]" by (rule pipe_inserted [OF cv(5,3,6)])
  have ok: "block_ok sample_lib sample_mapping sample_conv pipe_block" "nb_lib pipe_block = 10"
    "rc_last_lib pipe_receiver = 0" by code_simp+
  let ?step = "node_step sample_lib pipe_env sample_exec" and ?ok = "node_ok sample_lib pipe_env sample_mapping"
  let ?n0 = "node_start pipe_receiver sample_conv"
  let ?n1 = "?n0\<lparr>nd_receiver := pipe_receiver\<lparr>rc_last_lib := 10, rc_last_block_num := 11, rc_retry_count := 0\<rparr>,
    nd_native_queue := [pipe_block]\<rparr>"
  let ?n2 = "?n1\<lparr>nd_conv := cv, nd_native_queue := [], nd_evm_queue := [b1, b2]\<rparr>"
  let ?n3 = "?n2\<lparr>nd_chain := ch, nd_evm_queue := [b2]\<rparr>"
  let ?ship = "Ship sample_chain_db (Read_done False [1, 11, 10, 4])"
  have 1: "?ok ?n0 ?ship" "?step ?ship ?n0 = Some (Inr (?n1, map From_ship [Publish_native pipe_block, Async_read]))"
    using ok(2,3) pipe_received by (simp_all add: node_ok_def node_start_def del: ship_step.simps)
  have "?step (Native_delivery sample_chain_db) ?n1 = Some (Inr (?n2, map From_conv cs))"
    by (simp add: node_start_def chain_init_def cv(1,2))
  moreover have "?ok ?n1 (Native_delivery sample_chain_db)" using ok(1) by (simp add: node_ok_def node_start_def)
  moreover have 3: "?step Evm_delivery ?n2 = Some (Inr (?n3, map From_chain hs))"
    by (simp add: node_start_def ch(1))
  have "handled ?step ?ok ?n2 [Evm_delivery] (map From_chain hs) ?n3"
    by (rule handled_single [of ?ok ?n2 Evm_delivery ?step, OF _ 3]) (simp add: node_ok_def)
  ultimately have "handled ?step ?ok ?n1 [Native_delivery sample_chain_db, Evm_delivery]
      (map From_conv cs @ map From_chain hs) ?n3"
    by (intro handled_Cons [of ?ok ?n1 "Native_delivery sample_chain_db" ?step ?n2])
  from handled_Cons [of ?ok ?n0 ?ship ?step ?n1, OF 1 this] show thesis
    by (rule that [unfolded pipe_events_def]) (use ch(2,3) cv(3,4) in \<open>simp_all add: node_start_def received_def\<close>)
qed

lemma pipe_start:
  "get_canonical_block_at_height sample_chain_db None = Some sample_start_block"
  "cv_bm sample_conv = Some sample_mapping" "nb_block_num (hd (cv_native_blocks sample_conv)) = 10"
  by code_simp+

theorem engine_gets_parents_first_witness:
  "\<exists>nd es. handled (node_step sample_lib pipe_env sample_exec) (node_ok sample_lib pipe_env sample_mapping)
       (node_start pipe_receiver sample_conv) pipe_events es nd \<and>
     map (unat \<circ> blk_number) (inserted (calls (chain_effects es))) = [3] \<and>
     map (unat \<circ> blk_number) (published (conv_effects es)) = [3, 4] \<and>
     published_ok sample_lib sample_start_block (inserted (calls (chain_effects es)))"
proof -
  obtain nd es where run: "handled (node_step sample_lib pipe_env sample_exec) (node_ok sample_lib pipe_env sample_mapping)
       (node_start pipe_receiver sample_conv) pipe_events es nd"
    "\<not> failed (chain_effects es)" "map (unat \<circ> blk_number) (inserted (calls (chain_effects es))) = [3]"
    "map (unat \<circ> blk_number) (nd_evm_queue nd) = [4]"
    by (rule pipe_run_result)
  from engine_gets_parents_first [OF sample_load_head _ pipe_start(1) sample_start_mapped sample_lib_ok pipe_start(2) run(1,2)]
  have p: "inserted (calls (chain_effects es)) @ nd_evm_queue nd = published (conv_effects es)"
    "published_ok sample_lib sample_start_block (inserted (calls (chain_effects es)))" by simp_all
  have "map (unat \<circ> blk_number) (published (conv_effects es)) = [3] @ [4]"
    unfolding p(1) [symmetric] map_append run(3,4) ..
  with run p(2) show ?thesis by fastforce
qed

lemma unknown_below_start:
  assumes wf: "conv_wf L m s i st" and b: "block_ok L m st b"
    and below: "unat (nb_block_num b) < unat (nb_block_num (hd (cv_native_blocks st)))"
  shows "on_native_block L db eng b st = Some (Inl (Runtime_error ''Unable to find fork block''))"
proof -
  have inv: "conv_inv L m s i st" and L: "header_prepared L" "default_block_empty L"
    using wf by (simp_all add: conv_wf_def lib_ok_def)
  note chain = conv_inv_chain [OF inv]
  have least: "unat (nb_block_num b) < unat (nb_block_num a)" if "a \<in> set (cv_native_blocks st)" for a
    using below chain_le_last(2) [OF chain that] by (simp add: word_le_nat_alt)
  have ids: "nb_id a \<noteq> nb_id b" if a: "a \<in> set (cv_native_blocks st)" for a
  proof
    assume "nb_id a = nb_id b"
    moreover have "native_ok L m a" "native_ok L m b" using chain a b by (auto simp: native_chain_def block_ok_def)
    ultimately have "nb_block_num a = nb_block_num b" by (simp add: native_ok_def)
    with least [OF a] show False by simp
  qed
  have parents: "nb_id a \<noteq> nb_prev b" if a: "a \<in> set (cv_native_blocks st)" for a
  proof
    assume "nb_id a = nb_prev b"
    with a b have "child_of L m a b" by (simp add: block_ok_def)
    then have "unat (nb_block_num b) = Suc (unat (nb_block_num a))" by (simp add: child_of_def)
    with least [OF a] show False by simp
  qed
  have "cv_native_blocks st \<noteq> []" using inv by (simp add: conv_inv_def view_inv_def core_inv_def)
  moreover have "cv_bm st = Some m" "genesis_timestamp m < nb_timestamp b" using inv b by (auto simp: conv_inv_def block_ok_def)
  moreover have "nb_id (last (cv_native_blocks st)) \<noteq> nb_prev b" using parents calculation(1) by simp
  moreover have "find (\<lambda>nb. nb_id nb = nb_id b) (cv_native_blocks st) = None"
    "find (\<lambda>nb. nb_id nb = nb_prev b) (cv_native_blocks st) = None" using ids parents by (auto simp: find_None_iff)
  ultimately show ?thesis by (simp add: on_native_block_def link_native_block_def not_le)
qed

text \<open>
  C13: Where a reconnection goes on. When no native block waits in the channel and an irreversible block
  has been reported, the block asked for is the one after the irreversible or the last received
  block, whichever is first. If the irreversible block is not before the block that the node
  started from, the block asked for comes right after one that the conversion still has cached.
  If it lies more than one block before the start, the conversion does not know the parent of
  the block asked for, and refuses it with an exception.
\<close>

theorem where_resumption_leads:
  assumes "load_head L db n a conv_init = Inr (cv, a')" "\<not> app_quitting a'"
    and "get_canonical_block_at_height db n = Some b0" "start_mapped L db b0" "lib_ok L" "cv_bm cv = Some m"
    and "ship_startup (ship_initialize S opts) = (rc, es0)"
    and "handled (node_step L E X) (node_ok L E m) (node_start rc cv) evs es nd"
    and "nd_native_queue nd = []" "0 < rc_last_lib (nd_receiver nd)"
  shows "let n0 = nb_block_num (hd (cv_native_blocks cv)); lib = rc_last_lib (nd_receiver nd);
      next = min lib (rc_last_block_num (nd_receiver nd)) + 1 in
    start_point db' (nd_receiver nd) = Some next \<and>
    (n0 \<le> lib \<longrightarrow> (\<exists>x \<in> set (cv_native_blocks (nd_conv nd)). nb_block_num x + 1 = next)) \<and>
    (unat lib + 1 < unat n0 \<longrightarrow> (\<forall>b eng. block_ok L m (nd_conv nd) b \<and> nb_block_num b = next \<longrightarrow>
       on_native_block L db' eng b (nd_conv nd) = Some (Inl (Runtime_error ''Unable to find fork block''))))"
proof -
  have rc: "rc_last_lib rc = 0"
    using assms(7) by (auto simp: ship_startup_def ship_initialize_def receiver_init_def reset_connection_def Let_def)
  let ?n0 = "nb_block_num (hd (cv_native_blocks cv))" and ?lib = "rc_last_lib (nd_receiver nd)"
    and ?last = "rc_last_block_num (nd_receiver nd)"
  have "conv_wf L m (blk_number b0) (hd_prev_randao (blk_header b0)) (nd_conv (node_start rc cv)) \<and>
      resumable ?n0 (node_start rc cv)"
    using start_recorded(1) [OF assms(1-6)] rc by (simp add: node_start_def resumable_def Let_def)
  note inv = resuming.handled_inv [OF assms(8) this]
  from inv assms(9,10) have cached: "?n0 \<le> ?lib \<longrightarrow>
      (\<exists>x \<in> set (cv_native_blocks (nd_conv nd)). nb_block_num x = min ?lib ?last)"
    and start: "?n0 \<le> nb_block_num (hd (cv_native_blocks (nd_conv nd)))" by (auto simp: resumable_def Let_def)
  have asked: "start_point db' (nd_receiver nd) = Some (min ?lib ?last + 1)"
    using assms(10) by (auto simp: start_point_def resume_point_def min_def not_le split: if_splits)
  have "on_native_block L db' eng b (nd_conv nd) = Some (Inl (Runtime_error ''Unable to find fork block''))"
    if below: "unat ?lib + 1 < unat ?n0" and b: "block_ok L m (nd_conv nd) b" "nb_block_num b = min ?lib ?last + 1" for b eng
  proof -
    have "min ?lib ?last \<le> ?lib" by simp
    then have "unat (min ?lib ?last) \<le> unat ?lib" by (simp only: word_le_nat_alt)
    moreover have "unat (min ?lib ?last + 1) \<le> unat (min ?lib ?last) + 1" by (simp add: unat_word_ariths)
    ultimately have "unat (nb_block_num b) < unat (nb_block_num (hd (cv_native_blocks (nd_conv nd))))"
      using below start b(2) by (simp add: word_le_nat_alt)
    from unknown_below_start [OF conjunct1 [OF inv] b(1) this] show ?thesis .
  qed
  with asked cached show ?thesis by (auto simp: Let_def)
qed

theorem where_resumption_leads_witness:
  "\<exists>nd es. handled (node_step sample_lib pipe_env sample_exec) (node_ok sample_lib pipe_env sample_mapping)
       (node_start pipe_receiver sample_conv) pipe_events es nd \<and>
     start_point sample_chain_db (nd_receiver nd) = Some 11 \<and>
     (\<exists>x \<in> set (cv_native_blocks (nd_conv nd)). nb_block_num x + 1 = 11)"
proof -
  obtain nd es where run: "handled (node_step sample_lib pipe_env sample_exec) (node_ok sample_lib pipe_env sample_mapping)
       (node_start pipe_receiver sample_conv) pipe_events es nd"
    and q: "nd_native_queue nd = []" "rc_last_lib (nd_receiver nd) = 10" "rc_last_block_num (nd_receiver nd) = 11"
    by (rule pipe_run_result)
  have start: "ship_startup (ship_initialize (ship_lib.truncate pipe_env) sample_options) =
      (pipe_receiver, snd (ship_startup (ship_initialize (ship_lib.truncate pipe_env) sample_options)))"
    by (simp add: pipe_receiver_def)
  from where_resumption_leads [OF sample_load_head _ pipe_start(1) sample_start_mapped
      sample_lib_ok pipe_start(2) start run q(1), of sample_chain_db] q(2,3) pipe_start(3)
  show ?thesis using run by (auto simp: Let_def)
qed

end
