(* ===== verification/Node_Lifecycle.thy ===== *)
theory Node_Lifecycle
  imports Node_Plugins Node_Pipeline
begin

text \<open>
  From the options to a running node and back: the initialisation, the startup and the shutdown of
  the plugins, which reach each other through pointers that are null before the initialisation
  of their owners. What decides in which order that happens are the requirements that each plugin
  declares (\<open>APPBASE_PLUGIN_REQUIRES\<close> in the headers under \<open>src/src\<close>); the framework that
  follows them is a parameter, namely the order itself, and the calls that it makes are histories.
\<close>

section \<open>Plugins and their requirements\<close>

datatype plugin =
    Sys_plugin
  | Engine_plugin
  | Ship_receiver_plugin
  | Block_conversion_plugin
  | Blockchain_plugin
  | Rpc_plugin

definition sys_requires :: "plugin list" where
  "sys_requires = []"

definition engine_requires :: "plugin list" where
  "engine_requires = [Sys_plugin]"

definition ship_receiver_requires :: "plugin list" where
  "ship_receiver_requires = [Sys_plugin, Engine_plugin]"

definition block_conversion_requires :: "plugin list" where
  "block_conversion_requires = [Sys_plugin, Ship_receiver_plugin, Engine_plugin]"

definition blockchain_requires :: "plugin list" where
  "blockchain_requires = [Sys_plugin, Engine_plugin, Block_conversion_plugin]"

definition rpc_requires :: "plugin list" where
  "rpc_requires = [Sys_plugin]"

fun plugin_requires :: "plugin \<Rightarrow> plugin list" where
  "plugin_requires Sys_plugin = sys_requires"
| "plugin_requires Engine_plugin = engine_requires"
| "plugin_requires Ship_receiver_plugin = ship_receiver_requires"
| "plugin_requires Block_conversion_plugin = block_conversion_requires"
| "plugin_requires Blockchain_plugin = blockchain_requires"
| "plugin_requires Rpc_plugin = rpc_requires"

lemmas requires_defs = sys_requires_def engine_requires_def ship_receiver_requires_def
  block_conversion_requires_def blockchain_requires_def rpc_requires_def

text \<open>The plugins that each program registers.\<close>

definition node_registered :: "plugin list" where
  "node_registered =
     [Blockchain_plugin, Engine_plugin, Ship_receiver_plugin, Sys_plugin, Block_conversion_plugin]"

definition rpc_registered :: "plugin list" where
  "rpc_registered = [Sys_plugin, Rpc_plugin]"

text \<open>
  What the framework promises of the order in which it initialises plugins: each one once, and
  after those it requires.
\<close>

fun requirements_first :: "plugin list \<Rightarrow> plugin list \<Rightarrow> bool" where
  "requirements_first seen [] = True"
| "requirements_first seen (p # ps) =
     (p \<notin> set seen \<and> list_all (\<lambda>q. q \<in> set seen) (plugin_requires p) \<and> requirements_first (p # seen) ps)"

section \<open>The state of a program\<close>

text \<open>What the plugins meet outside, and the settings that a logging library starts with.\<close>

record ('tx, 'x) node_world =
  nw_lib :: "'tx lib"
  nw_ship :: ship_lib
  nw_engine :: "string \<Rightarrow> 'tx engine_world"
  nw_exec :: "('tx, 'x) exec_lib"
  nw_log_settings :: log_settings
  nw_full_version :: string

text \<open>
  The members of the plugins. \<open>pl_engine\<close> and \<open>pl_rpc\<close> are the pointers \<open>my\<close>, null until they are
  reset; the receiver has no values before its \<open>init\<close>. \<open>pl_bound\<close> says whether the blockchain plugin
  has its pointers into the engine plugin and its subscription.
\<close>

record ('tx, 'x) plugins =
  pl_settings :: log_settings
  pl_engine :: "'tx engine option"
  pl_receiver :: "receiver option"
  pl_conv :: "'tx conv"
  pl_subscribed :: bool
  pl_chain :: "'x chain"
  pl_bound :: bool
  pl_rpc :: "rpc option"
  pl_app :: app

definition plugins_constructed :: "('tx, 'x) node_world \<Rightarrow> ('tx, 'x) plugins" where
  "plugins_constructed W =
     \<lparr>pl_settings = nw_log_settings W, pl_engine = None, pl_receiver = None, pl_conv = conv_init,
      pl_subscribed = False, pl_chain = chain_init, pl_bound = False, pl_rpc = None,
      pl_app = \<lparr>app_quitting = False\<rparr>\<rparr>"

section \<open>The interface of the engine plugin\<close>

definition get_db :: "('tx, 'x) plugins \<Rightarrow> 'tx chaindata res" where
  "get_db pl = rbind (deref ''my is null'' (pl_engine pl)) (\<lambda>e. Inr (en_db e))"

definition engine_head_canonical_header :: "('tx, 'x) plugins \<Rightarrow> header option res" where
  "engine_head_canonical_header pl = rbind (get_db pl) (\<lambda>db. Inr (get_head_canonical_header db))"

definition engine_canonical_block_at_height :: "('tx, 'x) plugins \<Rightarrow> u64 option \<Rightarrow> 'tx block option res" where
  "engine_canonical_block_at_height pl height =
     rbind (get_db pl) (\<lambda>db. Inr (get_canonical_block_at_height db height))"

definition engine_genesis_header :: "('tx, 'x) plugins \<Rightarrow> header option res" where
  "engine_genesis_header pl = rbind (get_db pl) (\<lambda>db. Inr (get_genesis_header db))"

definition engine_chain_config :: "('tx, 'x) plugins \<Rightarrow> chain_config option res" where
  "engine_chain_config pl = rbind (get_db pl) (\<lambda>db. Inr (get_chain_config db))"

text \<open>The settings that the engine keeps for others.\<close>

definition get_node_settings :: "('tx, 'x) plugins \<Rightarrow> (u64 option \<times> bytes32 option) res" where
  "get_node_settings pl =
     rbind (deref ''my is null'' (pl_engine pl)) (\<lambda>e. Inr (en_network_id e, en_genesis_hash e))"

text \<open>Before the initialisation the optional is empty.\<close>

definition get_start_from_canonical_height :: "('tx, 'x) plugins \<Rightarrow> u64 option" where
  "get_start_from_canonical_height pl =
     (case pl_receiver pl of None \<Rightarrow> None | Some rc \<Rightarrow> rc_start_from_canonical_height rc)"

text \<open>What the other plugins ask the conversion and the blockchain plugin for.\<close>

definition conv_plugin_evm_lib :: "('tx, 'x) plugins \<Rightarrow> u64 res" where
  "conv_plugin_evm_lib pl = get_evm_lib (pl_conv pl)"

definition chain_plugin_tx :: "('tx, 'x) plugins \<Rightarrow> 'x res" where
  "chain_plugin_tx pl = get_tx (pl_chain pl)"

section \<open>Initialisation\<close>

definition sys_plugin_initialize :: "variables_map \<Rightarrow> ('tx, 'x) plugins \<Rightarrow> ('tx, 'x) plugins res" where
  "sys_plugin_initialize vm pl =
     rbind (sys_initialize vm) (\<lambda>settings. Inr (pl\<lparr>pl_settings := settings\<rparr>))"

definition engine_plugin_initialize ::
  "('tx, 'x) node_world \<Rightarrow> variables_map \<Rightarrow> ('tx, 'x) plugins \<Rightarrow> ('tx, 'x) plugins res" where
  "engine_plugin_initialize W vm pl =
     rbind (engine_initialize (nw_engine W) vm (pl_app pl)) (\<lambda>(e, a).
       Inr (pl\<lparr>pl_engine := Some e, pl_app := a\<rparr>))"

definition ship_plugin_initialize ::
  "('tx, 'x) node_world \<Rightarrow> variables_map \<Rightarrow> ('tx, 'x) plugins \<Rightarrow> ('tx, 'x) plugins res" where
  "ship_plugin_initialize W vm pl =
     rbind (ship_read_options vm) (\<lambda>opts. Inr (pl\<lparr>pl_receiver := Some (ship_initialize (nw_ship W) opts)\<rparr>))"

text \<open>\<open>init\<close>: the lists are loaded, also when that fails with a request to quit, then the handler subscribes.\<close>

definition conv_plugin_initialize ::
  "('tx, 'x) node_world \<Rightarrow> ('tx, 'x) plugins \<Rightarrow> ('tx, 'x) plugins res" where
  "conv_plugin_initialize W pl =
     (let start_from_canonical_height = get_start_from_canonical_height pl in
      rbind (get_db pl) (\<lambda>db.
      rbind (load_head (nw_lib W) db start_from_canonical_height (pl_app pl) (pl_conv pl)) (\<lambda>(cv, a).
        Inr (pl\<lparr>pl_conv := cv, pl_app := a, pl_subscribed := True\<rparr>))))"

definition chain_plugin_initialize :: "('tx, 'x) plugins \<Rightarrow> ('tx, 'x) plugins res" where
  "chain_plugin_initialize pl =
     rbind (get_db pl) (\<lambda>_. rbind (get_node_settings pl) (\<lambda>_. Inr (pl\<lparr>pl_bound := True\<rparr>)))"

definition rpc_plugin_initialize :: "variables_map \<Rightarrow> ('tx, 'x) plugins \<Rightarrow> ('tx, 'x) plugins res" where
  "rpc_plugin_initialize vm pl =
     rbind (rpc_initialize (get_verbosity (pl_settings pl)) vm) (\<lambda>settings.
       Inr (pl\<lparr>pl_rpc := Some \<lparr>rp_settings = settings, rp_joinable = False\<rparr>\<rparr>))"

fun plugin_initialize ::
  "('tx, 'x) node_world \<Rightarrow> variables_map \<Rightarrow> plugin \<Rightarrow> ('tx, 'x) plugins \<Rightarrow> ('tx, 'x) plugins res" where
  "plugin_initialize W vm Sys_plugin pl = sys_plugin_initialize vm pl"
| "plugin_initialize W vm Engine_plugin pl = engine_plugin_initialize W vm pl"
| "plugin_initialize W vm Ship_receiver_plugin pl = ship_plugin_initialize W vm pl"
| "plugin_initialize W vm Block_conversion_plugin pl = conv_plugin_initialize W pl"
| "plugin_initialize W vm Blockchain_plugin pl = chain_plugin_initialize pl"
| "plugin_initialize W vm Rpc_plugin pl = rpc_plugin_initialize vm pl"

definition initialize_plugins ::
  "('tx, 'x) node_world \<Rightarrow> variables_map \<Rightarrow> plugin list \<Rightarrow> ('tx, 'x) plugins res" where
  "initialize_plugins W vm order = rfold (plugin_initialize W vm) order (plugins_constructed W)"

section \<open>Startup and shutdown\<close>

datatype 'tx life_effect =
    Server_started
  | Connection ship_effect
  | Daemon rpc_effect
  | Engine_call "'tx chain_effect"
  | Server_stopped

definition engine_plugin_startup :: "('tx, 'x) plugins \<Rightarrow> 'tx life_effect list res" where
  "engine_plugin_startup pl =
     rbind (deref ''my is null'' (pl_engine pl)) (\<lambda>e. rbind (engine_startup e) (\<lambda>_. Inr [Server_started]))"

definition engine_plugin_shutdown :: "('tx, 'x) plugins \<Rightarrow> 'tx life_effect list res" where
  "engine_plugin_shutdown pl =
     rbind (deref ''my is null'' (pl_engine pl)) (\<lambda>e. rbind (engine_shutdown e) (\<lambda>_. Inr [Server_stopped]))"

definition ship_plugin_startup :: "('tx, 'x) plugins \<Rightarrow> (('tx, 'x) plugins \<times> 'tx life_effect list) res" where
  "ship_plugin_startup pl =
     rbind (deref ''resolver is null'' (pl_receiver pl)) (\<lambda>rc.
       case ship_startup rc of
         (rc', es) \<Rightarrow> Inr (pl\<lparr>pl_receiver := Some rc'\<rparr>, map Connection es))"

text \<open>An exception of the execution engine leaves the shutdown.\<close>

definition chain_plugin_shutdown ::
  "('tx, 'x) node_world \<Rightarrow> ('tx, 'x) plugins \<Rightarrow> (('tx, 'x) plugins \<times> 'tx life_effect list) res" where
  "chain_plugin_shutdown W pl =
     rbind (chain_shutdown (nw_exec W) (pl_chain pl)) (\<lambda>(ch, es, x).
       case x of
         Some exn \<Rightarrow> Inl (External_exception ''exec_engine'')
       | None \<Rightarrow> Inr (pl\<lparr>pl_chain := ch\<rparr>, map Engine_call es))"

text \<open>Startups and shutdowns that only write to the log, or do nothing.\<close>

definition sys_plugin_startup :: "('tx, 'x) plugins \<Rightarrow> ('tx, 'x) plugins" where
  "sys_plugin_startup pl = pl"

definition sys_plugin_shutdown :: "('tx, 'x) plugins \<Rightarrow> ('tx, 'x) plugins" where
  "sys_plugin_shutdown pl = pl"

definition ship_plugin_shutdown :: "('tx, 'x) plugins \<Rightarrow> ('tx, 'x) plugins" where
  "ship_plugin_shutdown pl = pl"

definition conv_plugin_startup :: "('tx, 'x) plugins \<Rightarrow> ('tx, 'x) plugins" where
  "conv_plugin_startup pl = pl"

definition conv_plugin_shutdown :: "('tx, 'x) plugins \<Rightarrow> ('tx, 'x) plugins" where
  "conv_plugin_shutdown pl = pl"

definition chain_plugin_startup :: "('tx, 'x) plugins \<Rightarrow> ('tx, 'x) plugins" where
  "chain_plugin_startup pl = pl"

lemmas idle_defs = sys_plugin_startup_def sys_plugin_shutdown_def ship_plugin_shutdown_def
  conv_plugin_startup_def conv_plugin_shutdown_def chain_plugin_startup_def

fun plugin_startup ::
  "('tx, 'x) node_world \<Rightarrow> plugin \<Rightarrow> ('tx, 'x) plugins \<Rightarrow> (('tx, 'x) plugins \<times> 'tx life_effect list) res" where
  "plugin_startup W Engine_plugin pl = rbind (engine_plugin_startup pl) (\<lambda>es. Inr (pl, es))"
| "plugin_startup W Ship_receiver_plugin pl = ship_plugin_startup pl"
| "plugin_startup W Rpc_plugin pl =
     rbind (rpc_startup (nw_full_version W) (pl_rpc pl)) (\<lambda>(r, es). Inr (pl\<lparr>pl_rpc := Some r\<rparr>, map Daemon es))"
| "plugin_startup W Sys_plugin pl = Inr (sys_plugin_startup pl, [])"
| "plugin_startup W Block_conversion_plugin pl = Inr (conv_plugin_startup pl, [])"
| "plugin_startup W Blockchain_plugin pl = Inr (chain_plugin_startup pl, [])"

fun plugin_shutdown ::
  "('tx, 'x) node_world \<Rightarrow> plugin \<Rightarrow> ('tx, 'x) plugins \<Rightarrow> (('tx, 'x) plugins \<times> 'tx life_effect list) res" where
  "plugin_shutdown W Engine_plugin pl = rbind (engine_plugin_shutdown pl) (\<lambda>es. Inr (pl, es))"
| "plugin_shutdown W Blockchain_plugin pl = chain_plugin_shutdown W pl"
| "plugin_shutdown W Rpc_plugin pl =
     rbind (rpc_shutdown (pl_rpc pl)) (\<lambda>(r, es). Inr (pl\<lparr>pl_rpc := Some r\<rparr>, map Daemon es))"
| "plugin_shutdown W Sys_plugin pl = Inr (sys_plugin_shutdown pl, [])"
| "plugin_shutdown W Ship_receiver_plugin pl = Inr (ship_plugin_shutdown pl, [])"
| "plugin_shutdown W Block_conversion_plugin pl = Inr (conv_plugin_shutdown pl, [])"

text \<open>
  The framework that makes these calls is not part of the program. A sequence of calls is a history,
  as for the events of a plugin: the plugins that were called, one after the other, each of which
  returned, with all their effects. What the framework does after a call that throws is left open.
\<close>

definition startup_call where
  "startup_call W p pl = Some (plugin_startup W p pl)"

definition shutdown_call where
  "shutdown_call W p pl = Some (plugin_shutdown W p pl)"

text \<open>That the plugins are started in the order of their initialisation is what the framework promises.\<close>

definition started ::
  "('tx, 'x) node_world \<Rightarrow> plugin list \<Rightarrow> ('tx, 'x) plugins \<Rightarrow> 'tx life_effect list \<Rightarrow> ('tx, 'x) plugins \<Rightarrow> bool" where
  "started W order pl effs pl' \<longleftrightarrow> handled (startup_call W) (\<lambda>_ _. True) pl order effs pl'"

definition stopped ::
  "('tx, 'x) node_world \<Rightarrow> plugin list \<Rightarrow> ('tx, 'x) plugins \<Rightarrow> 'tx life_effect list \<Rightarrow> ('tx, 'x) plugins \<Rightarrow> bool" where
  "stopped W order pl effs pl' \<longleftrightarrow> handled (shutdown_call W) (\<lambda>_ _. True) pl order effs pl'"

lemma started_simps [simp]:
  "started W [] pl effs pl' \<longleftrightarrow> effs = [] \<and> pl' = pl"
  "started W (p # ps) pl effs pl' \<longleftrightarrow>
     (\<exists>pl1 es es'. plugin_startup W p pl = Inr (pl1, es) \<and> started W ps pl1 es' pl' \<and> effs = es @ es')"
  unfolding started_def handled_iff_run by (auto simp: startup_call_def split: option.splits sum.splits)

lemma stopped_simps [simp]:
  "stopped W [] pl effs pl' \<longleftrightarrow> effs = [] \<and> pl' = pl"
  "stopped W (p # ps) pl effs pl' \<longleftrightarrow>
     (\<exists>pl1 es es'. plugin_shutdown W p pl = Inr (pl1, es) \<and> stopped W ps pl1 es' pl' \<and> effs = es @ es')"
  unfolding stopped_def handled_iff_run by (auto simp: shutdown_call_def split: option.splits sum.splits)

lemma started_once: "started W ps pl effs pl1 \<Longrightarrow> started W ps pl effs' pl2 \<Longrightarrow> effs' = effs \<and> pl2 = pl1"
  unfolding started_def handled_iff_run by simp

section \<open>What holds of every start\<close>

text \<open>A requirement comes from one plugin that is ready before; the rest follows by cases.\<close>

lemma requirements_first_step:
  "requirements_first seen (p # ps) \<longleftrightarrow> p \<notin> set seen \<and> set (plugin_requires p) \<subseteq> set seen \<and>
     requirements_first (p # seen) ps"
  by (auto simp: list_all_iff)

definition node_order :: "plugin list" where
  "node_order = [Sys_plugin, Engine_plugin, Ship_receiver_plugin, Block_conversion_plugin, Blockchain_plugin]"

text \<open>The only plugin of the node that can come next.\<close>

lemma next_plugin:
  assumes "n \<le> 5" "set seen = set (take n node_order)" "requirements_first seen (p # ps)" "p \<in> set node_registered"
  shows "n < 5 \<and> p = node_order ! n"
proof -
  have n: "n = 0 \<or> n = 1 \<or> n = 2 \<or> n = 3 \<or> n = 4 \<or> n = 5" using assms(1) by auto
  have "p \<notin> set (take n node_order)" "set (plugin_requires p) \<subseteq> set (take n node_order)"
    using assms(2,3) unfolding requirements_first_step by simp_all
  with n assms(4) show ?thesis
    by (cases p) (auto simp: node_order_def node_registered_def requires_defs eval_nat_numeral)
qed

lemma requirements_order:
  assumes "n \<le> 5" "set seen = set (take n node_order)" "requirements_first seen ps" "set ps \<subseteq> set node_registered"
  shows "\<exists>k. take n node_order @ ps = take k node_order"
  using assms
proof (induction ps arbitrary: n seen)
  case (Cons p ps)
  have p: "n < 5" "p = node_order ! n" using next_plugin [OF Cons.prems(1-3)] Cons.prems(4) by auto
  have len: "length node_order = 5" by (simp add: node_order_def)
  have "take (Suc n) node_order = take n node_order @ [p]" using p len by (simp add: take_Suc_conv_app_nth)
  moreover from this have "set (p # seen) = set (take (Suc n) node_order)" using Cons.prems(2) by simp
  moreover have "requirements_first (p # seen) ps" using Cons.prems(3) by simp
  ultimately show ?case using Cons.IH [of "Suc n" "p # seen"] p(1) Cons.prems(4) by simp
qed auto

lemma full_order:
  assumes "requirements_first [] order" "set order \<subseteq> set node_registered" "Blockchain_plugin \<in> set order"
  shows "order = node_order"
proof -
  obtain k where k: "order = take k node_order" using requirements_order [of 0 "[]" order] assms(1,2) by auto
  have "\<not> k < 5"
  proof
    assume "k < 5"
    then have "k = 0 \<or> k = 1 \<or> k = 2 \<or> k = 3 \<or> k = 4" by auto
    with assms(3) k show False by (auto simp: node_order_def eval_nat_numeral)
  qed
  then show ?thesis using k by (simp add: node_order_def)
qed

lemma load_head_quitting: "load_head L db n a st = Inr (st', a') \<Longrightarrow> app_quitting a \<Longrightarrow> app_quitting a'"
  by (auto simp: load_head_def Let_def res_simps split: option.splits if_splits)

lemma engine_construct_Inr:
  assumes "engine_construct w opts a = Inr (e, a')"
  shows "en_servers e \<and> a' = a \<or> app_quitting a' \<and> \<not> en_servers e"
  using assms
  by (auto simp: engine_construct_def engine_finish_def engine_unfinished_def Let_def res_simps
      split: option.splits if_splits)

text \<open>The initialisation of the whole node, when the options are as declared.\<close>

lemma initialize_node:
  assumes "conforms (sys_options @ engine_option_decls @ ship_option_decls) vm"
  obtains settings dir eopts sopts where "sys_initialize vm = Inr settings" "ship_read_options vm = Inr sopts"
    "engine_initialize (nw_engine W) vm \<lparr>app_quitting = False\<rparr> =
      engine_construct (nw_engine W dir) eopts \<lparr>app_quitting = False\<rparr>"
    "initialize_plugins W vm node_order =
      rbind (engine_construct (nw_engine W dir) eopts \<lparr>app_quitting = False\<rparr>) (\<lambda>(e, a).
      rbind (load_head (nw_lib W) (en_db e) (so_start_from_canonical_height sopts) a conv_init) (\<lambda>(cv, a).
        Inr ((plugins_constructed W)\<lparr>pl_settings := settings, pl_engine := Some e,
          pl_receiver := Some (ship_initialize (nw_ship W) sopts), pl_conv := cv, pl_subscribed := True,
          pl_bound := True, pl_app := a\<rparr>)))"
proof -
  have c: "conforms sys_options vm" "conforms engine_option_decls vm" "conforms ship_option_decls vm"
    using assms by simp_all
  obtain settings sopts where s: "sys_initialize vm = Inr settings" "ship_read_options vm = Inr sopts"
    using sys_initialize_Inr [OF c(1)] ship_read_options_Inr [OF c(3)] by blast
  obtain dir eopts where e: "engine_initialize (nw_engine W) vm \<lparr>app_quitting = False\<rparr> =
      engine_construct (nw_engine W dir) eopts \<lparr>app_quitting = False\<rparr>"
    using engine_initialize_constructs [OF c(2)] by blast
  show thesis
    by (rule that [OF s e])
      (auto simp: initialize_plugins_def node_order_def s e sys_plugin_initialize_def engine_plugin_initialize_def
        ship_plugin_initialize_def conv_plugin_initialize_def chain_plugin_initialize_def get_db_def get_node_settings_def
        get_start_from_canonical_height_def plugins_constructed_def ship_initialize_def receiver_init_def Let_def
        rbind_def split: sum.splits prod.splits)
qed

text \<open>What can fail is the opening of the database with its genesis, and the reading of the head.\<close>

lemma initialization_errors:
  assumes "requirements_first [] order" "set order \<subseteq> set node_registered" "Blockchain_plugin \<in> set order"
    and "conforms (sys_options @ engine_option_decls @ ship_option_decls) vm"
    and "initialize_plugins W vm order = Inl err"
  shows "(\<exists>a. engine_initialize (nw_engine W) vm a = Inl err) \<or> (\<exists>db n a. load_head (nw_lib W) db n a conv_init = Inl err)"
proof -
  note order = full_order [OF assms(1-3)]
  obtain settings dir eopts sopts where init: "sys_initialize vm = Inr settings" "ship_read_options vm = Inr sopts"
    "engine_initialize (nw_engine W) vm \<lparr>app_quitting = False\<rparr> = engine_construct (nw_engine W dir) eopts \<lparr>app_quitting = False\<rparr>"
    "initialize_plugins W vm node_order =
      rbind (engine_construct (nw_engine W dir) eopts \<lparr>app_quitting = False\<rparr>) (\<lambda>(e, a).
      rbind (load_head (nw_lib W) (en_db e) (so_start_from_canonical_height sopts) a conv_init) (\<lambda>(cv, a).
        Inr ((plugins_constructed W)\<lparr>pl_settings := settings, pl_engine := Some e,
          pl_receiver := Some (ship_initialize (nw_ship W) sopts), pl_conv := cv, pl_subscribed := True,
          pl_bound := True, pl_app := a\<rparr>)))"
    by (rule initialize_node [OF assms(4), of W])
  with assms(5) show ?thesis unfolding order
    by (cases "engine_construct (nw_engine W dir) eopts \<lparr>app_quitting = False\<rparr>")
      (auto simp: rbind_def split: sum.splits prod.splits)
qed

text \<open>The height to start from is the one of the options.\<close>

lemma node_start_height:
  assumes "requirements_first [] order" "set order \<subseteq> set node_registered" "Blockchain_plugin \<in> set order"
    and "conforms (sys_options @ engine_option_decls @ ship_option_decls) vm"
    and "initialize_plugins W vm order = Inr pl" "ship_read_options vm = Inr opts"
  shows "get_start_from_canonical_height pl = so_start_from_canonical_height opts"
proof -
  note order = full_order [OF assms(1-3)]
  obtain settings dir eopts sopts where "ship_read_options vm = Inr sopts" "initialize_plugins W vm node_order =
      rbind (engine_construct (nw_engine W dir) eopts \<lparr>app_quitting = False\<rparr>) (\<lambda>(e, a).
      rbind (load_head (nw_lib W) (en_db e) (so_start_from_canonical_height sopts) a conv_init) (\<lambda>(cv, a).
        Inr ((plugins_constructed W)\<lparr>pl_settings := settings, pl_engine := Some e,
          pl_receiver := Some (ship_initialize (nw_ship W) sopts), pl_conv := cv, pl_subscribed := True,
          pl_bound := True, pl_app := a\<rparr>)))"
    by (rule initialize_node [OF assms(4), of W])
  with assms(5,6) show ?thesis unfolding order
    by (auto simp: res_simps get_start_from_canonical_height_def ship_initialize_def receiver_init_def Let_def)
qed

section \<open>Properties\<close>

text \<open>
  C37: The requirements that the plugins declare leave one order: whichever plugins of the node are
  asked for, they are initialised in the order system, engine, receiver, block conversion,
  blockchain, up to the last of them. Every plugin that another one reaches for while it is
  initialised comes before it.
\<close>

theorem plugins_start_in_one_order:
  assumes "requirements_first [] order" "set order \<subseteq> set node_registered"
  shows "\<exists>k. order = take k [Sys_plugin, Engine_plugin, Ship_receiver_plugin, Block_conversion_plugin, Blockchain_plugin]"
  using requirements_order [of 0 "[]" order] assms by (auto simp: node_order_def)

theorem plugins_start_in_one_order_witness:
  "\<exists>k. [Sys_plugin, Engine_plugin, Ship_receiver_plugin] =
    take k [Sys_plugin, Engine_plugin, Ship_receiver_plugin, Block_conversion_plugin, Blockchain_plugin]"
  by (rule plugins_start_in_one_order) (simp_all add: requires_defs node_registered_def)

text \<open>The part of the plugins' state that the events of a running node change.\<close>

definition node_of :: "('tx, 'x) plugins \<Rightarrow> ('tx, 'x) node option" where
  "node_of pl = map_option (\<lambda>rc. \<lparr>nd_receiver = rc, nd_conv = pl_conv pl, nd_chain = pl_chain pl,
     nd_native_queue = [], nd_evm_queue = []\<rparr>) (pl_receiver pl)"

lemma node_ready:
  assumes "requirements_first [] order" "set order \<subseteq> set node_registered" "Blockchain_plugin \<in> set order"
    and "conforms (sys_options @ engine_option_decls @ ship_option_decls) vm"
    and "initialize_plugins W vm order = Inr pl" "\<not> app_quitting (pl_app pl)"
  shows "\<exists>e opts a a' pl' rc effs. pl_engine pl = Some e \<and> en_servers e \<and> ship_read_options vm = Inr opts \<and>
    load_head (nw_lib W) (en_db e) (so_start_from_canonical_height opts) a conv_init = Inr (pl_conv pl, a') \<and>
    \<not> app_quitting a' \<and> ship_startup (ship_initialize (nw_ship W) opts) = (rc, effs) \<and>
    started W order pl (Server_started # map Connection effs) pl' \<and>
    node_of pl' = Some (node_start rc (pl_conv pl))"
proof -
  note order = full_order [OF assms(1-3)]
  obtain settings dir eopts sopts where s: "sys_initialize vm = Inr settings" "ship_read_options vm = Inr sopts"
    "engine_initialize (nw_engine W) vm \<lparr>app_quitting = False\<rparr> = engine_construct (nw_engine W dir) eopts \<lparr>app_quitting = False\<rparr>"
    "initialize_plugins W vm node_order =
      rbind (engine_construct (nw_engine W dir) eopts \<lparr>app_quitting = False\<rparr>) (\<lambda>(e, a).
      rbind (load_head (nw_lib W) (en_db e) (so_start_from_canonical_height sopts) a conv_init) (\<lambda>(cv, a).
        Inr ((plugins_constructed W)\<lparr>pl_settings := settings, pl_engine := Some e,
          pl_receiver := Some (ship_initialize (nw_ship W) sopts), pl_conv := cv, pl_subscribed := True,
          pl_bound := True, pl_app := a\<rparr>)))"
    by (rule initialize_node [OF assms(4), of W])
  from assms(5) s(4) obtain e a cv a' where en: "engine_construct (nw_engine W dir) eopts \<lparr>app_quitting = False\<rparr> = Inr (e, a)"
    and ld: "load_head (nw_lib W) (en_db e) (so_start_from_canonical_height sopts) a conv_init = Inr (cv, a')"
    and pl: "pl = (plugins_constructed W)\<lparr>pl_settings := settings, pl_engine := Some e,
          pl_receiver := Some (ship_initialize (nw_ship W) sopts), pl_conv := cv, pl_subscribed := True,
          pl_bound := True, pl_app := a'\<rparr>"
    unfolding order by (auto simp: res_simps)
  have run: "\<not> app_quitting a'" using assms(6) pl by simp
  then have "en_servers e" using engine_construct_Inr [OF en] load_head_quitting [OF ld] by blast
  moreover obtain rc effs where rc: "ship_startup (ship_initialize (nw_ship W) sopts) = (rc, effs)" by fastforce
  moreover from rc \<open>en_servers e\<close> have "started W order pl (Server_started # map Connection effs) (pl\<lparr>pl_receiver := Some rc\<rparr>)"
    unfolding order pl by (simp add: node_order_def engine_plugin_startup_def engine_startup_def ship_plugin_startup_def idle_defs)
  moreover have "node_of (pl\<lparr>pl_receiver := Some rc\<rparr>) = Some (node_start rc cv)"
    unfolding pl by (simp add: node_of_def node_start_def plugins_constructed_def)
  moreover have "pl_engine pl = Some e" "pl_conv pl = cv" using pl by simp_all
  ultimately show ?thesis using s(2) ld run by blast
qed

text \<open>
  C12: A node that has been initialised and not been asked to quit is ready: the engine plugin has its
  servers, the head of the chain has been read from the database that it opened, at the height
  that the options give; then the startup reaches no null pointer, starts the server, opens
  the connection, and leaves exactly the state that the histories of the node begin with.
\<close>

theorem started_node_is_ready:
  assumes "requirements_first [] order" "set order \<subseteq> set node_registered" "Blockchain_plugin \<in> set order"
    and "conforms (sys_options @ engine_option_decls @ ship_option_decls) vm"
    and "initialize_plugins W vm order = Inr pl" "\<not> app_quitting (pl_app pl)"
  shows "\<exists>e opts a a' pl' rc effs. pl_engine pl = Some e \<and> en_servers e \<and> ship_read_options vm = Inr opts \<and>
    load_head (nw_lib W) (en_db e) (so_start_from_canonical_height opts) a conv_init = Inr (pl_conv pl, a') \<and>
    \<not> app_quitting a' \<and> ship_startup (ship_initialize (nw_ship W) opts) = (rc, effs) \<and>
    started W order pl (Server_started # map Connection effs) pl' \<and>
    node_of pl' = Some (node_start rc (pl_conv pl))"
  by (rule node_ready [OF assms])

definition sample_world :: "(bytes, bytes exec_call list) node_world" where
  "sample_world = \<lparr>nw_lib = sample_lib, nw_ship = sample_ship,
     nw_engine = (\<lambda>dir. \<lparr>ew_data_path_exists = True, ew_open_env = (\<lambda>c. Inr sample_chain_db),
       ew_regular_file = (\<lambda>f. False), ew_initialize_genesis = (\<lambda>d f. Inr d)\<rparr>),
     nw_exec = sample_exec,
     nw_log_settings = \<lparr>log_verbosity = 0, log_std_out = False, log_nocolor = False, log_file = ''''\<rparr>,
     nw_full_version = ''v1.0.0''\<rparr>"

definition sample_variables :: variables_map where
  "sample_variables = default_variables (sys_options @ engine_option_decls @ ship_option_decls)"

lemma sample_variables_conform: "conforms (sys_options @ engine_option_decls @ ship_option_decls) sample_variables"
  unfolding conforms_code by code_simp

lemma sample_order: "requirements_first [] node_order" "set node_order \<subseteq> set node_registered"
  "Blockchain_plugin \<in> set node_order"
  by (simp_all add: node_order_def node_registered_def requires_defs)

theorem started_node_is_ready_witness:
  "\<exists>pl pl' effs rc. initialize_plugins sample_world sample_variables node_order = Inr pl \<and>
    started sample_world node_order pl (Server_started # effs) pl' \<and>
    node_of pl' = Some (node_start rc sample_conv)"
proof -
  let ?i = "initialize_plugins sample_world sample_variables node_order"
  have "(case ?i of Inr pl \<Rightarrow> \<not> app_quitting (pl_app pl) \<and> pl_conv pl = sample_conv | _ \<Rightarrow> False)" by code_simp
  then obtain pl where pl: "?i = Inr pl" "\<not> app_quitting (pl_app pl)" "pl_conv pl = sample_conv"
    by (cases ?i) simp_all
  from started_node_is_ready [OF sample_order sample_variables_conform pl(1,2)] pl(1,3) show ?thesis by fastforce
qed

end
