(* ===== verification/Node_Program.thy ===== *)
theory Node_Program
  imports Node_Lifecycle
begin

text \<open>
  The whole program: from the options through the initialisation and the startup to any
  interleaving of network callbacks and deliveries, what the execution engine is given is the EVM
  chain that the ledger makes of the native blocks that were received.
\<close>

section \<open>The ledger beside the node\<close>

text \<open>
  The record of a history: of the native blocks that the receiver published, the ledger has taken
  those that the conversion has, in the same order, and the others wait in the channel.
\<close>

definition ledger_recorded ::
  "'tx lib \<Rightarrow> block_mapping \<Rightarrow> u64 \<Rightarrow> bytes32 \<Rightarrow> native_block list \<Rightarrow> ('tx, 'x) node \<Rightarrow> 'tx node_effect list \<Rightarrow> bool" where
  "ledger_recorded L m s i ns0 nd h \<longleftrightarrow>
     (\<exists>ds ch. received h = ds @ nd_native_queue nd \<and> run_spec ledger_step ds ns0 = Some ch \<and>
        archive L m s i ch (nd_conv nd) (published (conv_effects h)))"

interpretation pipeline: recording_handler "node_step L E X" "node_ok L E m"
  "\<lambda>nd. conv_wf L m s i (nd_conv nd)" "ledger_recorded L m s i ns0"
  for L :: "'tx lib" and E :: "('def, 'more) ship_env_scheme" and X :: "('tx, 'x) exec_lib" and m s i ns0
proof
  fix nd nd' :: "('tx, 'x) node" and ev es h
  assume wf: "conv_wf L m s i (nd_conv nd)" and rec: "ledger_recorded L m s i ns0 nd h"
    and ok: "node_ok L E m nd ev" and step: "node_step L E X ev nd = Some (Inr (nd', es))"
  from rec obtain ds ch where ds: "received h = ds @ nd_native_queue nd" "run_spec ledger_step ds ns0 = Some ch"
    "archive L m s i ch (nd_conv nd) (published (conv_effects h))" by (auto simp: ledger_recorded_def)
  from step show "ledger_recorded L m s i ns0 nd' (h @ es)"
  proof (cases rule: node_step_cases)
    case (native db b q cv cs)
    have "block_ok L m (nd_conv nd) b" using node_okD(1) ok native by blast
    from archive_step [OF wf this native(3) ds(3)] obtain ch' where
      "ledger_step b ch = Some ch'" "archive L m s i ch' cv (published (conv_effects h) @ published cs)" by blast
    then show ?thesis using ds native run_spec_snoc [OF ds(2), of b]
      by (auto simp: ledger_recorded_def received_def intro!: exI [of _ "ds @ [b]"])
  qed (use ds in \<open>auto simp: ledger_recorded_def received_def\<close>)
qed

text \<open>What the engine gets, over any history of the composed node.\<close>

lemma node_runs_the_ledger:
  assumes start: "load_head L db n a conv_init = Inr (cv, a')" "\<not> app_quitting a'"
    "get_canonical_block_at_height db n = Some b0" "start_mapped L db b0" "lib_ok L" "cv_bm cv = Some m"
    and run: "handled (node_step L E X) (node_ok L E m) (node_start rc cv) evs es nd"
    and live: "\<not> failed (chain_effects es)"
  shows "\<exists>ds ch. received es = ds @ nd_native_queue nd \<and> run_spec ledger_step ds (cv_native_blocks cv) = Some ch \<and>
    (\<forall>k. blk_number b0 \<le> k \<longrightarrow> k < ledger_height L m (blk_number b0) ch \<longrightarrow>
      (\<exists>q. latest (inserted (calls (chain_effects es)) @ nd_evm_queue nd) k = Some q \<and>
         ledger_block L m (blk_number b0) (hd_prev_randao (blk_header b0)) ch q \<and>
         (k \<noteq> blk_number b0 \<longrightarrow> (\<exists>p. latest (inserted (calls (chain_effects es)) @ nd_evm_queue nd) (k - 1) = Some p \<and>
            hd_parent_hash (blk_header q) = lib_header_hash L (blk_header p)))))"
proof -
  let ?s = "blk_number b0" and ?i = "hd_prev_randao (blk_header b0)"
  note rel = archive_start [OF start]
  have wf0: "conv_wf L m ?s ?i (nd_conv (node_start rc cv))" using rel(1) by (simp add: node_start_def)
  have "node_recorded L b0 nd ([] @ es)"
    by (rule node.handled_recorded [OF run wf0])
      (use start_recorded [OF start] in \<open>simp add: node_start_def node_recorded_def\<close>)
  with live have ins: "inserted (calls (chain_effects es)) @ nd_evm_queue nd = published (conv_effects es)"
    by (simp add: node_recorded_def)
  have "ledger_recorded L m ?s ?i (cv_native_blocks cv) nd ([] @ es)"
    by (rule pipeline.handled_recorded [OF run wf0])
      (use rel(2) in \<open>simp add: ledger_recorded_def node_start_def received_def native_published_def conv_related_def\<close>)
  then obtain ds ch where ds: "received es = ds @ nd_native_queue nd"
    "run_spec ledger_step ds (cv_native_blocks cv) = Some ch"
    and arch: "archive L m ?s ?i ch (nd_conv nd) (published (conv_effects es))"
    by (auto simp: ledger_recorded_def)
  have "conv_inv L m ?s ?i (nd_conv nd)" using node.handled_inv [OF run wf0] by (simp add: conv_wf_def)
  with ds archive_latest [OF arch] show ?thesis unfolding ins by blast
qed

text \<open>What the properties of a started node begin with.\<close>

lemma program_started:
  assumes "requirements_first [] order" "set order \<subseteq> set node_registered" "Blockchain_plugin \<in> set order"
    and "conforms (sys_options @ engine_option_decls @ ship_option_decls) vm"
    and "initialize_plugins W vm order = Inr pl" "\<not> app_quitting (pl_app pl)"
    and "started W order pl effs pl'" "node_of pl' = Some nd0"
    and "engine_canonical_block_at_height pl (get_start_from_canonical_height pl) = Inr (Some b0)"
    and "get_db pl = Inr db"
  obtains e rc n a a' where "pl_engine pl = Some e" "en_servers e" "db = en_db e" "nd0 = node_start rc (pl_conv pl)"
    "load_head (nw_lib W) db n a conv_init = Inr (pl_conv pl, a')" "\<not> app_quitting a'"
    "get_canonical_block_at_height db n = Some b0"
proof -
  from node_ready [OF assms(1-6)] obtain e opts a a' rc p1 effs1 where
    e: "pl_engine pl = Some e" "en_servers e" and opts: "ship_read_options vm = Inr opts" and
    ld: "load_head (nw_lib W) (en_db e) (so_start_from_canonical_height opts) a conv_init = Inr (pl_conv pl, a')"
      "\<not> app_quitting a'"
    and start: "started W order pl effs1 p1" "node_of p1 = Some (node_start rc (pl_conv pl))" by blast
  have nd0: "nd0 = node_start rc (pl_conv pl)" using started_once [OF start(1) assms(7)] start(2) assms(8) by simp
  have db: "db = en_db e" using assms(10) e by (simp add: get_db_def deref_def res_simps)
  have "get_start_from_canonical_height pl = so_start_from_canonical_height opts"
    by (rule node_start_height [OF assms(1-5) opts])
  with assms(9,10) have b0: "get_canonical_block_at_height (en_db e) (so_start_from_canonical_height opts) = Some b0"
    by (simp add: db engine_canonical_block_at_height_def res_simps)
  show thesis by (rule that [OF e db nd0 ld [folded db] b0 [folded db]])
qed

section \<open>Properties\<close>

text \<open>
  C2: The program does what the ledger says, from its options to the execution engine. When the node
  has been initialised in an order that respects the requirements, with options of their
  declared types, and has started without being asked to quit: then over every interleaving of
  network callbacks and deliveries, until a call to the engine fails, the native blocks that the
  receiver published are those that the ledger took, followed by those still in the channel; and
  for every number below the height of the ledger, the last EVM block given to the engine or
  waiting for it holds exactly the transactions and the id that the ledger has, and follows by
  hash the last one of the number before.
\<close>

theorem program_refines_ledger:
  assumes "requirements_first [] order" "set order \<subseteq> set node_registered" "Blockchain_plugin \<in> set order"
    and "conforms (sys_options @ engine_option_decls @ ship_option_decls) vm"
    and "initialize_plugins W vm order = Inr pl" "\<not> app_quitting (pl_app pl)"
    and "started W order pl effs pl'" "node_of pl' = Some nd0"
    and "engine_canonical_block_at_height pl (get_start_from_canonical_height pl) = Inr (Some b0)"
    and "get_db pl = Inr db" "start_mapped (nw_lib W) db b0" "lib_ok (nw_lib W)" "cv_bm (pl_conv pl) = Some m"
    and "handled (node_step (nw_lib W) E (nw_exec W)) (node_ok (nw_lib W) E m) nd0 evs es nd"
    and "\<not> failed (chain_effects es)"
  shows "\<exists>ds ch. received es = ds @ nd_native_queue nd \<and>
    run_spec ledger_step ds (cv_native_blocks (pl_conv pl)) = Some ch \<and>
    (\<forall>k. blk_number b0 \<le> k \<longrightarrow> k < ledger_height (nw_lib W) m (blk_number b0) ch \<longrightarrow>
      (\<exists>q. latest (inserted (calls (chain_effects es)) @ nd_evm_queue nd) k = Some q \<and>
         ledger_block (nw_lib W) m (blk_number b0) (hd_prev_randao (blk_header b0)) ch q \<and>
         (k \<noteq> blk_number b0 \<longrightarrow> (\<exists>p. latest (inserted (calls (chain_effects es)) @ nd_evm_queue nd) (k - 1) = Some p \<and>
            hd_parent_hash (blk_header q) = lib_header_hash (nw_lib W) (blk_header p)))))"
proof -
  obtain e rc n a a' where nd0: "nd0 = node_start rc (pl_conv pl)" and
    ld: "load_head (nw_lib W) db n a conv_init = Inr (pl_conv pl, a')" "\<not> app_quitting a'"
      "get_canonical_block_at_height db n = Some b0"
    by (rule program_started [OF assms(1-10)])
  show ?thesis by (rule node_runs_the_ledger [OF ld assms(11-13) assms(14) [unfolded nd0] assms(15)])
qed

text \<open>The run of the composed node, from the options on.\<close>

definition pipe_world :: "(bytes, bytes exec_call list) node_world" where
  "pipe_world = sample_world\<lparr>nw_ship := ship_lib.truncate pipe_env\<rparr>"

definition pipe_variables :: variables_map where
  "pipe_variables = sample_variables(''ship-max-retry'' := Some (Opt_u32 1))"

lemma pipe_variables_conform: "conforms (sys_options @ engine_option_decls @ ship_option_decls) pipe_variables"
  unfolding conforms_code by code_simp

lemma pipe_initialized:
  obtains pl pl' effs db where "initialize_plugins pipe_world pipe_variables node_order = Inr pl"
    "\<not> app_quitting (pl_app pl)" "pl_conv pl = sample_conv"
    "engine_canonical_block_at_height pl (get_start_from_canonical_height pl) = Inr (Some sample_start_block)"
    "get_db pl = Inr db" "start_mapped sample_lib db sample_start_block"
    "started pipe_world node_order pl effs pl'"
    "node_of pl' = Some (node_start pipe_receiver sample_conv)"
proof -
  let ?i = "initialize_plugins pipe_world pipe_variables node_order"
  have "(case ?i of Inl e \<Rightarrow> False | Inr pl \<Rightarrow> \<not> app_quitting (pl_app pl) \<and> pl_conv pl = sample_conv \<and>
      engine_canonical_block_at_height pl (get_start_from_canonical_height pl) = Inr (Some sample_start_block) \<and>
      (case get_db pl of Inl e \<Rightarrow> False | Inr db \<Rightarrow> start_mapped sample_lib db sample_start_block))" by code_simp
  then obtain pl db where pl: "?i = Inr pl" "\<not> app_quitting (pl_app pl)" "pl_conv pl = sample_conv"
    "engine_canonical_block_at_height pl (get_start_from_canonical_height pl) = Inr (Some sample_start_block)"
    "get_db pl = Inr db" "start_mapped sample_lib db sample_start_block"
    by (auto split: sum.splits)
  have "ship_read_options pipe_variables = Inr sample_options" by code_simp
  moreover have "nw_ship pipe_world = ship_lib.truncate pipe_env" by (simp add: pipe_world_def)
  ultimately show thesis
    using node_ready [OF sample_order pipe_variables_conform pl(1,2)] pl by (auto simp: pipe_receiver_def intro: that)
qed

theorem program_refines_ledger_witness:
  "\<exists>pl pl' effs nd es ds ch q. initialize_plugins pipe_world pipe_variables node_order = Inr pl \<and>
    started pipe_world node_order pl effs pl' \<and>
    handled (node_step sample_lib pipe_env sample_exec) (node_ok sample_lib pipe_env sample_mapping)
      (node_start pipe_receiver sample_conv) pipe_events es nd \<and>
    received es = ds \<and> run_spec ledger_step ds (cv_native_blocks sample_conv) = Some ch \<and>
    latest (inserted (calls (chain_effects es)) @ nd_evm_queue nd) 3 = Some q \<and>
    ledger_block sample_lib sample_mapping 3 (sample_id 10 0) ch q"
proof -
  obtain pl pl' effs db where pl: "initialize_plugins pipe_world pipe_variables node_order = Inr pl"
    "\<not> app_quitting (pl_app pl)" "pl_conv pl = sample_conv"
    "engine_canonical_block_at_height pl (get_start_from_canonical_height pl) = Inr (Some sample_start_block)"
    "get_db pl = Inr db" "start_mapped sample_lib db sample_start_block"
    "started pipe_world node_order pl effs pl'"
    "node_of pl' = Some (node_start pipe_receiver sample_conv)" by (rule pipe_initialized)
  obtain nd es where run: "handled (node_step sample_lib pipe_env sample_exec) (node_ok sample_lib pipe_env sample_mapping)
       (node_start pipe_receiver sample_conv) pipe_events es nd" "\<not> failed (chain_effects es)"
    "map (unat \<circ> blk_number) (inserted (calls (chain_effects es))) = [3]" "nd_native_queue nd = []"
    "received es = [pipe_block]"
    by (rule pipe_run_result)
  have W: "nw_lib pipe_world = sample_lib" "nw_exec pipe_world = sample_exec"
    by (simp_all add: pipe_world_def sample_world_def)
  have b0: "blk_number sample_start_block = 3" "hd_prev_randao (blk_header sample_start_block) = sample_id 10 0"
    by code_simp+
  have h: "(case run_spec ledger_step [pipe_block] (cv_native_blocks sample_conv) of
      Some ch \<Rightarrow> 3 < ledger_height sample_lib sample_mapping 3 ch | None \<Rightarrow> False)" by code_simp
  from program_refines_ledger [OF sample_order pipe_variables_conform pl(1,2,7,8,4,5), unfolded W pl(3) b0,
      OF pl(6) sample_lib_ok pipe_start(2) run(1,2)] run(4,5) h pl(1,7) run(1)
  show ?thesis by (fastforce split: option.splits)
qed

end
