(* ===== verification/Node_End.thy ===== *)
theory Node_End
  imports Node_Program
begin

text \<open>
  The end of a run: the application quits, and the shutdown of the plugins finds what the events
  of the run have left.
\<close>

section \<open>The engine of a running node\<close>

text \<open>A call leaves the engine where it is, and is recorded.\<close>

lemma call_engine_opens: "call_engine X c st = Inr (st', es, x) \<Longrightarrow> ch_exec_engine st' \<noteq> None \<and> calls es \<noteq> []"
  by (auto simp: call_engine_Inr)

lemma store_and_verify_opens:
  "store_and_verify X cv b st = Inr (st', es, x) \<Longrightarrow> ch_exec_engine st' \<noteq> None"
  by (auto simp: store_and_verify_def res_simps attempt_then_Inr call_engine_Inr split: option.splits)

lemma open_engine_opens:
  assumes "open_engine X st = Inr (st', es, x)"
  shows "ch_exec_engine st' = None \<longleftrightarrow> ch_exec_engine st = None \<and> calls es = []" "x = None \<longrightarrow> ch_exec_engine st' \<noteq> None"
  using assms by (auto simp: open_engine_def call_engine_Inr split: option.splits sum.splits)

lemma process_evm_block_opens:
  assumes "process_evm_block X cv b st = Inr (st', es, x)"
  shows "ch_exec_engine st' = None \<longleftrightarrow> ch_exec_engine st = None \<and> calls es = []"
proof -
  from assms obtain st1 es1 x1 where o: "open_engine X st = Inr (st1, es1, x1)"
    and rest: "case x1 of Some exn \<Rightarrow> st' = st1 \<and> es = es1 \<and> x = Some exn
      | None \<Rightarrow> \<exists>es2. attempt_then (call_engine X (Insert_block b) st1) (\<lambda>st.
          let st = st\<lparr>ch_block_count := ch_block_count st + 1\<rparr> in
          if verify_due b (ch_block_count st) then store_and_verify X cv b st else Inr (st, [], None))
          = Inr (st', es2, x) \<and> es = es1 @ es2"
    unfolding process_evm_block_def attempt_then_Inr by blast
  show ?thesis
  proof (cases x1)
    case (Some exn)
    with rest open_engine_opens(1) [OF o] show ?thesis by simp
  next
    case None
    with rest obtain es2 where ins: "attempt_then (call_engine X (Insert_block b) st1) (\<lambda>st.
          let st = st\<lparr>ch_block_count := ch_block_count st + 1\<rparr> in
          if verify_due b (ch_block_count st) then store_and_verify X cv b st else Inr (st, [], None))
          = Inr (st', es2, x)" and es: "es = es1 @ es2" by auto
    then obtain st2 es3 x3 where call: "call_engine X (Insert_block b) st1 = Inr (st2, es3, x3)"
      and more: "case x3 of Some exn \<Rightarrow> st' = st2 \<and> es2 = es3 \<and> x = Some exn
        | None \<Rightarrow> \<exists>es4. (let st = st2\<lparr>ch_block_count := ch_block_count st2 + 1\<rparr> in
          if verify_due b (ch_block_count st) then store_and_verify X cv b st else Inr (st, [], None))
          = Inr (st', es4, x) \<and> es2 = es3 @ es4"
      unfolding attempt_then_Inr by blast
    note opens = call_engine_opens [OF call]
    have "ch_exec_engine st' \<noteq> None"
      using more opens by (auto simp: Let_def split: option.splits if_splits dest: store_and_verify_opens)
    moreover have "calls es \<noteq> []" using more opens es by (auto split: option.splits)
    ultimately show ?thesis by simp
  qed
qed

lemma on_evm_block_opens:
  assumes "on_evm_block X cv b st = Inr (st', es)"
  shows "ch_exec_engine st' = None \<longleftrightarrow> ch_exec_engine st = None \<and> calls es = []"
proof -
  from assms obtain es1 x where p: "process_evm_block X cv b st = Inr (st', es1, x)"
    and es: "es = (case x of None \<Rightarrow> es1 | Some exn \<Rightarrow> es1 @ [Chain_error (error_message exn)])"
    by (auto simp: on_evm_block_def res_simps)
  from process_evm_block_opens [OF p] es show ?thesis by (cases x) simp_all
qed

text \<open>The pointer to the execution engine is set exactly when the engine has been called.\<close>

interpretation engine_use: recording_handler "node_step L E X" "node_ok L E m"
  "\<lambda>nd. conv_wf L m s i (nd_conv nd)"
  "\<lambda>nd h. ch_exec_engine (nd_chain nd) = None \<longleftrightarrow> calls (chain_effects h) = []"
  for L :: "'tx lib" and E :: "('def, 'more) ship_env_scheme" and X :: "('tx, 'x) exec_lib" and m s i
proof
  fix nd nd' :: "('tx, 'x) node" and ev and es h :: "'tx node_effect list"
  assume rec: "ch_exec_engine (nd_chain nd) = None \<longleftrightarrow> calls (chain_effects h) = []"
    and step: "node_step L E X ev nd = Some (Inr (nd', es))"
  from step show "ch_exec_engine (nd_chain nd') = None \<longleftrightarrow> calls (chain_effects (h @ es)) = []"
  proof (cases rule: node_step_cases)
    case (evm b q ch hs)
    from on_evm_block_opens [OF evm(3)] rec evm(4,5) show ?thesis by simp
  qed (use rec in simp_all)
qed

section \<open>The startup and the engine plugin\<close>

lemma startup_keeps_engine:
  assumes "started W node_order pl effs pl'"
  shows "pl_engine pl' = pl_engine pl"
  using assms by (auto simp: node_order_def ship_plugin_startup_def idle_defs res_simps case_prod_unfold)

text \<open>The members of the plugins when the application quits.\<close>

definition with_node :: "('tx, 'x) node \<Rightarrow> ('tx, 'x) plugins \<Rightarrow> ('tx, 'x) plugins" where
  "with_node nd pl = pl\<lparr>pl_receiver := Some (nd_receiver nd), pl_conv := nd_conv nd, pl_chain := nd_chain nd\<rparr>"

lemma with_node_simps [simp]: "pl_engine (with_node nd pl) = pl_engine pl" "pl_chain (with_node nd pl) = nd_chain nd"
  by (simp_all add: with_node_def)

section \<open>The shutdowns\<close>

text \<open>What the shutdown of each plugin of the node does, when the execution engine exists and does not throw.\<close>

fun shutdown_effects :: "plugin \<Rightarrow> 'tx life_effect list" where
  "shutdown_effects Blockchain_plugin = [Engine_call (Exec Stop_engine), Engine_call (Exec Close_engine)]"
| "shutdown_effects Engine_plugin = [Server_stopped]"
| "shutdown_effects _ = []"

lemma chain_plugin_shutdown_null:
  "ch_exec_engine (pl_chain pl) = None \<Longrightarrow>
   chain_plugin_shutdown W pl = Inl (Undefined_behaviour ''exec_engine is null'')"
  by (simp add: chain_plugin_shutdown_def chain_shutdown_def attempt_then_def call_engine_def deref_def)

lemma chain_plugin_shutdown_call:
  assumes "ch_exec_engine (pl_chain pl) = Some x"
  shows "chain_plugin_shutdown W pl =
    (case xl_call (nw_exec W) Stop_engine x of
       (x1, Some exn) \<Rightarrow> Inl (External_exception ''exec_engine'')
     | (x1, None) \<Rightarrow>
         (case xl_call (nw_exec W) Close_engine x1 of
            (x2, Some exn) \<Rightarrow> Inl (External_exception ''exec_engine'')
          | (x2, None) \<Rightarrow>
              Inr (pl\<lparr>pl_chain := (pl_chain pl)\<lparr>ch_exec_engine := Some x2\<rparr>\<rparr>,
                   [Engine_call (Exec Stop_engine), Engine_call (Exec Close_engine)])))"
  using assms
  by (auto simp: chain_plugin_shutdown_def chain_shutdown_def attempt_then_def call_engine_def split: prod.splits option.splits)

text \<open>Calls that all return leave the engine null only if the blockchain plugin is not among them.\<close>

lemma stopped_without_engine:
  assumes "stopped W ps pl effs pl'" "ch_exec_engine (pl_chain pl) = None"
  shows "Blockchain_plugin \<notin> set ps"
  using assms
proof (induction ps arbitrary: pl effs)
  case (Cons p ps)
  then obtain pl1 es es' where 1: "plugin_shutdown W p pl = Inr (pl1, es)" "stopped W ps pl1 es' pl'" by auto
  have "p \<noteq> Blockchain_plugin" using 1(1) chain_plugin_shutdown_null [OF Cons.prems(2)] by auto
  moreover from 1(1) this Cons.prems(2) have "ch_exec_engine (pl_chain pl1) = None"
    by (cases p) (auto simp: idle_defs res_simps)
  ultimately show ?case using Cons.IH [OF 1(2)] by simp
qed simp

text \<open>In any order, they stop what there is to stop, and do not get in each other's way.\<close>

lemma stopped_any_order:
  assumes "distinct ps" "set ps \<subseteq> set node_registered" "pl_engine pl = Some e" "en_servers e"
    and "Blockchain_plugin \<in> set ps \<Longrightarrow> ch_exec_engine (pl_chain pl) = Some x"
    and "xl_call (nw_exec W) Stop_engine x = (x1, None)" "xl_call (nw_exec W) Close_engine x1 = (x2, None)"
  shows "stopped W ps pl (concat (map shutdown_effects ps))
    (if Blockchain_plugin \<in> set ps then pl\<lparr>pl_chain := (pl_chain pl)\<lparr>ch_exec_engine := Some x2\<rparr>\<rparr> else pl)"
  using assms(1-5)
proof (induction ps arbitrary: pl)
  case (Cons p ps)
  let ?pl1 = "if p = Blockchain_plugin then pl\<lparr>pl_chain := (pl_chain pl)\<lparr>ch_exec_engine := Some x2\<rparr>\<rparr> else pl"
  have "plugin_shutdown W p pl = Inr (?pl1, shutdown_effects p)"
    using Cons.prems(2-5) assms(6,7) chain_plugin_shutdown_call [of pl x W]
    by (cases p) (auto simp: idle_defs engine_plugin_shutdown_def engine_shutdown_def node_registered_def)
  moreover have "stopped W ps ?pl1 (concat (map shutdown_effects ps))
      (if Blockchain_plugin \<in> set ps then ?pl1\<lparr>pl_chain := (pl_chain ?pl1)\<lparr>ch_exec_engine := Some x2\<rparr>\<rparr> else ?pl1)"
    using Cons.prems by (intro Cons.IH) (auto split: if_splits)
  ultimately show ?case using Cons.prems(1) by (auto split: if_splits)
qed simp

section \<open>Properties\<close>

text \<open>
  C25: How a run ends. After any history of the started node, let the framework call the shutdowns of
  the plugins, in any order \<open>ps\<close>. If the execution engine has not been called, because no EVM block was
  delivered or its construction failed, the shutdown of the blockchain plugin dereferences a null
  pointer, so not all of the calls return. Otherwise it stops the engine and closes it; when
  neither of these throws, all the calls return, whatever their order, with exactly the effects of
  each plugin; when one does, the exception leaves the shutdown of the plugin.
\<close>

theorem shutdown_after_run:
  assumes "requirements_first [] order" "set order \<subseteq> set node_registered" "Blockchain_plugin \<in> set order"
    and "conforms (sys_options @ engine_option_decls @ ship_option_decls) vm"
    and "initialize_plugins W vm order = Inr pl" "\<not> app_quitting (pl_app pl)"
    and "started W order pl effs pl'" "node_of pl' = Some nd0"
    and "engine_canonical_block_at_height pl (get_start_from_canonical_height pl) = Inr (Some b0)"
    and "get_db pl = Inr db" "start_mapped (nw_lib W) db b0" "lib_ok (nw_lib W)" "cv_bm (pl_conv pl) = Some m"
    and "handled (node_step (nw_lib W) E (nw_exec W)) (node_ok (nw_lib W) E m) nd0 evs es nd"
    and "distinct ps" "set ps \<subseteq> set node_registered" "Blockchain_plugin \<in> set ps"
  shows "if calls (chain_effects es) = []
    then plugin_shutdown W Blockchain_plugin (with_node nd pl') = Inl (Undefined_behaviour ''exec_engine is null'') \<and>
      \<not> (\<exists>effs' pl2. stopped W ps (with_node nd pl') effs' pl2)
    else \<exists>x. ch_exec_engine (nd_chain nd) = Some x \<and>
      (case xl_call (nw_exec W) Stop_engine x of
         (x1, Some exn) \<Rightarrow> plugin_shutdown W Blockchain_plugin (with_node nd pl') = Inl (External_exception ''exec_engine'')
       | (x1, None) \<Rightarrow>
           (case xl_call (nw_exec W) Close_engine x1 of
              (x2, Some exn) \<Rightarrow> plugin_shutdown W Blockchain_plugin (with_node nd pl') = Inl (External_exception ''exec_engine'')
            | (x2, None) \<Rightarrow> stopped W ps (with_node nd pl') (concat (map shutdown_effects ps))
                ((with_node nd pl')\<lparr>pl_chain := (nd_chain nd)\<lparr>ch_exec_engine := Some x2\<rparr>\<rparr>)))"
proof -
  note order = full_order [OF assms(1-3)]
  obtain e rc n a a' where
    e: "pl_engine pl = Some e" "en_servers e" "db = en_db e" and nd0: "nd0 = node_start rc (pl_conv pl)" and
    ld: "load_head (nw_lib W) db n a conv_init = Inr (pl_conv pl, a')" "\<not> app_quitting a'"
      "get_canonical_block_at_height db n = Some b0"
    by (rule program_started [OF assms(1-10)])
  note wf = archive_start(1) [OF ld assms(11-13)]
  have used: "ch_exec_engine (nd_chain nd) = None \<longleftrightarrow> calls (chain_effects ([] @ es)) = []"
    by (rule engine_use.handled_recorded [OF assms(14) [unfolded nd0]])
      (use wf in \<open>simp_all add: node_start_def chain_init_def\<close>)
  have eng: "pl_engine (with_node nd pl') = Some e"
    using startup_keeps_engine [OF assms(7) [unfolded order]] e by simp
  show ?thesis
  proof (cases "ch_exec_engine (nd_chain nd)")
    case None
    then have none: "ch_exec_engine (pl_chain (with_node nd pl')) = None" by simp
    from stopped_without_engine [OF _ none] assms(17) have "\<not> stopped W ps (with_node nd pl') effs' pl2" for effs' pl2
      by blast
    with chain_plugin_shutdown_null [OF none] used None show ?thesis by simp
  next
    case (Some x)
    then have x: "ch_exec_engine (pl_chain (with_node nd pl')) = Some x" by simp
    from chain_plugin_shutdown_call [OF x, of W] stopped_any_order [OF assms(15,16) eng e(2) x, of W] used Some assms(17)
    show ?thesis by (auto split: option.splits prod.splits)
  qed
qed

theorem shutdown_after_run_witness:
  "\<exists>pl pl' effs nd es x. initialize_plugins pipe_world pipe_variables node_order = Inr pl \<and>
    started pipe_world node_order pl effs pl' \<and>
    handled (node_step sample_lib pipe_env sample_exec) (node_ok sample_lib pipe_env sample_mapping)
      (node_start pipe_receiver sample_conv) pipe_events es nd \<and>
    ch_exec_engine (nd_chain nd) = Some x \<and>
    stopped pipe_world [Blockchain_plugin, Sys_plugin, Engine_plugin] (with_node nd pl')
      [Engine_call (Exec Stop_engine), Engine_call (Exec Close_engine), Server_stopped]
      ((with_node nd pl')\<lparr>pl_chain := (nd_chain nd)\<lparr>ch_exec_engine := Some (x @ [Stop_engine, Close_engine])\<rparr>\<rparr>)"
proof -
  obtain pl pl' effs db where pl: "initialize_plugins pipe_world pipe_variables node_order = Inr pl"
    "\<not> app_quitting (pl_app pl)" "pl_conv pl = sample_conv"
    "engine_canonical_block_at_height pl (get_start_from_canonical_height pl) = Inr (Some sample_start_block)"
    "get_db pl = Inr db" "start_mapped sample_lib db sample_start_block"
    "started pipe_world node_order pl effs pl'"
    "node_of pl' = Some (node_start pipe_receiver sample_conv)" by (rule pipe_initialized)
  obtain nd es where run: "handled (node_step sample_lib pipe_env sample_exec) (node_ok sample_lib pipe_env sample_mapping)
       (node_start pipe_receiver sample_conv) pipe_events es nd"
    "map (unat \<circ> blk_number) (inserted (calls (chain_effects es))) = [3]" by (rule pipe_run_result)
  have W: "nw_lib pipe_world = sample_lib" "nw_exec pipe_world = sample_exec"
    by (simp_all add: pipe_world_def sample_world_def)
  have ps: "distinct [Blockchain_plugin, Sys_plugin, Engine_plugin]"
    "set [Blockchain_plugin, Sys_plugin, Engine_plugin] \<subseteq> set node_registered"
    "Blockchain_plugin \<in> set [Blockchain_plugin, Sys_plugin, Engine_plugin]" by (simp_all add: node_registered_def)
  have "calls (chain_effects es) \<noteq> []" using run(2) by auto
  with shutdown_after_run [OF sample_order pipe_variables_conform pl(1,2,7,8,4,5), unfolded W pl(3),
      OF pl(6) sample_lib_ok pipe_start(2) run(1) ps]
  obtain x where "ch_exec_engine (nd_chain nd) = Some x" "stopped pipe_world [Blockchain_plugin, Sys_plugin, Engine_plugin]
      (with_node nd pl') [Engine_call (Exec Stop_engine), Engine_call (Exec Close_engine), Server_stopped]
      ((with_node nd pl')\<lparr>pl_chain := (nd_chain nd)\<lparr>ch_exec_engine := Some (x @ [Stop_engine, Close_engine])\<rparr>\<rparr>)"
    by (auto simp: sample_exec_def simp del: stopped_simps)
  with pl(1,7) run(1) show ?thesis by blast
qed

end
