(* ===== verification/Node_Heights.thy ===== *)
theory Node_Heights
  imports Node_Pipeline Conversion_Finality
begin

text \<open>
  The height that the blockchain plugin stores for the next start. It is read from the block
  conversion when an EVM block is delivered, which may be ahead of the blocks delivered so far;
  whatever is stored is the number of a block that was published and will not be replaced.
\<close>

section \<open>Native blocks that respect irreversibility\<close>

definition node_final ::
  "'tx lib \<Rightarrow> ('def, 'more) ship_env_scheme \<Rightarrow> block_mapping \<Rightarrow> ('tx, 'x) node \<Rightarrow> 'tx node_event \<Rightarrow> bool" where
  "node_final L E m nd ev \<longleftrightarrow> node_ok L E m nd ev \<and>
     (case ev of
        Native_delivery db \<Rightarrow>
          (case nd_native_queue nd of
             [] \<Rightarrow> True | b # q \<Rightarrow> final_ok L m (nd_conv nd) (b, ch_exec_engine (nd_chain nd) \<noteq> None))
      | _ \<Rightarrow> True)"

lemma node_finalD:
  "node_final L E m nd ev \<Longrightarrow> node_ok L E m nd ev"
  "node_final L E m nd (Native_delivery db) \<Longrightarrow> nd_native_queue nd = b # q \<Longrightarrow>
    final_ok L m (nd_conv nd) (b, ch_exec_engine (nd_chain nd) \<noteq> None)"
  by (auto simp: node_final_def)

section \<open>What is stored\<close>

definition stored_heights :: "'tx exec_call list \<Rightarrow> u64 list" where
  "stored_heights cs = concat (map (\<lambda>c. case c of Write_lib_processed h \<Rightarrow> [h] | _ \<Rightarrow> []) cs)"

lemma stored_heights_simps [simp]:
  "stored_heights [] = []" "stored_heights (cs @ cs') = stored_heights cs @ stored_heights cs'"
  "stored_heights (c # cs) = (case c of Write_lib_processed h \<Rightarrow> [h] | _ \<Rightarrow> []) @ stored_heights cs"
  by (simp_all add: stored_heights_def)

text \<open>A delivery stores the height that the conversion has at that time.\<close>

lemma on_evm_block_stores:
  assumes "on_evm_block X cv b st = Inr (st', es)" "h \<in> set (stored_heights (calls es))"
  shows "cv_evm_lib cv = Some h"
proof -
  obtain r where r: "open_calls st @ [Insert_block b] @ verify_calls X cv b (ch_block_count st + 1) = calls es @ r"
    using on_evm_block_calls [OF assms(1)] by auto
  have "h \<in> set (stored_heights (calls es @ r))" using assms(2) by simp
  then show ?thesis
    unfolding r [symmetric] by (auto simp: open_calls_def verify_calls_def split: if_splits option.splits)
qed

text \<open>
  The record of a history: the ledger that it leads to, and that no stored height is above the
  irreversible height of the conversion.
\<close>

definition heights_recorded ::
  "'tx lib \<Rightarrow> block_mapping \<Rightarrow> u64 \<Rightarrow> bytes32 \<Rightarrow> ('tx, 'x) node \<Rightarrow> 'tx node_effect list \<Rightarrow> bool" where
  "heights_recorded L m s i nd h \<longleftrightarrow>
     (\<exists>ch. archive L m s i ch (nd_conv nd) (published (conv_effects h))) \<and>
     (\<forall>w \<in> set (stored_heights (calls (chain_effects h))). \<exists>l. cv_evm_lib (nd_conv nd) = Some l \<and> w \<le> l)"

lemma native_step_final:
  assumes wf: "conv_wf L m s i cv" and below: "lib_below cv" and ok: "final_ok L m cv (b, eng)"
    and on: "on_native_block L db eng b cv = Some (Inr (cv', cs))"
  shows "conv_wf L m s i cv'" "lib_below cv'"
    "cv_evm_lib cv = Some l \<Longrightarrow> (\<forall>q \<in> set (published cs). l < blk_number q) \<and> (\<exists>l'. cv_evm_lib cv' = Some l' \<and> l \<le> l')"
proof -
  have b: "block_ok L m cv b" using ok by (simp add: final_ok_def)
  show "conv_wf L m s i cv'" by (rule on_native_block_keeps [OF wf b on])
  note final_step [OF wf ok below, of db cv' cs]
  with on show "lib_below cv'" "cv_evm_lib cv = Some l \<Longrightarrow>
      (\<forall>q \<in> set (published cs). l < blk_number q) \<and> (\<exists>l'. cv_evm_lib cv' = Some l' \<and> l \<le> l')"
    by (simp_all add: conv_step_def)
qed

interpretation heights: recording_handler "node_step L E X" "node_final L E m"
  "\<lambda>nd. conv_wf L m s i (nd_conv nd) \<and> reaches_height h (nd_conv nd)"
  "\<lambda>nd es. stays_above h (conv_effects es) \<and> (h = None \<longrightarrow> heights_recorded L m s i nd es)"
  for L :: "'tx lib" and E :: "('def, 'more) ship_env_scheme" and X :: "('tx, 'x) exec_lib" and m s i h
proof
  fix nd nd' :: "('tx, 'x) node" and ev es h0
  assume inv: "conv_wf L m s i (nd_conv nd) \<and> reaches_height h (nd_conv nd)" and ok: "node_final L E m nd ev"
  show "node_step L E X ev nd \<noteq> None" by (rule node_step_returns [OF conjunct1 [OF inv] node_finalD(1) [OF ok]])
  assume step: "node_step L E X ev nd = Some (Inr (nd', es))"
  have below: "lib_below (nd_conv nd)" using inv by (simp add: reaches_height_def)
  show "conv_wf L m s i (nd_conv nd') \<and> reaches_height h (nd_conv nd')"
    using step
  proof (cases rule: node_step_cases)
    case (native db b q cv cs)
    note final = node_finalD(2) [OF ok [unfolded native(1)] native(2)]
    note step = native_step_final [OF conjunct1 [OF inv] below final native(3)]
    with inv native(4) show ?thesis
      by (auto simp: reaches_height_def split: option.splits intro: order_trans)
  qed (use inv in simp_all)
  assume rec: "stays_above h (conv_effects h0) \<and> (h = None \<longrightarrow> heights_recorded L m s i nd h0)"
  show "stays_above h (conv_effects (h0 @ es)) \<and> (h = None \<longrightarrow> heights_recorded L m s i nd' (h0 @ es))"
    using step
  proof (cases rule: node_step_cases)
    case (native db b q cv cs)
    note final = node_finalD(2) [OF ok [unfolded native(1)] native(2)]
    note step = native_step_final [OF conjunct1 [OF inv] below final native(3)]
    have "stays_above h (conv_effects h0 @ cs)"
      using inv rec step(3) by (auto simp: stays_above_def reaches_height_def split: option.splits intro: le_less_trans)
    moreover have "heights_recorded L m s i nd' (h0 @ es)" if "h = None"
    proof -
      from rec that obtain ch where "archive L m s i ch (nd_conv nd) (published (conv_effects h0))"
        by (auto simp: heights_recorded_def)
      moreover have "block_ok L m (nd_conv nd) b" using final by (simp add: final_ok_def)
      ultimately obtain ch' where "archive L m s i ch' cv (published (conv_effects h0) @ published cs)"
        using archive_step [OF conjunct1 [OF inv] _ native(3)] by blast
      with rec that step(3) native(4,5) show ?thesis
        by (fastforce simp: heights_recorded_def intro: order_trans)
    qed
    ultimately show ?thesis using native(5) by simp
  next
    case (evm b q ch hs)
    with rec on_evm_block_stores [OF evm(3)] show ?thesis by (auto simp: heights_recorded_def)
  qed (use rec in \<open>simp_all add: heights_recorded_def\<close>)
qed

section \<open>Properties\<close>

text \<open>
  C11: A stored height can be started from. In every interleaving of callbacks and deliveries on a chain
  that does not go back behind its irreversible blocks: every height that the blockchain plugin
  has stored is covered by what was published, from the starting block up to it, and whatever
  happens afterwards, the last block published for each of these numbers stays the same. A node
  started from one of them finds nothing that is forked away later.
\<close>

theorem stored_heights_are_final:
  assumes "load_head L db n a conv_init = Inr (cv, a')" "\<not> app_quitting a'"
    and "get_canonical_block_at_height db n = Some b0" "start_mapped L db b0" "lib_ok L" "cv_bm cv = Some m"
    and "handled (node_step L E X) (node_final L E m) (node_start rc cv) evs1 es1 nd1"
    and "h \<in> set (stored_heights (calls (chain_effects es1)))"
    and "handled (node_step L E X) (node_final L E m) nd1 evs2 es2 nd2"
    and "blk_number b0 \<le> k" "k \<le> h"
  shows "\<exists>q. latest (published (conv_effects es1)) k = Some q \<and>
    latest (published (conv_effects (es1 @ es2))) k = Some q"
proof -
  let ?i = "hd_prev_randao (blk_header b0)" and ?s = "blk_number b0"
  note start = archive_start [OF assms(1-6)]
  have "cv_evm_lib cv = None" by (rule load_head_started [OF assms(1,2)]) (simp add: conv_init_def)
  then have inv0: "conv_wf L m ?s ?i (nd_conv (node_start rc cv)) \<and> reaches_height None (nd_conv (node_start rc cv))"
    using start(1) by (simp add: node_start_def reaches_height_def lib_below_def)
  have "stays_above None (conv_effects ([] @ es1)) \<and>
      (None = (None :: u64 option) \<longrightarrow> heights_recorded L m ?s ?i nd1 ([] @ es1))"
    by (rule heights.handled_recorded [OF assms(7) inv0])
      (use start(2) in \<open>auto simp: stays_above_def heights_recorded_def node_start_def conv_related_def\<close>)
  then obtain ch l where arch: "archive L m ?s ?i ch (nd_conv nd1) (published (conv_effects es1))"
    and l: "cv_evm_lib (nd_conv nd1) = Some l" "h \<le> l"
    using assms(8) by (auto simp: heights_recorded_def)
  have inv1: "conv_wf L m ?s ?i (nd_conv nd1) \<and> reaches_height None (nd_conv nd1)"
    by (rule heights.handled_inv [OF assms(7) inv0])
  then have below: "l < blk_number (last (cv_evm_blocks (nd_conv nd1)))"
    using l(1) by (simp add: reaches_height_def lib_below_def)
  then have "k < ledger_height L m ?s ch" using arch l(2) assms(11) by (auto simp: archive_def)
  with archive_latest [OF arch _ assms(10)] inv1 obtain q where q: "latest (published (conv_effects es1)) k = Some q"
    by (auto simp: conv_wf_def)
  have inv1': "conv_wf L m ?s ?i (nd_conv nd1) \<and> reaches_height (Some l) (nd_conv nd1)"
    using inv1 l(1) by (simp add: reaches_height_def)
  have "stays_above (Some l) (conv_effects ([] @ es2)) \<and>
      (Some l = None \<longrightarrow> heights_recorded L m ?s ?i nd2 ([] @ es2))"
    by (rule heights.handled_recorded [OF assms(9) inv1']) (simp add: stays_above_def)
  then have "\<forall>q \<in> set (published (conv_effects es2)). k < blk_number q"
    using l(2) assms(11) by (auto simp: stays_above_def)
  with q show ?thesis by (simp add: latest_unchanged)
qed

lemma heights_run:
  obtains nd es where
    "handled (node_step sample_lib pipe_env sample_exec) (node_final sample_lib pipe_env sample_mapping)
       (node_start pipe_receiver sample_conv) pipe_events es nd"
    "3 \<in> set (stored_heights (calls (chain_effects es)))"
proof -
  obtain cv cs b1 b2 where cv: "on_native_block sample_lib sample_chain_db False pipe_block sample_conv = Some (Inr (cv, cs))"
    "published cs = [b1, b2]" "blk_number b1 = 3" "cv_evm_lib cv = Some 3" "blk_irreversible b1 = False"
    by (rule pipe_converted)
  obtain ch hs where ch: "on_evm_block sample_exec cv b1 chain_init = Inr (ch, hs)"
    "calls hs = [Open_engine, Insert_block b1, Write_lib_processed 3, Verify_chain [3]]"
    by (rule pipe_inserted [OF cv(4,3,5)])
  have ok: "block_ok sample_lib sample_mapping sample_conv pipe_block" "nb_lib pipe_block = 10"
    "rc_last_lib pipe_receiver = 0" "cv_evm_lib sample_conv = None" by code_simp+
  let ?step = "node_step sample_lib pipe_env sample_exec" and ?ok = "node_final sample_lib pipe_env sample_mapping"
  let ?n0 = "node_start pipe_receiver sample_conv"
  let ?n1 = "?n0\<lparr>nd_receiver := pipe_receiver\<lparr>rc_last_lib := 10, rc_last_block_num := 11, rc_retry_count := 0\<rparr>,
    nd_native_queue := [pipe_block]\<rparr>"
  let ?n2 = "?n1\<lparr>nd_conv := cv, nd_native_queue := [], nd_evm_queue := [b1, b2]\<rparr>"
  let ?n3 = "?n2\<lparr>nd_chain := ch, nd_evm_queue := [b2]\<rparr>"
  let ?ship = "Ship sample_chain_db (Read_done False [1, 11, 10, 4])"
  have 1: "?ok ?n0 ?ship" "?step ?ship ?n0 = Some (Inr (?n1, map From_ship [Publish_native pipe_block, Async_read]))"
    using ok(2,3) pipe_received by (simp_all add: node_final_def node_ok_def node_start_def del: ship_step.simps)
  have 2: "?ok ?n1 (Native_delivery sample_chain_db)" "?step (Native_delivery sample_chain_db) ?n1 = Some (Inr (?n2, map From_conv cs))"
    using ok(1,4) by (simp_all add: node_final_def node_ok_def node_start_def final_ok_def chain_init_def cv(1,2))
  have 3: "?ok ?n2 Evm_delivery" "?step Evm_delivery ?n2 = Some (Inr (?n3, map From_chain hs))"
    by (simp_all add: node_final_def node_ok_def node_start_def ch(1))
  have "handled ?step ?ok ?n2 [Evm_delivery] (map From_chain hs) ?n3"
    by (rule handled_single [of ?ok ?n2 Evm_delivery ?step ?n3, OF 3])
  from handled_Cons [of ?ok ?n1 "Native_delivery sample_chain_db" ?step ?n2, OF 2 this]
  have "handled ?step ?ok ?n1 [Native_delivery sample_chain_db, Evm_delivery] (map From_conv cs @ map From_chain hs) ?n3" .
  from handled_Cons [of ?ok ?n0 ?ship ?step ?n1, OF 1 this] show thesis
    by (rule that [unfolded pipe_events_def]) (use ch(2) in simp)
qed

theorem stored_heights_are_final_witness:
  "\<exists>nd es q. handled (node_step sample_lib pipe_env sample_exec) (node_final sample_lib pipe_env sample_mapping)
       (node_start pipe_receiver sample_conv) pipe_events es nd \<and>
     3 \<in> set (stored_heights (calls (chain_effects es))) \<and> latest (published (conv_effects es)) 3 = Some q"
proof -
  obtain nd es where run: "handled (node_step sample_lib pipe_env sample_exec) (node_final sample_lib pipe_env sample_mapping)
       (node_start pipe_receiver sample_conv) pipe_events es nd" "3 \<in> set (stored_heights (calls (chain_effects es)))"
    by (rule heights_run)
  have "blk_number sample_start_block \<le> 3" by code_simp
  from stored_heights_are_final [OF sample_load_head _ pipe_start(1) sample_start_mapped sample_lib_ok pipe_start(2) run handled_start this]
    run show ?thesis by fastforce
qed

end
