(* ===== verification/Ship_Wire.thy ===== *)
theory Ship_Wire
  imports Ship_Session "HOL-Library.State_Monad"
begin

text \<open>
  The blocking calls below the callbacks of \<open>src/src/ship_receiver_plugin.cpp\<close>. \<open>Ship_Connection\<close> takes
  what the network answers as part of an event; here the calls are made one after the other on
  a connection, which is a state with an operation for each of them, and the two descriptions
  are shown to agree.
\<close>

section \<open>The connection\<close>

text \<open>The operations of the stream. Each tells whether it failed; a read gives what was read.\<close>

datatype wire_op =
    Op_connect
  | Op_handshake string string
  | Op_read
  | Op_write bytes

type_synonym 'k socket = "wire_op \<Rightarrow> ('k, bool \<times> bytes) state"

datatype ship_request =
    Get_status_request
  | Get_blocks_request get_blocks_request

text \<open>The parameter: the binary form of a request.\<close>

record 'def wire_env = "'def ship_env" +
  we_to_bin :: "ship_request \<Rightarrow> bytes"

section \<open>Requests and answers\<close>

definition send_request :: "('def, 'more) wire_env_scheme \<Rightarrow> 'k socket \<Rightarrow> ship_request \<Rightarrow> ('k, bool) state" where
  "send_request E so req = do {
     (ec, _) \<leftarrow> so (Op_write (we_to_bin E req));
     State_Monad.return ec
   }"

definition send_get_status_request :: "('def, 'more) wire_env_scheme \<Rightarrow> 'k socket \<Rightarrow> ('k, bool) state" where
  "send_get_status_request E so = send_request E so Get_status_request"

definition wire_send_get_blocks :: "('def, 'more) wire_env_scheme \<Rightarrow> 'k socket \<Rightarrow> u32 \<Rightarrow> ('k, bool) state" where
  "wire_send_get_blocks E so start = send_request E so (Get_blocks_request (send_get_blocks_request start))"

definition wire_read :: "'k socket \<Rightarrow> ('k, bool \<times> bytes) state" where
  "wire_read so = so Op_read"

definition get_result :: "('def, 'more) wire_env_scheme \<Rightarrow> bytes \<Rightarrow> ship_result res" where
  "get_result E b = se_result E b"

section \<open>The callback of the resolver\<close>

definition wire_connect_stream :: "'k socket \<Rightarrow> receiver \<Rightarrow> ('k, bool) state" where
  "wire_connect_stream so st = do {
     (ec, _) \<leftarrow> so Op_connect;
     if ec then State_Monad.return ec
     else do {
       (ec, _) \<leftarrow> so (Op_handshake (rc_host st) ''/'');
       State_Monad.return ec
     }
   }"

text \<open>The message is loaded as an ABI also when the read has failed.\<close>

definition wire_initial_read ::
  "('def, 'more) wire_env_scheme \<Rightarrow> 'k socket \<Rightarrow> receiver \<Rightarrow> ('k, (bool \<times> receiver) res) state" where
  "wire_initial_read E so st = do {
     (ec, buff) \<leftarrow> so Op_read;
     State_Monad.return
       (rbind (load_abi (se_abi_from_json E) (se_abi_convert E) (buff @ [0])) (\<lambda>abi.
         Inr (ec, st\<lparr>rc_abi := Some abi\<rparr>)))
   }"

definition wire_get_status :: "('def, 'more) wire_env_scheme \<Rightarrow> 'k socket \<Rightarrow> ('k, u32 option res) state" where
  "wire_get_status E so = do {
     ec \<leftarrow> send_get_status_request E so;
     if ec then State_Monad.return (Inr None)
     else do {
       (ec, buff) \<leftarrow> wire_read so;
       State_Monad.return
         (if ec then Inr None
          else rbind (get_result E buff) (\<lambda>r.
            case r of Get_status_result trace_begin_block \<Rightarrow> Inr (Some trace_begin_block)
            | _ \<Rightarrow> Inl Bad_variant_access))
     }
   }"

definition wire_sync ::
  "('def, 'more) wire_env_scheme \<Rightarrow> 'k socket \<Rightarrow> 'tx chaindata \<Rightarrow> receiver \<Rightarrow> ('k, (receiver \<times> ship_effect list) res) state" where
  "wire_sync E so db st = do {
     status \<leftarrow> wire_get_status E so;
     case status of
       Inl e \<Rightarrow> State_Monad.return (Inl e)
     | Inr None \<Rightarrow> State_Monad.return (Inr (case reset_connection st of (st', effs) \<Rightarrow> (st', Send_get_status # effs)))
     | Inr (Some trace_begin_block) \<Rightarrow>
         (case start_point db st of
            None \<Rightarrow> State_Monad.return (Inr (st, [Send_get_status, Sys_error ''Unable to read canonical block'']))
          | Some start_from \<Rightarrow>
              if trace_begin_block > start_from
              then State_Monad.return (Inr (st, [Send_get_status, Sys_error ''Start block not available in SHiP'']))
              else do {
                ec \<leftarrow> wire_send_get_blocks E so start_from;
                State_Monad.return (Inr
                  (if ec
                   then (case reset_connection st of
                     (st', effs) \<Rightarrow> (st', Send_get_status # Send_get_blocks (send_get_blocks_request start_from) # effs))
                   else (st, [Send_get_status, Send_get_blocks (send_get_blocks_request start_from), Async_read])))
              })
   }"

definition wire_on_resolved ::
  "('def, 'more) wire_env_scheme \<Rightarrow> 'k socket \<Rightarrow> 'tx chaindata \<Rightarrow> bool \<Rightarrow> receiver \<Rightarrow> ('k, (receiver \<times> ship_effect list) res) state" where
  "wire_on_resolved E so db ec st =
     (if ec then State_Monad.return (Inr (reset_connection st))
      else do {
        ec2 \<leftarrow> wire_connect_stream so st;
        if ec2 then State_Monad.return (Inr (case reset_connection st of (st', effs) \<Rightarrow> (st', Connect # effs)))
        else do {
          first \<leftarrow> wire_initial_read E so st;
          case first of
            Inl e \<Rightarrow> State_Monad.return (Inl e)
          | Inr (ec2, st) \<Rightarrow>
              if ec2 then State_Monad.return (Inr (case reset_connection st of (st', effs) \<Rightarrow> (st', Connect # effs)))
              else do {
                r \<leftarrow> wire_sync E so db st;
                State_Monad.return (rbind r (\<lambda>(st', effs). Inr (st', Connect # effs)))
              }
        }
      })"

section \<open>A connection that keeps a record\<close>

type_synonym wire_log = "(wire_op \<times> bool \<times> bytes) list"

definition logged :: "'k socket \<Rightarrow> ('k \<times> wire_log) socket" where
  "logged so op = State (\<lambda>(k, tr).
     case run_state (so op) k of ((ec, buff), k') \<Rightarrow> ((ec, buff), (k', tr @ [(op, ec, buff)])))"

text \<open>The answers in a record, for the operations of the callback in their order.\<close>

definition answer :: "wire_log \<Rightarrow> nat \<Rightarrow> bool \<times> bytes" where
  "answer tr n = (if n < length tr then snd (tr ! n) else (True, []))"

definition net_of :: "wire_log \<Rightarrow> net" where
  "net_of tr = \<lparr>net_connect_fails = fst (answer tr 0), net_handshake_fails = fst (answer tr 1),
     net_initial_read_fails = fst (answer tr 2), net_initial_message = snd (answer tr 2),
     net_send_status_fails = fst (answer tr 3), net_read_status_fails = fst (answer tr 4),
     net_status_message = snd (answer tr 4), net_send_blocks_fails = fst (answer tr 5)\<rparr>"

text \<open>What is said on a connection that does not fail.\<close>

definition dialogue ::
  "('def, 'more) wire_env_scheme \<Rightarrow> 'tx chaindata \<Rightarrow> receiver \<Rightarrow> wire_op list" where
  "dialogue E db st =
     [Op_connect, Op_handshake (rc_host st) ''/'', Op_read, Op_write (we_to_bin E Get_status_request), Op_read] @
     (case start_point db st of
        None \<Rightarrow> []
      | Some start \<Rightarrow> [Op_write (we_to_bin E (Get_blocks_request (send_get_blocks_request start)))])"

section \<open>Both descriptions agree\<close>

lemma start_point_abi [simp]: "start_point db (st\<lparr>rc_abi := a\<rparr>) = start_point db st"
  by (simp add: start_point_def resume_point_def)

lemma answer_simps [simp]:
  "answer (x # tr) 0 = snd x" "answer (x # tr) (Suc n) = answer tr n" "answer [] n = (True, [])"
  by (simp_all add: answer_def)

lemmas wire_simps = send_request_def send_get_status_request_def wire_send_get_blocks_def wire_read_def get_result_def

lemma wire_get_status_agrees:
  assumes "run_state (wire_get_status E (logged so)) (k, tr0) = (r, (k', tr))"
  obtains f1 b1 where "f1" "r = Inr None" "tr = tr0 @ [(Op_write (we_to_bin E Get_status_request), f1, b1)]"
  | f1 b1 f2 b2 where "\<not> f1" "tr = tr0 @ [(Op_write (we_to_bin E Get_status_request), f1, b1), (Op_read, f2, b2)]"
    "r = (if f2 then Inr None else rbind (se_result E b2) (\<lambda>r.
            case r of Get_status_result t \<Rightarrow> Inr (Some t) | _ \<Rightarrow> Inl Bad_variant_access))"
proof -
  obtain f1 b1 k1 where 1: "run_state (so (Op_write (we_to_bin E Get_status_request))) k = ((f1, b1), k1)"
    by (metis prod.exhaust)
  obtain f2 b2 k2 where 2: "run_state (so Op_read) k1 = ((f2, b2), k2)" by (metis prod.exhaust)
  note run = assms [unfolded wire_get_status_def wire_simps]
  show thesis
  proof (cases f1)
    case True
    show thesis by (rule that(1) [of f1 b1]) (use run True in \<open>simp_all add: logged_def 1\<close>)
  next
    case False
    show thesis by (rule that(2) [of f1 b1 f2 b2]) (use run False in \<open>auto simp: logged_def 1 2\<close>)
  qed
qed

text \<open>The answers of an event are those of a record of the synchronisation.\<close>

definition answered :: "net \<Rightarrow> wire_log \<Rightarrow> bool" where
  "answered n tr \<longleftrightarrow> net_send_status_fails n = fst (answer tr 0) \<and> net_read_status_fails n = fst (answer tr 1) \<and>
     net_status_message n = snd (answer tr 1) \<and> net_send_blocks_fails n = fst (answer tr 2)"

text \<open>The synchronisation, after the connection, the handshake and the first message.\<close>

lemma wire_sync_agrees:
  assumes "run_state (wire_sync E (logged so) db st) (k, tr0) = (r, (k', tr))"
  obtains tr' where "tr = tr0 @ tr'" "tr' \<noteq> []"
    "\<forall>n. answered n tr' \<longrightarrow> r = sync E db n st"
    "map fst tr' = take (length tr') (drop 3 (dialogue E db st))"
    "list_all (\<lambda>(op, ec, buff). \<not> ec) (butlast tr')"
proof -
  obtain r1 k1 tr1 where status: "run_state (wire_get_status E (logged so)) (k, tr0) = (r1, (k1, tr1))"
    by (metis prod.exhaust)
  from status show thesis
  proof (cases rule: wire_get_status_agrees)
    case (1 f1 b1)
    with assms status show thesis
      by (intro that [of "[(Op_write (we_to_bin E Get_status_request), f1, b1)]"])
        (auto simp: answered_def wire_sync_def sync_def get_status_def dialogue_def)
  next
    case (2 f1 b1 f2 b2)
    let ?tr = "[(Op_write (we_to_bin E Get_status_request), f1, b1), (Op_read, f2, b2)]"
    have gs: "get_status E n = r1"
      if "\<not> net_send_status_fails n" "net_read_status_fails n = f2" "net_status_message n = b2" for n
      using 2(3) that by (simp add: get_status_def)
    show thesis
    proof (cases "\<exists>t s. r1 = Inr (Some t) \<and> start_point db st = Some s \<and> \<not> s < t")
      case True
      then obtain t s where ts: "r1 = Inr (Some t)" "start_point db st = Some s" "\<not> s < t" by blast
      let ?w = "Op_write (we_to_bin E (Get_blocks_request (send_get_blocks_request s)))"
      have f2: "\<not> f2" using 2(3) ts(1) by (auto split: if_splits)
      obtain f3 b3 k3 where 3: "run_state (so ?w) k1 = ((f3, b3), k3)" by (metis prod.exhaust)
      show thesis
      proof (rule that [of "?tr @ [(?w, f3, b3)]"])
        show "tr = tr0 @ ?tr @ [(?w, f3, b3)]"
          using assms status 2(2) ts by (simp add: wire_sync_def wire_simps logged_def 3)
        show "\<forall>n. answered n (?tr @ [(?w, f3, b3)]) \<longrightarrow> r = sync E db n st"
        proof (intro allI impI)
          fix n assume "answered n (?tr @ [(?w, f3, b3)])"
          then have "get_status E n = Inr (Some t)" "net_send_blocks_fails n = f3"
            using gs ts(1) 2(1) by (simp_all add: answered_def numeral_2_eq_2)
          then show "r = sync E db n st"
            using assms status ts by (auto simp: wire_sync_def wire_simps logged_def 3 sync_def)
        qed
      qed (use 2(1) f2 ts(2) in \<open>simp_all add: dialogue_def\<close>)
    next
      case False
      show thesis
      proof (rule that [of ?tr])
        show "tr = tr0 @ ?tr"
          using assms status 2(2) False by (auto simp: wire_sync_def split: sum.splits option.splits)
        show "\<forall>n. answered n ?tr \<longrightarrow> r = sync E db n st"
        proof (intro allI impI)
          fix n assume "answered n ?tr"
          then have "get_status E n = r1" using gs 2(1) by (simp add: answered_def)
          then show "r = sync E db n st"
            using assms status False by (auto simp: wire_sync_def sync_def split: sum.splits option.splits)
        qed
      qed (use 2(1) in \<open>simp_all add: dialogue_def\<close>)
    qed
  qed
qed

section \<open>Properties\<close>

text \<open>
  C22: The callback of the resolver, with its blocking calls made one after the other on any connection,
  does what the event-driven description says for the answers that it got: the same new state,
  effects and errors. The operations on the connection are the beginning of the dialogue that
  the protocol prescribes - connect, handshake, the server's ABI, a status request and its answer,
  a request for the blocks from the starting point on - and nothing is sent or read after the
  first operation that fails.
\<close>

theorem wire_agrees_with_callback:
  assumes "run_state (wire_on_resolved E (logged so) db False st) (k, []) = (r, (k', tr))"
  shows "r = on_resolved E db False (net_of tr) st \<and> map fst tr = take (length tr) (dialogue E db st) \<and>
    list_all (\<lambda>(op, ec, buff). \<not> ec) (butlast tr)"
proof -
  obtain f1 b1 k1 where 1: "run_state (so Op_connect) k = ((f1, b1), k1)" by (metis prod.exhaust)
  obtain f2 b2 k2 where 2: "run_state (so (Op_handshake (rc_host st) ''/'')) k1 = ((f2, b2), k2)" by (metis prod.exhaust)
  obtain f3 b3 k3 where 3: "run_state (so Op_read) k2 = ((f3, b3), k3)" by (metis prod.exhaust)
  let ?tr = "[(Op_connect, f1, b1), (Op_handshake (rc_host st) ''/'', f2, b2), (Op_read, f3, b3)]"
  let ?abi = "load_abi (se_abi_from_json E) (se_abi_convert E) (b3 @ [0])"
  note run = assms [unfolded wire_on_resolved_def wire_connect_stream_def wire_initial_read_def]
  note defs = on_resolved_def connect_stream_def initial_read_def net_of_def numeral_2_eq_2
  consider "f1" | "\<not> f1" "f2" | e where "\<not> f1" "\<not> f2" "?abi = Inl e" | abi where "\<not> f1" "\<not> f2" "?abi = Inr abi" "f3"
    | abi where "\<not> f1" "\<not> f2" "?abi = Inr abi" "\<not> f3" by (cases ?abi) auto
  then show ?thesis
  proof cases
    case a: (5 abi)
    obtain s ks trs where sync: "run_state (wire_sync E (logged so) db (st\<lparr>rc_abi := Some abi\<rparr>)) (k3, ?tr) = (s, (ks, trs))"
      by (metis prod.exhaust)
    obtain tr' where tr': "trs = ?tr @ tr'" "tr' \<noteq> []"
      "\<forall>n. answered n tr' \<longrightarrow> s = sync E db n (st\<lparr>rc_abi := Some abi\<rparr>)"
      "map fst tr' = take (length tr') (drop 3 (dialogue E db (st\<lparr>rc_abi := Some abi\<rparr>)))"
      "list_all (\<lambda>(op, ec, buff). \<not> ec) (butlast tr')"
      by (rule wire_sync_agrees [OF sync])
    have tr: "tr = ?tr @ tr'" and r: "r = rbind s (\<lambda>(st', effs). Inr (st', Connect # effs))"
      using run a sync tr'(1) by (simp_all add: logged_def 1 2 3)
    have "s = sync E db (net_of tr) (st\<lparr>rc_abi := Some abi\<rparr>)"
      using tr'(3) by (simp add: tr answered_def net_of_def eval_nat_numeral)
    then show ?thesis
      using a tr'(2,4,5) r unfolding tr by (simp add: defs dialogue_def)
  next
    case a: 1
    with run show ?thesis by (auto simp: logged_def 1 defs dialogue_def)
  next
    case a: 2
    with run show ?thesis by (auto simp: logged_def 1 2 defs dialogue_def)
  next
    case a: (3 e)
    with run show ?thesis by (auto simp: logged_def 1 2 3 defs dialogue_def)
  next
    case a: (4 abi)
    with run show ?thesis by (auto simp: logged_def 1 2 3 defs dialogue_def)
  qed
qed

text \<open>A connection that gives prepared answers.\<close>

definition prepared :: "(bool \<times> bytes) list socket" where
  "prepared op = State (\<lambda>k. case k of [] \<Rightarrow> ((True, []), []) | a # k' \<Rightarrow> (a, k'))"

definition sample_wire_env :: "bytes wire_env" where
  "sample_wire_env = ship_env.extend sample_env
     \<lparr>we_to_bin = (\<lambda>r. case r of Get_status_request \<Rightarrow> [0]
        | Get_blocks_request q \<Rightarrow> [1, ucast (gr_start_block_num q)])\<rparr>"

definition sample_answers :: "(bool \<times> bytes) list" where
  "sample_answers = [(False, []), (False, []), (False, [1]), (False, []), (False, [0, 1]), (False, [])]"

theorem wire_agrees_with_callback_witness:
  "\<exists>r k' tr. run_state (wire_on_resolved sample_wire_env (logged prepared) sample_chain_db False sample_receiver)
       (sample_answers, []) = (r, (k', tr)) \<and> length tr = 6 \<and>
     r = on_resolved sample_wire_env sample_chain_db False (net_of tr) sample_receiver \<and>
     map fst tr = dialogue sample_wire_env sample_chain_db sample_receiver"
proof -
  let ?run = "run_state (wire_on_resolved sample_wire_env (logged prepared) sample_chain_db False sample_receiver)
       (sample_answers, [])"
  have "(case ?run of (r, (k', tr)) \<Rightarrow> length tr = 6)" by code_simp
  then obtain r k' tr where run: "?run = (r, (k', tr))" "length tr = 6" by (auto split: prod.splits)
  have "length (dialogue sample_wire_env sample_chain_db sample_receiver) = 6" by code_simp
  with run wire_agrees_with_callback [OF run(1)] show ?thesis by fastforce
qed

end
