(* ===== verification/Spec2Isabelle.thy ===== *)
theory Spec2Isabelle
  imports Conversion_Faults Conversion_Sessions Engine_Sentry Node_End Node_Heights Ship_Wire
begin

text \<open>
  Verification library of the EOS EVM node (the C++ code under \<open>src/src\<close> and \<open>src/version\<close>).

  The program. \<open>eos-evm-node\<close> follows an EOS chain through the state history plugin of a \<open>nodeos\<close>
  and turns it into an EVM chain. Three plugins form a pipeline with two channels between them:
  the receiver (\<open>ship_receiver_plugin.cpp\<close>) connects, selects the actions of the EVM contract and
  publishes native blocks; the block conversion (\<open>block_conversion_plugin.cpp\<close>) keeps the recent
  native blocks and the EVM blocks built from them, follows forks by rolling both back, and
  publishes each EVM block when it is complete; the blockchain plugin (\<open>blockchain_plugin.cpp\<close>)
  inserts the EVM blocks into the execution engine and has the chain verified. The engine plugin
  (\<open>engine_plugin.cpp\<close>) opens the chain database and answers where to start from. \<open>eos-evm-rpc\<close>
  runs the RPC daemon (\<open>rpc_plugin.cpp\<close>). Both use the system plugin (\<open>sys_plugin.cpp\<close>).

  The theories and the code they model.

  \<^item> \<open>Node_Prelude\<close>: machine words, errors as values (\<open>err\<close>, \<open>res\<close>, the bind \<open>rbind\<close> and the
    collection \<open>res_simps\<close>), linked lists. An exception, a failed assertion and undefined behaviour
    are different errors; a model never goes on after undefined behaviour.
  \<^item> \<open>Double_Conversions\<close>: the conversions between times and \<open>double\<close> that the code makes by
    dividing and multiplying with \<open>1e6\<close>, and that they are exact up to \<open>2^53\<close>.
  \<^item> \<open>Node_Utils\<close> (\<open>utils.hpp\<close>), \<open>Abi_Utils\<close> (\<open>abi_utils.hpp\<close>), \<open>Node_Channels\<close> (\<open>channels.hpp\<close>,
    \<open>sys_plugin::error\<close>), \<open>Chain_Types\<close> (the payloads of \<open>block_conversion_plugin.hpp\<close> and the
    library types and functions as the record \<open>lib\<close>).
  \<^item> \<open>Engine\<close> (\<open>engine_plugin.cpp\<close>): the constructor with its error exits, startup and shutdown,
    and the queries, of which \<open>find_block_with_valid_eos_id\<close> is a loop with a termination proof.
    \<open>Engine_Sentry\<close>: the sentry that it gives to its back end, which answers every call with a default.
  \<^item> \<open>Block_Conversion\<close> (\<open>block_conversion_plugin.cpp\<close>): the state \<open>conv\<close>, \<open>load_head\<close>, and the
    subscription handler as \<open>on_native_block\<close>, put together from one definition per loop and branch:
    linking with rollback, extension of the EVM chain, filling of the last block, irreversibility.
  \<^item> \<open>Ship_Blocks\<close> and \<open>Ship_Connection\<close> (\<open>ship_receiver_plugin.cpp\<close>): from a result of the state
    history to a native block, and the connection as a state machine whose events are the
    callbacks with what the network answers in them, and whose effects are the operations started.
    \<open>Ship_Wire\<close>: the blocking calls below these events, as computations over a connection.
  \<^item> \<open>Blockchain\<close> (\<open>blockchain_plugin.cpp\<close>): the handler of EVM blocks with its \<open>try\<close> block, the
    \<open>catch\<close> clauses and the static counter.
  \<^item> \<open>Node_Plugins\<close> (the options and initialisations of the plugins, \<open>rpc_plugin.cpp\<close>,
    \<open>eos-evm-node.cpp\<close>, \<open>eos-evm-rpc.cpp\<close>, \<open>version_impl.cpp.in\<close>).
  \<^item> \<open>Node_Lifecycle\<close>: the requirements that the plugins declare in their headers, and their
    initialisation, startup and shutdown over the record \<open>plugins\<close> of all their members, in which a
    pointer that is not set yet is \<open>None\<close>.
  \<^item> \<open>Node_Handlers\<close>: the interfaces. A plugin is a handler of events; \<open>handled\<close> is the relation of
    histories, and the locales \<open>handler\<close>, \<open>recording_handler\<close> and \<open>refining_handler\<close> carry an invariant, a
    record of the effects and a refinement over every history. They are interpreted on the
    conversion (\<open>conversion\<close>, \<open>ledger\<close>, \<open>finality\<close>, \<open>restart\<close>, \<open>second_session\<close>), the receiver (\<open>session\<close>, \<open>bookkeeping\<close>), the
    blockchain plugin (\<open>blockchain\<close>) and the whole node (\<open>node\<close>, \<open>resuming\<close>, \<open>heights\<close>, \<open>pipeline\<close>,
    \<open>engine_use\<close>).
  \<^item> \<open>Node_Pipeline\<close>: the composed node, where callbacks and deliveries interleave in any way and a
    channel is a queue in the order of publication.

  What the lemmas show.

  \<^item> Conversion, one step (\<open>Conversion_Invariants\<close>, \<open>_Rollback\<close>, \<open>_Extension\<close>, \<open>_Handler\<close>): on an abstract
    view of the two lists, every phase keeps that the native blocks form a chain, that the EVM
    blocks are consecutive and linked by hash, and that each holds exactly the transactions of
    its native blocks. \<open>_Theorems\<close>, \<open>_Payload\<close>, \<open>_Edges\<close> and \<open>_Faults\<close> state what follows: the ways in
    which the handler can fail, when a fork can be followed, what is published, the payload checks, duplicates, unknown parents, and the
    runs in which the code does not do what it means to.
  \<^item> Conversion, histories (\<open>Conversion_History\<close>, \<open>_Refinement\<close>, \<open>_Finality\<close>): what is published is
    anchored in earlier blocks; the plugin refines a ledger that never forgets anything, so what is
    published depends on the native chain only; and irreversible EVM blocks are final.
    \<open>Conversion_Alike\<close> and \<open>Conversion_Restart\<close> run two plugins side by side, one of which was stopped and
    started again: they publish the same blocks, unless a fork reaches behind the block that
    the second one started from, which is the one case where they differ. \<open>Conversion_Starts\<close>: nodes
    that start at different heights publish the same transactions and ids above both.
    \<open>Conversion_Sessions\<close>: what is published before a node is stopped and after it was started again
    from a published block is one EVM chain, linked by hash across the restart, and it refines the
    native chain joined at the block of the restart.
  \<^item> Receiver (\<open>Ship_Order\<close>, \<open>Ship_Theorems\<close>, \<open>Ship_Session\<close>): actions come in the order of their
    causes, the last one of those with the same key, blocks are well formed, the number of attempts is bounded, and where it resumes.
    \<open>Ship_Wire\<close> shows that the calls, made one by one, agree with the events.
  \<^item> Node: the engine is given every block after its parent, and a reconnection asks for a block
    whose parent is still cached, unless the irreversible block lies before the start of the node. \<open>Node_Heights\<close>: a height that the blockchain plugin has stored is
    final, so a node can be started from it.
  \<^item> Life of the program (\<open>Node_Lifecycle\<close>): the requirements leave one order, in which no plugin
    reaches for one that is not initialised; after it the node is in the state that the histories
    begin with. \<open>Node_Program\<close> puts everything together: from the options
    to the engine, the program publishes the chain of the ledger. \<open>Node_End\<close>: what the shutdowns do
    after any such run, in whatever order they are called.

  Hypotheses. Libraries that are not part of the repository (silkworm, appbase, abieos, the
  standard library's streams) are fields of the records \<open>lib\<close>, \<open>ship_lib\<close>, \<open>ship_env\<close>, \<open>exec_lib\<close>,
  \<open>wire_env\<close>, \<open>chaindata\<close>, \<open>engine_world\<close> and \<open>application\<close>, and the connection is a \<open>socket\<close>. What the theorems assume of them is named: \<open>header_prepared\<close>
  (a prepared header has the number it is given), \<open>default_block_empty\<close>, \<open>decoders_throw\<close> (decoders fail by exceptions), \<open>start_mapped\<close> (the end of the
  starting EVM block is mapped to its number or a later one), \<open>conforms\<close> (parsed options have
  their declared types). \<open>block_ok\<close> is what a native block of an EOS chain satisfies: its id carries
  its number, it is one after its parent, and its time maps to a number not below the parent's.
  \<open>requirements_first\<close> is what the framework promises of the order of initialisation, and \<open>started\<close> that
  it starts the plugins in this order; nothing is assumed of the order in which it shuts them down, nor
  of what it does after a call that throws. That a transaction has its former hash when it is encoded
  again (\<open>removable\<close>) is not assumed: the code decodes wrapped transactions too, for which it can fail. \<open>stored_as\<close> says that
  a stored block is read back as it was closed, and \<open>after_start\<close> and \<open>later_ok\<close> that a
  restarted node sees no fork behind its starting block.
  \<open>Sample_Library\<close> instantiates every parameter with computable functions; the witnesses run on it.

  Bounds and termination. Integers are words of their C++ width. Loops over lists and heights
  are total functions with termination proofs. The loop that extends the EVM chain ends only
  if the library counts as documented, so it is a partial function whose \<open>None\<close> is a loop that does not
  end; that it ends is proved under \<open>header_prepared\<close>. No fuel is used anywhere.

  Not modelled. Logging; the transport below the calls on the websocket and the scheduling inside
  the application framework, except that a channel delivers in order; the state of a handler after an exception, since the application quits (the
  blockchain plugin, which catches its exceptions itself, goes on with the state it left). The
  JavaScript, Lua and Python tools under \<open>peripherals\<close>, tests and build files are other programs.
\<close>

end
